(* ===== verification/Tjost_Prelude.thy ===== *)
theory Tjost_Prelude
  imports Main "HOL-Library.Word" "HOL-Library.Monad_Syntax"
begin

text \<open>
  Shared ground of the development: the machine types of the program, the memory image of
  C integers (little endian on the supported x86-64 targets, big endian for network order),
  decimal printing as \<open>printf\<close> does it, and generic lemmas on lists that several
  components use.

  A C function that may hit undefined behaviour (a NULL dereference, a write past a static
  buffer) or may never return is modelled by a function into \<open>option\<close>: \<open>None\<close> is
  the undefined or non-returning run.
\<close>

unbundle bit_operations_syntax

section \<open>Machine types\<close>

type_synonym byte = "8 word"
type_synonym nframes = "32 word"
type_synonym size_t = "64 word"
type_synonym addr = nat

text \<open>The size of the static message buffers.\<close>

definition TJOST_BUF_SIZE :: nat where "TJOST_BUF_SIZE = 0x4000"

section \<open>Collections of simplification rules\<close>

named_theorems bytes_simps \<open>lengths and round trips of the memory images\<close>
named_theorems host_simps \<open>frame rules: what an operation leaves unchanged\<close>

section \<open>Memory images of integers\<close>

fun enc_le :: "nat \<Rightarrow> nat \<Rightarrow> byte list" where
  "enc_le 0 v = []"
| "enc_le (Suc k) v = of_nat v # enc_le k (v div 256)"

fun dec_le :: "byte list \<Rightarrow> nat" where
  "dec_le [] = 0"
| "dec_le (b # bs) = unat b + 256 * dec_le bs"

definition enc_be :: "nat \<Rightarrow> nat \<Rightarrow> byte list" where
  "enc_be k v = rev (enc_le k v)"

definition dec_be :: "byte list \<Rightarrow> nat" where
  "dec_be bs = dec_le (rev bs)"

lemma length_enc_le [simp, bytes_simps]: "length (enc_le k v) = k"
  by (induction k arbitrary: v) auto

lemma length_enc_be [simp, bytes_simps]: "length (enc_be k v) = k"
  by (simp add: enc_be_def)

lemma enc_be_4:
  "enc_be 4 v = [of_nat (v div 256 div 256 div 256), of_nat (v div 256 div 256), of_nat (v div 256), of_nat v]"
proof -
  have "(4 :: nat) = Suc (Suc (Suc (Suc 0)))" by simp
  then show ?thesis unfolding enc_be_def by (simp only: enc_le.simps rev.simps append.simps)
qed

lemma unat_of_nat_byte: "unat (of_nat v :: byte) = v mod 256"
  by (simp add: unat_of_nat)

lemma dec_enc_le: "dec_le (enc_le k v) = v mod 256 ^ k"
proof (induction k arbitrary: v)
  case 0
  then show ?case by simp
next
  case (Suc k)
  have "v mod 256 ^ Suc k = 256 * (v div 256 mod 256 ^ k) + v mod 256"
    using mod_mult2_eq [of v 256 "256 ^ k"] by simp
  then show ?case by (simp add: Suc.IH unat_of_nat_byte)
qed

lemma dec_enc_le_id [simp, bytes_simps]: "v < 256 ^ k \<Longrightarrow> dec_le (enc_le k v) = v"
  by (simp add: dec_enc_le)

lemma dec_enc_be_id [simp, bytes_simps]: "v < 256 ^ k \<Longrightarrow> dec_be (enc_be k v) = v"
  by (simp add: dec_be_def enc_be_def)

lemma dec_le_bound: "dec_le bs < 256 ^ length bs"
proof (induction bs)
  case Nil
  then show ?case by simp
next
  case (Cons b bs)
  have "unat b < 2 ^ LENGTH(8)" by (rule unsigned_less)
  then have "unat b < 256" by simp
  with Cons.IH have "unat b + 256 * dec_le bs < 256 * 256 ^ length bs" by linarith
  then show ?case by simp
qed

lemma unat_nframes_bound [simp]: "unat (w :: nframes) < 4294967296"
proof -
  have "unat w < 2 ^ LENGTH(32)" by (rule unsigned_less)
  then show ?thesis by simp
qed

lemma unat_size_t_bound [simp]: "unat (w :: size_t) < 18446744073709551616"
proof -
  have "unat w < 2 ^ LENGTH(64)" by (rule unsigned_less)
  then show ?thesis by simp
qed

text \<open>A pointer that may be NULL: address 0 is NULL.\<close>

definition ptr_of :: "addr option \<Rightarrow> nat" where
  "ptr_of p = (case p of None \<Rightarrow> 0 | Some a \<Rightarrow> a)"

definition of_ptr :: "nat \<Rightarrow> addr option" where
  "of_ptr n = (if n = 0 then None else Some n)"

definition valid_ptr :: "addr option \<Rightarrow> bool" where
  "valid_ptr p = (case p of None \<Rightarrow> True | Some a \<Rightarrow> 0 < a \<and> a < 256 ^ 8)"

lemma of_ptr_ptr_of [simp]: "valid_ptr p \<Longrightarrow> of_ptr (ptr_of p) = p"
  by (auto simp: of_ptr_def ptr_of_def valid_ptr_def split: option.splits)

lemma ptr_of_bound [simp]: "valid_ptr p \<Longrightarrow> ptr_of p < 18446744073709551616"
  by (auto simp: ptr_of_def valid_ptr_def split: option.splits)

section \<open>Strings and decimal printing\<close>

definition bytes_of_string :: "string \<Rightarrow> byte list" where
  "bytes_of_string s = map of_char s"

definition string_of_bytes :: "byte list \<Rightarrow> string" where
  "string_of_bytes bs = map (\<lambda>b. char_of (unat b)) bs"

lemma length_bytes_of_string [simp, bytes_simps]: "length (bytes_of_string s) = length s"
  by (simp add: bytes_of_string_def)

lemma unat_of_char_byte: "unat (of_char c :: byte) = of_char c"
proof -
  have "(of_char c :: byte) = of_nat (of_char c)"
    by (simp add: of_nat_of_char)
  moreover have "(of_char c :: nat) < 256"
    by simp
  ultimately show ?thesis by (simp add: unat_of_nat)
qed

lemma string_of_bytes_of_string [simp, bytes_simps]: "string_of_bytes (bytes_of_string s) = s"
  by (induction s) (auto simp: string_of_bytes_def bytes_of_string_def unat_of_char_byte)

fun show_nat :: "nat \<Rightarrow> string" where
  "show_nat n = (if n < 10 then [char_of (48 + n)]
                 else show_nat (n div 10) @ [char_of (48 + n mod 10)])"

declare show_nat.simps [simp del]

definition show_int :: "int \<Rightarrow> string" where
  "show_int i = (if i < 0 then ''-'' @ show_nat (nat (- i)) else show_nat (nat i))"

lemma length_show_nat: "n < 10 ^ Suc k \<Longrightarrow> length (show_nat n) \<le> Suc k"
proof (induction k arbitrary: n)
  case 0
  then show ?case by (simp add: show_nat.simps [of n])
next
  case (Suc k)
  show ?case
  proof (cases "n < 10")
    case True
    then show ?thesis by (simp add: show_nat.simps [of n])
  next
    case False
    from Suc.prems have "n div 10 < 10 ^ Suc k" by (simp add: less_mult_imp_div_less)
    with Suc.IH have "length (show_nat (n div 10)) \<le> Suc k" by blast
    with False show ?thesis by (simp add: show_nat.simps [of n])
  qed
qed

lemma length_show_int32: "- (2 ^ 31) \<le> i \<Longrightarrow> i < 2 ^ 31 \<Longrightarrow> length (show_int i) \<le> 11"
proof -
  assume i: "- (2 ^ 31) \<le> i" "i < 2 ^ 31"
  then have "nat \<bar>i\<bar> < 10 ^ Suc 9" by simp
  then have "length (show_nat (nat \<bar>i\<bar>)) \<le> 10"
    using length_show_nat [of "nat \<bar>i\<bar>" 9] by simp
  then show ?thesis by (auto simp: show_int_def)
qed

lemma length_show_sint: "length (show_int (sint (w :: nframes))) \<le> 11"
  using sint_greater_eq [of w] sint_less [of w] by (intro length_show_int32) simp_all

end
