(* ===== verification/Tlsf_Bits.thy ===== *)
theory Tlsf_Bits
  imports Tjost_Prelude
begin

text \<open>
  The bit searches of \<open>tlsf-3.0/tlsfbits.h\<close> and the size classes of \<open>tlsf.c\<close>
  (\<open>mapping_insert\<close>, \<open>mapping_search\<close>, \<open>adjust_request_size\<close>): which class a size falls in,
  and that every block of the class searched is large enough.
\<close>

section \<open>Find first and last set bit\<close>

text \<open>
  The compiler's intrinsics, by their documentation: \<open>__builtin_ffs\<close> is one plus the index of
  the least significant set bit (0 for 0), \<open>__builtin_clz\<close> the number of leading zero bits.
\<close>

definition builtin_ffs :: "32 word \<Rightarrow> int" where
  "builtin_ffs w = (case find (\<lambda>i. bit w i) [0..<32] of None \<Rightarrow> 0 | Some i \<Rightarrow> int i + 1)"

definition builtin_clz :: "32 word \<Rightarrow> int" where
  "builtin_clz w = (case find (\<lambda>i. bit w (31 - i)) [0..<32] of None \<Rightarrow> 32 | Some i \<Rightarrow> int i)"

definition tlsf_ffs :: "32 word \<Rightarrow> int" where
  "tlsf_ffs word = builtin_ffs word - 1"

definition tlsf_fls :: "32 word \<Rightarrow> int" where
  "tlsf_fls word = (let nbit = (if word \<noteq> 0 then 32 - builtin_clz word else 0) in nbit - 1)"

text \<open>The portable fallback, one conditional shift per line of the source.\<close>

definition fls_step :: "32 word \<Rightarrow> nat \<Rightarrow> 32 word \<times> int \<Rightarrow> 32 word \<times> int" where
  "fls_step hi k S = (case S of (word, nbit) \<Rightarrow>
     if word AND hi = 0 then (push_bit k word, nbit - int k) else (word, nbit))"

definition tlsf_fls_generic :: "32 word \<Rightarrow> int" where
  "tlsf_fls_generic word =
     (let nbit = (if word = 0 then 32 - 1 else 32)
      in snd (fls_step 0x80000000 1 (fls_step 0xc0000000 2 (fls_step 0xf0000000 4
           (fls_step 0xff000000 8 (fls_step 0xffff0000 16 (word, nbit)))))))"

definition tlsf_ffs_fallback :: "32 word \<Rightarrow> int" where
  "tlsf_ffs_fallback word = tlsf_fls_generic (word AND (NOT word + 1)) - 1"

definition tlsf_fls_fallback :: "32 word \<Rightarrow> int" where
  "tlsf_fls_fallback word = tlsf_fls_generic word - 1"

definition tlsf_fls_sizet :: "size_t \<Rightarrow> int" where
  "tlsf_fls_sizet sz =
     (let high = (ucast (drop_bit 32 sz) :: 32 word)
      in if high \<noteq> 0 then 32 + tlsf_fls high else tlsf_fls (ucast sz))"

lemma find_upt_Some:
  "find P [0..<n] = Some i \<longleftrightarrow> i < n \<and> P i \<and> (\<forall>j<i. \<not> P j)"
  by (auto simp: find_Some_iff)

lemma find_upt_None: "find P [0..<n] = None \<longleftrightarrow> (\<forall>i<n. \<not> P i)"
  by (auto simp: find_None_iff)

lemma word_ex_bit: "(w :: 'a::len word) \<noteq> 0 \<Longrightarrow> \<exists>i<LENGTH('a). bit w i"
  by (metis bit_eqI bit_0_eq bot_apply bit_imp_le_length not_le bot_bool_def)

text \<open>The first set bit.\<close>

lemma tlsf_ffs_spec:
  assumes "w \<noteq> 0"
  obtains i where "tlsf_ffs w = int i" "i < 32" "bit w i" "\<And>j. j < i \<Longrightarrow> \<not> bit w j"
proof (cases "find (\<lambda>i. bit w i) [0..<32]")
  case None
  with word_ex_bit [OF assms] show ?thesis by (auto simp: find_upt_None)
next
  case (Some i)
  then have "i < 32" "bit w i" "\<forall>j<i. \<not> bit w j" by (auto simp: find_upt_Some)
  with Some that [of i] show ?thesis by (simp add: tlsf_ffs_def builtin_ffs_def)
qed

text \<open>The last set bit is the binary logarithm.\<close>

lemma unat_bit_lower: "bit (w :: 'a::len word) i \<Longrightarrow> 2 ^ i \<le> unat w"
proof (rule ccontr)
  assume b: "bit w i" and "\<not> 2 ^ i \<le> unat w"
  then have "unat w div 2 ^ i = 0" by simp
  moreover have "odd (unat w div 2 ^ i)"
    using b by (simp add: bit_unsigned_iff flip: bit_iff_odd)
  ultimately show False by simp
qed

lemma unat_upper:
  assumes "\<And>j. i < j \<Longrightarrow> \<not> bit (w :: 'a::len word) j"
  shows "unat w < 2 ^ Suc i"
proof -
  have "take_bit (Suc i) (unat w) = unat w"
  proof (rule bit_eqI)
    show "bit (take_bit (Suc i) (unat w)) n = bit (unat w) n" for n
      using assms [of n] by (cases "n < Suc i") (auto simp: bit_take_bit_iff bit_unsigned_iff)
  qed
  then show ?thesis by (metis take_bit_nat_less_exp)
qed

lemma tlsf_fls_spec:
  assumes "w \<noteq> 0"
  obtains i where "tlsf_fls w = int i" "i < 32" "2 ^ i \<le> unat w" "unat w < 2 ^ Suc i"
proof (cases "find (\<lambda>i. bit w (31 - i)) [0..<32]")
  case None
  have "\<not> bit w i" if "i < 32" for i
  proof -
    have "31 - i < (32 :: nat)" by simp
    with None have "\<not> bit w (31 - (31 - i))" unfolding find_upt_None by blast
    with that show ?thesis by simp
  qed
  with word_ex_bit [OF assms] show ?thesis by auto
next
  case (Some k)
  then have k: "k < 32" "bit w (31 - k)" "\<forall>j<k. \<not> bit w (31 - j)" by (auto simp: find_upt_Some)
  have up: "\<not> bit w j" if "31 - k < j" for j
  proof (cases "j < 32")
    case True
    with that have "31 - j < k" by arith
    with k(3) have "\<not> bit w (31 - (31 - j))" by blast
    with True show ?thesis by simp
  next
    case False
    then show ?thesis using bit_imp_le_length [of w j] by auto
  qed
  have "unat w < 2 ^ Suc (31 - k)" using up by (rule unat_upper)
  moreover have "2 ^ (31 - k) \<le> unat w" using k(2) by (rule unat_bit_lower)
  moreover have "tlsf_fls w = int (31 - k)"
    using assms Some k(1) by (simp add: tlsf_fls_def builtin_clz_def)
  ultimately show ?thesis using that by simp
qed

lemma log2_unique:
  assumes "2 ^ i \<le> (n::nat)" "n < 2 ^ Suc i" "2 ^ j \<le> n" "n < 2 ^ Suc j"
  shows "i = j"
proof -
  have "2 ^ i < (2::nat) ^ Suc j" "2 ^ j < (2::nat) ^ Suc i" using assms by linarith+
  then have "i < Suc j" "j < Suc i" by (metis one_less_numeral_iff power_strict_increasing_iff semiring_norm(76))+
  then show ?thesis by simp
qed


section \<open>The portable fallback computes the same\<close>

lemma unat_drop_bit_zero: "drop_bit n w = 0 \<longleftrightarrow> unat (w :: 'a::len word) < 2 ^ n"
proof -
  have "unat (drop_bit n w) = unat w div 2 ^ n"
    unfolding unat_drop_bit_eq drop_bit_eq_div [of n "unat w"] ..
  moreover have "drop_bit n w = 0 \<longleftrightarrow> unat (drop_bit n w) = 0" by (simp only: unat_eq_0)
  ultimately show ?thesis by (simp only: div_eq_0_iff) simp
qed

lemma high_bits_zero:
  assumes "n + k = 32"
  shows "w AND push_bit n (mask k) = 0 \<longleftrightarrow> unat (w :: 32 word) < 2 ^ n"
proof -
  have m: "w AND push_bit n (mask k) = push_bit n (drop_bit n w)"
    using assms by (intro bit_word_eqI) (auto simp: bit_simps)
  have "drop_bit n (push_bit n (drop_bit n w)) = drop_bit n w"
    by (intro bit_word_eqI) (auto simp: bit_simps dest: bit_imp_le_length)
  then have "push_bit n (drop_bit n w) = 0 \<longleftrightarrow> drop_bit n w = 0"
    by (metis drop_bit_of_0 push_bit_of_0)
  with m unat_drop_bit_zero [of n w] show ?thesis by simp
qed

text \<open>
  The invariant of the shifts: what is left of the word is the word scaled by the power of two
  the counter has lost.
\<close>

definition fls_inv :: "32 word \<Rightarrow> nat \<Rightarrow> 32 word \<times> int \<Rightarrow> bool" where
  "fls_inv w m S \<longleftrightarrow> (\<exists>k\<le>m. snd S = 32 - int k \<and> unat (fst S) = unat w * 2 ^ k \<and> 2 ^ m \<le> unat (fst S))"

lemma fls_step_inv:
  assumes inv: "fls_inv w m S" and n: "n + k = 32" "n = m + k" "hi = push_bit n (mask k)"
  shows "fls_inv w n (fls_step hi k S)"
proof -
  obtain word b where S: "S = (word, b)" by fastforce
  from inv obtain j where j: "b = 32 - int j" "unat word = unat w * 2 ^ j" "2 ^ m \<le> unat word" "j \<le> m"
    by (auto simp: fls_inv_def S)
  show ?thesis
  proof (cases "unat word < 2 ^ n")
    case False
    with n j show ?thesis by (auto simp: fls_step_def S high_bits_zero fls_inv_def)
  next
    case True
    have "unat word * 2 ^ k < 2 ^ n * 2 ^ k" using True by simp
    also have "(2::nat) ^ n * 2 ^ k = 2 ^ 32" using n(1) by (simp flip: power_add)
    finally have u: "unat (push_bit k word) = unat word * 2 ^ k"
      unfolding unsigned_push_bit_eq push_bit_eq_mult [of k "unat word"]
      by (simp add: take_bit_nat_eq_self)
    have "2 ^ n \<le> unat word * 2 ^ k" using j(3) n(2) by (simp add: power_add)
    moreover have "unat word * 2 ^ k = unat w * 2 ^ (j + k)" using j(2) by (simp add: power_add)
    ultimately show ?thesis
      using n True j(1,4) u
      by (auto simp: fls_step_def S high_bits_zero fls_inv_def intro: exI [of _ "j + k"])
  qed
qed

lemma tlsf_fls_generic_correct: "tlsf_fls_fallback w = tlsf_fls w"
proof (cases "w = 0")
  case True
  then show ?thesis
    by (simp add: tlsf_fls_fallback_def tlsf_fls_generic_def fls_step_def tlsf_fls_def)
next
  case False
  have "fls_inv w 0 (w, 32)" using False by (simp add: fls_inv_def Suc_le_eq unat_gt_0)
  then have "fls_inv w 16 (fls_step 0xffff0000 16 (w, 32))"
    by (rule fls_step_inv) (simp_all add: mask_eq_exp_minus_1)
  then have "fls_inv w 24 (fls_step 0xff000000 8 (fls_step 0xffff0000 16 (w, 32)))"
    by (rule fls_step_inv) (simp_all add: mask_eq_exp_minus_1)
  then have "fls_inv w 28 (fls_step 0xf0000000 4 (fls_step 0xff000000 8 (fls_step 0xffff0000 16 (w, 32))))"
    by (rule fls_step_inv) (simp_all add: mask_eq_exp_minus_1)
  then have "fls_inv w 30 (fls_step 0xc0000000 2 (fls_step 0xf0000000 4
      (fls_step 0xff000000 8 (fls_step 0xffff0000 16 (w, 32)))))"
    by (rule fls_step_inv) (simp_all add: mask_eq_exp_minus_1)
  then have "fls_inv w 31 (fls_step 0x80000000 1 (fls_step 0xc0000000 2 (fls_step 0xf0000000 4
      (fls_step 0xff000000 8 (fls_step 0xffff0000 16 (w, 32))))))"
    by (rule fls_step_inv) (simp_all add: mask_eq_exp_minus_1)
  then obtain k v where v: "k \<le> 31" "tlsf_fls_generic w = 32 - int k"
    "unat (v :: nframes) = unat w * 2 ^ k" "2 ^ 31 \<le> unat v"
    using False by (auto simp: fls_inv_def tlsf_fls_generic_def)
  then have k: "k \<le> 31" "tlsf_fls_generic w = 32 - int k" "2 ^ 31 \<le> unat w * 2 ^ k"
    "unat w * 2 ^ k < 2 ^ 32"
    using unat_nframes_bound [of v] by simp_all
  obtain i where i: "tlsf_fls w = int i" "2 ^ i \<le> unat w" "unat w < 2 ^ Suc i"
    using tlsf_fls_spec [OF False] by blast
  have e: "(2::nat) ^ 31 = 2 ^ (31 - k) * 2 ^ k" "(2::nat) ^ 32 = 2 ^ Suc (31 - k) * 2 ^ k"
    using k(1) by (simp_all flip: power_add power_Suc)
  have "2 ^ (31 - k) \<le> unat w" "unat w < 2 ^ Suc (31 - k)"
    using k(3,4) unfolding e by (simp_all only: mult_le_cancel2 mult_less_cancel2)
  with i(2,3) have "i = 31 - k" by (intro log2_unique)
  with i(1) k(1,2) show ?thesis by (simp add: tlsf_fls_fallback_def)
qed


lemma bit_unat: "n < LENGTH('a) \<Longrightarrow> bit (unat (w :: 'a::len word)) n = bit w n"
  by (simp add: bit_unsigned_iff)

lemma odd_and_minus:
  assumes "odd (unat (v :: 32 word))"
  shows "v AND - v = 1"
proof -
  have "v \<noteq> 0" using assms by auto
  then have u: "unat (v - 1) = unat v - 1" by (rule unat_minus_one)
  have b: "bit (v - 1) n = bit (unat v - 1) n" if "n < 32" for n
    using bit_unat [of n "v - 1"] that unfolding u by simp
  have "bit (- v) n = (\<not> bit (unat v - 1) n)" if "n < 32" for n
    using that b by (simp add: bit_minus_iff)
  moreover have "bit (unat v - 1) (Suc n) = bit (unat v) (Suc n)" for n
    using assms by (auto simp: bit_Suc elim!: oddE)
  moreover have "bit v n = bit (unat v) n" if "n < 32" for n
    using that by (simp add: bit_unsigned_iff)
  moreover have "odd v" using assms bit_unat [of 0 v] by (simp add: bit_0)
  ultimately have "bit (v AND - v) n = (n = 0 \<and> n < 32)" if "n < 32" for n
    unfolding bit_and_iff using assms that by (cases n) (simp_all only: bit_0, simp_all)
  then have "bit (v AND - v) n = bit (1 :: 32 word) n" if "n < 32" for n
    using that by (simp add: bit_1_iff)
  then show ?thesis by (intro bit_word_eqI) simp
qed

lemma lowest_bit:
  assumes "bit (w :: 32 word) i" "\<And>j. j < i \<Longrightarrow> \<not> bit w j"
  shows "w AND - w = push_bit i 1"
proof -
  have i: "i < 32" using assms(1) bit_imp_le_length by fastforce
  have w: "w = push_bit i (drop_bit i w)"
  proof (intro bit_word_eqI)
    fix n assume "n < LENGTH(32)"
    then show "bit w n = bit (push_bit i (drop_bit i w)) n"
      using assms(2) [of n] by (cases "n < i") (simp_all add: bit_simps)
  qed
  have "odd (unat (drop_bit i w))"
    using assms(1) unfolding unat_drop_bit_eq drop_bit_eq_div [of i "unat w"]
    by (simp add: bit_unsigned_iff i flip: bit_iff_odd)
  note o = odd_and_minus [OF this]
  have "- w = push_bit i (- drop_bit i w)"
    by (subst w) (simp add: push_bit_eq_mult)
  then have "w AND - w = push_bit i (drop_bit i w AND - drop_bit i w)"
    using w by (metis push_bit_and)
  with o show ?thesis by simp
qed

lemma tlsf_ffs_fallback_correct: "tlsf_ffs_fallback w = tlsf_ffs w"
proof (cases "w = 0")
  case True
  then show ?thesis
    by (simp add: tlsf_ffs_fallback_def tlsf_fls_generic_def fls_step_def tlsf_ffs_def builtin_ffs_def
        find_None_iff [THEN iffD2])
next
  case False
  then obtain i where i: "tlsf_ffs w = int i" "i < 32" "bit w i" "\<And>j. j < i \<Longrightarrow> \<not> bit w j"
    by (rule tlsf_ffs_spec) blast
  let ?v = "push_bit i (1 :: 32 word)"
  have v: "w AND (NOT w + 1) = ?v" using lowest_bit [OF i(3,4)] by (simp add: minus_eq_not_plus_1)
  have "(2 :: nat) ^ i < 2 ^ 32" using i(2) by (intro power_strict_increasing) simp_all
  then have u: "unat ?v = 2 ^ i"
    unfolding unsigned_push_bit_eq push_bit_eq_mult [of i "unat 1"]
    using i(2) by (simp add: take_bit_nat_eq_self)
  then have "?v \<noteq> 0" by (metis unat_0 power_not_zero zero_neq_numeral)
  then obtain k where k: "tlsf_fls ?v = int k" "2 ^ k \<le> unat ?v" "unat ?v < 2 ^ Suc k"
    using tlsf_fls_spec by blast
  have "k = i" using k(2,3) unfolding u by (intro log2_unique [of _ "2 ^ i"]) simp_all
  with k(1) tlsf_fls_generic_correct [of ?v] i(1) v show ?thesis
    by (simp add: tlsf_ffs_fallback_def tlsf_fls_fallback_def)
qed

section \<open>Size classes\<close>

lemma tlsf_fls_sizet_spec:
  assumes "s \<noteq> 0"
  obtains i where "tlsf_fls_sizet s = int i" "i < 64" "2 ^ i \<le> unat s" "unat s < 2 ^ Suc i"
proof -
  let ?high = "ucast (drop_bit 32 s) :: 32 word"
  let ?low = "ucast s :: 32 word"
  have uh: "unat ?high = unat s div 2 ^ 32"
  proof -
    have d: "unat (drop_bit 32 s) = unat s div 2 ^ 32"
      unfolding unat_drop_bit_eq drop_bit_eq_div [of 32 "unat s"] ..
    have "unat s div 2 ^ 32 < 2 ^ 32" using unat_size_t_bound [of s] by (simp add: less_mult_imp_div_less)
    then show ?thesis by (simp add: unsigned_ucast_eq d take_bit_nat_eq_self)
  qed
  have ul: "unat ?low = unat s mod 2 ^ 32" by (simp add: unsigned_ucast_eq take_bit_eq_mod)
  have e: "(2 :: nat) ^ (32 + i) = 2 ^ i * 2 ^ 32" for i by (simp only: power_add mult.commute)
  show ?thesis
  proof (cases "?high = 0")
    case True
    then have lt: "unat s < 2 ^ 32" using uh by (simp add: div_eq_0_iff)
    then have l: "unat ?low = unat s" using ul by simp
    then have "?low \<noteq> 0" using assms by (metis unat_eq_zero unat_0)
    then obtain i where "tlsf_fls ?low = int i" "i < 32" "2 ^ i \<le> unat ?low" "unat ?low < 2 ^ Suc i"
      using tlsf_fls_spec by blast
    with True l show ?thesis by (intro that [of i]) (simp_all add: tlsf_fls_sizet_def)
  next
    case False
    then obtain i where "tlsf_fls ?high = int i" "i < 32" "2 ^ i \<le> unat ?high" "unat ?high < 2 ^ Suc i"
      by (rule tlsf_fls_spec)
    note i = this [unfolded uh]
    have "2 ^ i * 2 ^ 32 \<le> unat s div 2 ^ 32 * 2 ^ 32" using i(3) by (rule mult_le_mono1)
    also have "... \<le> unat s" by (rule div_times_less_eq_dividend)
    finally have "2 ^ (32 + i) \<le> unat s" unfolding e .
    moreover have "unat s < 2 ^ Suc i * 2 ^ 32"
      using i(4) div_less_iff_less_mult [of "2 ^ 32" "unat s" "2 ^ Suc i"]
      by (simp only: zero_less_numeral zero_less_power)
    then have "unat s < 2 ^ Suc (32 + i)" using e [of "Suc i"] by (simp only: add_Suc_right)
    moreover have "tlsf_fls_sizet s = int (32 + i)"
      unfolding tlsf_fls_sizet_def Let_def using False i(1) by simp
    moreover have "32 + i < 64" using i(2) by simp
    ultimately show ?thesis by (rule that [rotated 2])
  qed
qed


text \<open>\<open>SMALL_BLOCK_SIZE\<close> is 256, \<open>SL_INDEX_COUNT\<close> 32, \<open>FL_INDEX_SHIFT\<close> 8, \<open>FL_INDEX_COUNT\<close> 25.\<close>

definition mapping_insert :: "size_t \<Rightarrow> nat \<times> nat" where
  "mapping_insert sz =
     (if sz < 256 then (0, unat sz div (256 div 32))
      else let fl = nat (tlsf_fls_sizet sz)
           in (fl - 7, unat ((ucast (drop_bit (fl - 5) sz) :: 32 word) XOR 32)))"

definition mapping_search :: "size_t \<Rightarrow> nat \<times> nat" where
  "mapping_search sz =
     mapping_insert (if sz \<ge> 32 then sz + of_nat (2 ^ (nat (tlsf_fls_sizet sz) - 5) - 1) else sz)"

definition align_up :: "size_t \<Rightarrow> size_t \<Rightarrow> size_t" where
  "align_up x align = (x + (align - 1)) AND NOT (align - 1)"

definition align_down :: "size_t \<Rightarrow> size_t \<Rightarrow> size_t" where
  "align_down x align = x - (x AND (align - 1))"

definition block_size_min :: size_t where "block_size_min = 24"
definition block_size_max :: size_t where "block_size_max = 2 ^ 32"

definition adjust_request_size :: "size_t \<Rightarrow> size_t \<Rightarrow> size_t" where
  "adjust_request_size sz align =
     (if sz \<noteq> 0 \<and> sz < block_size_max then max (align_up sz align) block_size_min else 0)"

text \<open>The smallest size of a class.\<close>

definition class_floor :: "nat \<Rightarrow> nat \<Rightarrow> nat" where
  "class_floor fl sl = (if fl = 0 then 8 * sl else (32 + sl) * 2 ^ (fl + 2))"

lemma xor_32: "32 \<le> x \<Longrightarrow> x < 64 \<Longrightarrow> x XOR 32 = x - (32 :: nat)"
proof -
  assume "32 \<le> x" "x < 64"
  then have "x \<in> set [32..<64]" by (simp only: set_upt atLeastLessThan_iff)
  moreover have "list_all (\<lambda>x. x XOR 32 = x - (32 :: nat)) [32..<64]" by (simp add: upt_rec)
  ultimately show ?thesis unfolding list_all_iff by blast
qed

lemma mapping_insert_small: "unat s < 256 \<Longrightarrow> mapping_insert s = (0, unat s div 8)"
  by (simp add: mapping_insert_def word_less_nat_alt)

lemma mapping_insert_large:
  assumes s: "256 \<le> unat s" and i: "2 ^ i \<le> unat s" "unat s < 2 ^ Suc i"
  shows "mapping_insert s = (i - 7, unat s div 2 ^ (i - 5) - 32)" "8 \<le> i"
    "32 \<le> unat s div 2 ^ (i - 5)" "unat s div 2 ^ (i - 5) < 64"
proof -
  have "s \<noteq> 0" using s by auto
  then obtain j where j: "tlsf_fls_sizet s = int j" "2 ^ j \<le> unat s" "unat s < 2 ^ Suc j"
    using tlsf_fls_sizet_spec by blast
  then have f: "nat (tlsf_fls_sizet s) = i" using log2_unique [OF i j(2,3)] by simp
  have "(2 :: nat) ^ 8 < 2 ^ Suc i" using s i(2) by simp
  then have "8 < Suc i" by (rule power_less_imp_less_exp [rotated]) simp
  then show i8: "8 \<le> i" by simp
  then obtain k where "i = 5 + k" using le_Suc_ex [of 5 i] by auto
  then have e: "(2 :: nat) ^ i = 32 * 2 ^ (i - 5)" "(2 :: nat) ^ Suc i = 64 * 2 ^ (i - 5)"
    by (simp_all add: power_add)
  show "32 \<le> unat s div 2 ^ (i - 5)"
    using i(1) unfolding e by (simp add: less_eq_div_iff_mult_less_eq)
  moreover show "unat s div 2 ^ (i - 5) < 64"
    using i(2) unfolding e by (simp add: div_less_iff_less_mult)
  moreover have d: "unat (drop_bit (i - 5) s) = unat s div 2 ^ (i - 5)"
    unfolding unat_drop_bit_eq drop_bit_eq_div [of "i - 5" "unat s"] ..
  ultimately have "unat ((ucast (drop_bit (i - 5) s) :: 32 word) XOR 32) = unat s div 2 ^ (i - 5) - 32"
    by (simp add: unsigned_xor_eq unsigned_ucast_eq take_bit_nat_eq_self xor_32)
  moreover have "\<not> s < 256" using s by (simp add: word_less_nat_alt)
  ultimately show "mapping_insert s = (i - 7, unat s div 2 ^ (i - 5) - 32)"
    by (simp add: mapping_insert_def Let_def f)
qed


text \<open>Every size lies in its class, below the floor of the next one.\<close>

lemma mapping_class:
  assumes "mapping_insert s = (fl, sl)" and "unat s < 2 ^ 32"
  shows "fl < 25" "sl < 32" "class_floor fl sl \<le> unat s"
    "unat s < class_floor fl sl + (if fl = 0 then 8 else 2 ^ (fl + 2))"
proof -
  have "fl < 25 \<and> sl < 32 \<and> class_floor fl sl \<le> unat s \<and>
    unat s < class_floor fl sl + (if fl = 0 then 8 else 2 ^ (fl + 2))"
  proof (cases "unat s < 256")
    case True
    with assms(1) mapping_insert_small [OF True] have "fl = 0" "sl = unat s div 8" by simp_all
    with True show ?thesis by (simp add: class_floor_def div_less_iff_less_mult)
  next
    case False
    then have "s \<noteq> 0" by auto
    then obtain i where i: "2 ^ i \<le> unat s" "unat s < 2 ^ Suc i" using tlsf_fls_sizet_spec by blast
    from False have "256 \<le> unat s" by simp
    note m = mapping_insert_large [OF this i]
    have f: "fl = i - 7" "sl = unat s div 2 ^ (i - 5) - 32" using assms(1) m(1) by simp_all
    have "(2 :: nat) ^ i < 2 ^ 32" using i(1) assms(2) by simp
    then have "i < 32" by (rule power_less_imp_less_exp [rotated]) simp
    have e: "fl + 2 = i - 5" "fl \<noteq> 0" "32 + sl = unat s div 2 ^ (i - 5)" using f m(2,3) by simp_all
    have "class_floor fl sl = unat s div 2 ^ (i - 5) * 2 ^ (i - 5)"
      using e by (simp add: class_floor_def)
    moreover have "unat s div 2 ^ (i - 5) * 2 ^ (i - 5) \<le> unat s" by (rule div_times_less_eq_dividend)
    moreover have "unat s < unat s div 2 ^ (i - 5) * 2 ^ (i - 5) + 2 ^ (i - 5)"
    proof -
      have "unat s mod 2 ^ (i - 5) < 2 ^ (i - 5)" by (rule mod_less_divisor) simp
      then show ?thesis using div_mult_mod_eq [of "unat s" "2 ^ (i - 5)"] by linarith
    qed
    moreover have "fl < 25" using f(1) \<open>i < 32\<close> by arith
    ultimately show ?thesis using e m(4) by simp
  qed
  then show "fl < 25" "sl < 32" "class_floor fl sl \<le> unat s"
    "unat s < class_floor fl sl + (if fl = 0 then 8 else 2 ^ (fl + 2))" by blast+
qed

lemma class_floor_mono:
  assumes "fl < fl' \<or> fl = fl' \<and> sl \<le> sl'" and "sl < 32"
  shows "class_floor fl sl \<le> class_floor fl' sl'"
proof (cases "fl = fl'")
  case True
  with assms show ?thesis by (simp add: class_floor_def)
next
  case False
  with assms have lt: "fl < fl'" by simp
  have "class_floor fl sl \<le> 32 * 2 ^ (fl + 3)"
    using assms(2) by (simp add: class_floor_def power_add)
  also have "... \<le> 32 * 2 ^ (fl' + 2)"
    using lt power_increasing [of "fl + 3" "fl' + 2" "2 :: nat"] by simp
  also have "... \<le> class_floor fl' sl'" using lt by (simp add: class_floor_def)
  finally show ?thesis .
qed

lemma mapping_floor_large:
  assumes "256 \<le> unat s" "2 ^ i \<le> unat s" "unat s < 2 ^ Suc i" "mapping_insert s = (fl, sl)"
  shows "class_floor fl sl = unat s div 2 ^ (i - 5) * 2 ^ (i - 5)" "fl = i - 7" "sl < 32" "8 \<le> i"
proof -
  note m = mapping_insert_large [OF assms(1-3)]
  have f: "fl = i - 7" "sl = unat s div 2 ^ (i - 5) - 32" using m(1) assms(4) by simp_all
  then have "fl \<noteq> 0" "fl + 2 = i - 5" using m(2) by simp_all
  with f m(3) show "class_floor fl sl = unat s div 2 ^ (i - 5) * 2 ^ (i - 5)" by (simp add: class_floor_def)
  show "fl = i - 7" "sl < 32" "8 \<le> i" using f m(2-4) by simp_all
qed

text \<open>Rounding up: the class searched for a request holds only sizes that satisfy it.\<close>

lemma mapping_search_floor:
  assumes s: "8 dvd unat s" "24 \<le> unat s" "unat s < 2 ^ 32" and m: "mapping_search s = (fl, sl)"
  shows "unat s \<le> class_floor fl sl \<and> sl < 32 \<and> (fl < 25 \<or> unat s > 2 ^ 32 - 2 ^ 26)"
proof -
  have "s \<noteq> 0" using s(2) by auto
  then obtain i where i: "tlsf_fls_sizet s = int i" "2 ^ i \<le> unat s" "unat s < 2 ^ Suc i"
    using tlsf_fls_sizet_spec by blast
  have "(2 :: nat) ^ i < 2 ^ 32" using i(2) s(3) by simp
  then have i32: "i < 32" by (rule power_less_imp_less_exp [rotated]) simp
  define r where "r = (if s \<ge> 32 then 2 ^ (i - 5) - 1 else 0 :: nat)"
  define s' where "s' = s + of_nat r"
  have m': "mapping_insert s' = (fl, sl)" using m i(1) by (auto simp: mapping_search_def s'_def r_def)
  have "r < 2 ^ 26"
  proof -
    have "(2 :: nat) ^ (i - 5) \<le> 2 ^ 26" using i32 by (intro power_increasing) simp_all
    moreover have "(0 :: nat) < 2 ^ (i - 5)" by simp
    ultimately have "(2 :: nat) ^ (i - 5) - 1 < 2 ^ 26" by linarith
    then show ?thesis unfolding r_def by simp
  qed
  then have u: "unat s' = unat s + r" using s(3) by (simp add: s'_def unat_word_ariths unat_of_nat)
  show ?thesis
  proof (cases "unat s < 256")
    case True
    have "(2 :: nat) ^ i < 2 ^ 8" using i(2) True by simp
    then have "i < 8" by (rule power_less_imp_less_exp [rotated]) simp
    then have "(2 :: nat) ^ (i - 5) \<le> 2 ^ 2" by (intro power_increasing) simp_all
    then have "(2 :: nat) ^ (i - 5) - 1 < 8" unfolding power2_eq_square by linarith
    then have r: "r < 8" by (simp add: r_def)
    obtain q where q: "unat s = 8 * q" using s(1) by blast
    with True r u have "unat s' < 256" "unat s' div 8 = q" by simp_all
    with mapping_insert_small [of s'] m' q True show ?thesis by (simp add: class_floor_def)
  next
    case False
    let ?w = "2 ^ (i - 5) :: nat"
    have w: "r = ?w - 1" "0 < ?w" using False by (simp_all add: r_def word_le_nat_alt)
    have g: "256 \<le> unat s'" using False u by simp
    have "(2 :: nat) ^ 8 < 2 ^ Suc i" using False i(3) by simp
    then have "8 < Suc i" by (rule power_less_imp_less_exp [rotated]) simp
    then obtain k where k: "i = 5 + k" using le_Suc_ex [of 5 i] by auto
    show ?thesis
    proof (cases "unat s' < 2 ^ Suc i")
      case True
      have "2 ^ i \<le> unat s'" using i(2) u by simp
      note f = mapping_floor_large [OF g this True m']
      have "unat s' mod ?w < ?w" by simp
      then have "unat s \<le> unat s' div ?w * ?w"
        using div_mult_mod_eq [of "unat s'" ?w] u w by linarith
      moreover have "fl < 25" using f(2) i32 by arith
      ultimately show ?thesis using f(1,3) by simp
    next
      case False
      then have l: "2 ^ Suc i \<le> unat s'" by simp
      have "?w \<le> 2 ^ Suc i" by (intro power_increasing) simp_all
      then have "unat s' < 2 ^ Suc (Suc i)" using u w i(3) by simp
      note f = mapping_floor_large [OF g l this m']
      have e: "(2 :: nat) ^ Suc i = 32 * 2 ^ (Suc i - 5)" by (simp add: k power_add)
      then have "32 \<le> unat s' div 2 ^ (Suc i - 5)" using l by (simp add: less_eq_div_iff_mult_less_eq)
      then have "2 ^ Suc i \<le> class_floor fl sl" using e f(1) by simp
      then have "unat s \<le> class_floor fl sl" using i(3) by simp
      moreover have "fl < 25 \<or> 2 ^ 32 - 2 ^ 26 < unat s"
      proof (cases "i = 31")
        case True
        with l u \<open>r < 2 ^ 26\<close> show ?thesis by simp
      next
        case False
        with f(2) i32 have "fl < 25" by arith
        then show ?thesis ..
      qed
      ultimately show ?thesis using f(3) by simp
    qed
  qed
qed


section \<open>Alignment\<close>

lemma unat_and_not_mask:
  "unat (w AND NOT (mask n) :: 'a::len word) = unat w div 2 ^ n * 2 ^ n"
proof -
  have "w AND NOT (mask n) = push_bit n (drop_bit n w)"
  proof (intro bit_word_eqI)
    fix i assume "i < LENGTH('a)"
    then show "bit (w AND NOT (mask n)) i = bit (push_bit n (drop_bit n w)) i"
      by (cases "n \<le> i") (simp_all add: bit_simps)
  qed
  moreover have "unat w div 2 ^ n * 2 ^ n < 2 ^ LENGTH('a)"
    using div_times_less_eq_dividend [of "unat w" "2 ^ n"] unsigned_less [of w, where ?'a = nat]
    by linarith
  moreover have "unat (push_bit n (drop_bit n w)) = take_bit LENGTH('a) (unat w div 2 ^ n * 2 ^ n)"
    unfolding unsigned_push_bit_eq unat_drop_bit_eq drop_bit_eq_div [of n "unat w"]
      push_bit_eq_mult [of n "unat w div 2 ^ n"] ..
  ultimately show ?thesis by (simp add: take_bit_nat_eq_self)
qed

lemma adjust_request_size_spec:
  assumes "0 < unat sz" "unat sz < 2 ^ 32"
  shows "8 dvd unat (adjust_request_size sz 8)" "24 \<le> unat (adjust_request_size sz 8)"
    "unat sz \<le> unat (adjust_request_size sz 8)" "unat (adjust_request_size sz 8) < max 25 (unat sz + 8)"
    "unat (adjust_request_size sz 8) \<le> 2 ^ 32"
proof -
  have a: "unat (align_up sz 8) = (unat sz + 7) div 8 * 8"
  proof -
    have "unat (sz + 7) = unat sz + 7" using assms(2) by (simp add: unat_word_ariths)
    moreover have "align_up sz 8 = (sz + 7) AND NOT (mask 3)" by (simp add: align_up_def mask_eq_exp_minus_1)
    ultimately show ?thesis using unat_and_not_mask [of "sz + 7" 3] by simp
  qed
  have "sz \<noteq> 0" "sz < block_size_max" using assms by (auto simp: block_size_max_def word_less_nat_alt)
  then have r: "unat (adjust_request_size sz 8) = max ((unat sz + 7) div 8 * 8) 24"
    using a by (simp add: adjust_request_size_def block_size_min_def max_def word_le_nat_alt)
  then show "8 dvd unat (adjust_request_size sz 8)" "24 \<le> unat (adjust_request_size sz 8)"
    by (simp_all add: max_def)
  show "unat sz \<le> unat (adjust_request_size sz 8)" "unat (adjust_request_size sz 8) < max 25 (unat sz + 8)"
    unfolding r by linarith+
  show "unat (adjust_request_size sz 8) \<le> 2 ^ 32" unfolding r using assms(2) by simp
qed

lemma adjust_request_size_zero: "sz = 0 \<or> 2 ^ 32 \<le> unat sz \<Longrightarrow> adjust_request_size sz a = 0"
  by (auto simp: adjust_request_size_def block_size_max_def word_less_nat_alt)

end
