(* ===== verification/Tlsf.thy ===== *)
theory Tlsf
  imports Tlsf_Bits
begin

text \<open>
  The allocator \<open>tlsf-3.0/tlsf.c\<close>: block headers in memory, segregated free lists with their two
  levels of bitmaps, and the interface (\<open>tlsf_malloc\<close>, \<open>tlsf_free\<close>, \<open>tlsf_realloc\<close>,
  \<open>tlsf_memalign\<close>, the pools). A function returns \<open>None\<close> where an assertion of the source fails
  or an index leaves its array.

  Headers are kept per block address. The fields of a header overlap the user data of its block
  and of the one before, but only where the source does not read them (\<open>prev_phys_block\<close> while the
  block before is used, the free list links while the block is used); blocks are 32 bytes apart
  at least, so no two headers overlap. \<open>blks\<close> is ghost state: the addresses at which a block
  starts. No function reads it; splitting, absorbing and adding pools keep it up to date.
\<close>

section \<open>State\<close>

record bhdr =
  prev_phys_block :: addr
  size_field :: size_t
  next_free :: addr
  prev_free :: addr

record control =
  hdr_at :: "addr \<Rightarrow> bhdr"
  fl_bitmap :: "32 word"
  sl_bitmap :: "32 word list"
  blocks :: "addr list list"
  block_null :: addr
  blks :: "addr set"

definition upd_hdr :: "addr \<Rightarrow> (bhdr \<Rightarrow> bhdr) \<Rightarrow> control \<Rightarrow> control" where
  "upd_hdr b f t = t\<lparr>hdr_at := (hdr_at t)(b := f (hdr_at t b))\<rparr>"

definition tlsf_assert :: "bool \<Rightarrow> unit option" where
  "tlsf_assert p = (if p then Some () else None)"

section \<open>Block headers\<close>

definition block_header_free_bit :: size_t where "block_header_free_bit = 1"
definition block_header_prev_free_bit :: size_t where "block_header_prev_free_bit = 2"
definition block_header_bits :: size_t where
  "block_header_bits = block_header_free_bit OR block_header_prev_free_bit"

definition block_header_overhead :: size_t where "block_header_overhead = 8"
definition block_start_offset :: nat where "block_start_offset = 16"

definition block_size :: "control \<Rightarrow> addr \<Rightarrow> size_t" where
  "block_size t b = size_field (hdr_at t b) AND NOT block_header_bits"

definition block_set_size :: "addr \<Rightarrow> size_t \<Rightarrow> control \<Rightarrow> control" where
  "block_set_size b sz = upd_hdr b (\<lambda>h. h\<lparr>size_field := sz OR (size_field h AND block_header_bits)\<rparr>)"

definition block_is_last :: "control \<Rightarrow> addr \<Rightarrow> bool" where
  "block_is_last t b \<longleftrightarrow> block_size t b = 0"

definition block_is_free :: "control \<Rightarrow> addr \<Rightarrow> bool" where
  "block_is_free t b \<longleftrightarrow> size_field (hdr_at t b) AND block_header_free_bit \<noteq> 0"

definition block_set_free :: "addr \<Rightarrow> control \<Rightarrow> control" where
  "block_set_free b = upd_hdr b (\<lambda>h. h\<lparr>size_field := size_field h OR block_header_free_bit\<rparr>)"

definition block_set_used :: "addr \<Rightarrow> control \<Rightarrow> control" where
  "block_set_used b = upd_hdr b (\<lambda>h. h\<lparr>size_field := size_field h AND NOT block_header_free_bit\<rparr>)"

definition block_is_prev_free :: "control \<Rightarrow> addr \<Rightarrow> bool" where
  "block_is_prev_free t b \<longleftrightarrow> size_field (hdr_at t b) AND block_header_prev_free_bit \<noteq> 0"

definition block_set_prev_free :: "addr \<Rightarrow> control \<Rightarrow> control" where
  "block_set_prev_free b = upd_hdr b (\<lambda>h. h\<lparr>size_field := size_field h OR block_header_prev_free_bit\<rparr>)"

definition block_set_prev_used :: "addr \<Rightarrow> control \<Rightarrow> control" where
  "block_set_prev_used b = upd_hdr b (\<lambda>h. h\<lparr>size_field := size_field h AND NOT block_header_prev_free_bit\<rparr>)"

definition block_from_ptr :: "addr \<Rightarrow> addr" where
  "block_from_ptr p = p - block_start_offset"

definition block_to_ptr :: "addr \<Rightarrow> addr" where
  "block_to_ptr b = b + block_start_offset"

definition offset_to_block :: "addr \<Rightarrow> size_t \<Rightarrow> addr" where
  "offset_to_block p off = unat (of_nat p + off)"

definition align_ptr :: "addr \<Rightarrow> size_t \<Rightarrow> addr" where
  "align_ptr p align = unat ((of_nat p + (align - 1)) AND NOT (align - 1))"

definition block_prev :: "control \<Rightarrow> addr \<Rightarrow> addr" where
  "block_prev t b = prev_phys_block (hdr_at t b)"

definition block_next :: "control \<Rightarrow> addr \<Rightarrow> addr option" where
  "block_next t b =
     do { tlsf_assert (\<not> block_is_last t b);
          Some (offset_to_block (block_to_ptr b) (block_size t b - block_header_overhead)) }"

definition block_link_next :: "addr \<Rightarrow> control \<Rightarrow> (addr \<times> control) option" where
  "block_link_next b t =
     do { nxt \<leftarrow> block_next t b;
          Some (nxt, upd_hdr nxt (\<lambda>h. h\<lparr>prev_phys_block := b\<rparr>) t) }"

definition block_mark_as_free :: "addr \<Rightarrow> control \<Rightarrow> control option" where
  "block_mark_as_free b t =
     do { (nxt, t1) \<leftarrow> block_link_next b t;
          Some (block_set_free b (block_set_prev_free nxt t1)) }"

definition block_mark_as_used :: "addr \<Rightarrow> control \<Rightarrow> control option" where
  "block_mark_as_used b t =
     do { nxt \<leftarrow> block_next t b;
          Some (block_set_used b (block_set_prev_used nxt t)) }"

section \<open>Free lists\<close>

definition list_head :: "control \<Rightarrow> nat \<Rightarrow> nat \<Rightarrow> addr" where
  "list_head t fl sl = blocks t ! fl ! sl"

definition set_head :: "nat \<Rightarrow> nat \<Rightarrow> addr \<Rightarrow> control \<Rightarrow> control" where
  "set_head fl sl b t = t\<lparr>blocks := (blocks t)[fl := (blocks t ! fl)[sl := b]]\<rparr>"

definition search_suitable_block :: "control \<Rightarrow> nat \<Rightarrow> nat \<Rightarrow> (addr \<times> nat \<times> nat) option" where
  "search_suitable_block t fl sl =
     (if fl \<ge> 25 then None
      else let sl_map = sl_bitmap t ! fl AND push_bit sl (- 1)
           in if sl_map = 0 then
                let fl_map = fl_bitmap t AND push_bit (fl + 1) (- 1)
                in if fl_map = 0 then Some (0, fl, sl)
                   else let fl1 = nat (tlsf_ffs fl_map)
                        in if fl1 \<ge> 25 then None
                           else let sl_map1 = sl_bitmap t ! fl1; sl1 = nat (tlsf_ffs sl_map1)
                                in do { tlsf_assert (sl_map1 \<noteq> 0); Some (list_head t fl1 sl1, fl1, sl1) }
              else let sl1 = nat (tlsf_ffs sl_map) in Some (list_head t fl sl1, fl, sl1))"

text \<open>The end of \<open>remove_free_block\<close>: the list loses its head.\<close>

definition drop_head :: "nat \<Rightarrow> nat \<Rightarrow> addr \<Rightarrow> control \<Rightarrow> control" where
  "drop_head fl sl nxt t =
     (let t2 = set_head fl sl nxt t
      in if nxt = block_null t2 then
           let t3 = t2\<lparr>sl_bitmap := (sl_bitmap t2)[fl := sl_bitmap t2 ! fl AND NOT (push_bit sl 1)]\<rparr>
           in if sl_bitmap t3 ! fl = 0 then t3\<lparr>fl_bitmap := fl_bitmap t3 AND NOT (push_bit fl 1)\<rparr> else t3
         else t2)"

definition remove_free_block :: "addr \<Rightarrow> nat \<Rightarrow> nat \<Rightarrow> control \<Rightarrow> control option" where
  "remove_free_block b fl sl t =
     (let prev = prev_free (hdr_at t b); nxt = next_free (hdr_at t b)
      in do {
        tlsf_assert (prev \<noteq> 0);
        tlsf_assert (nxt \<noteq> 0);
        tlsf_assert (fl < 25 \<and> sl < 32);
        let t1 = upd_hdr prev (\<lambda>h. h\<lparr>next_free := nxt\<rparr>) (upd_hdr nxt (\<lambda>h. h\<lparr>prev_free := prev\<rparr>) t)
        in Some (if list_head t1 fl sl = b then drop_head fl sl nxt t1 else t1) })"

definition insert_free_block :: "addr \<Rightarrow> nat \<Rightarrow> nat \<Rightarrow> control \<Rightarrow> control option" where
  "insert_free_block b fl sl t =
     do {
       tlsf_assert (fl < 25 \<and> sl < 32);
       let current = list_head t fl sl
       in do {
         tlsf_assert (current \<noteq> 0);
         tlsf_assert (b \<noteq> 0);
         tlsf_assert (block_to_ptr b = align_ptr (block_to_ptr b) 8);
         let t1 = upd_hdr b (\<lambda>h. h\<lparr>next_free := current, prev_free := block_null t\<rparr>) t;
             t2 = set_head fl sl b (upd_hdr current (\<lambda>h. h\<lparr>prev_free := b\<rparr>) t1)
         in Some (t2\<lparr>fl_bitmap := fl_bitmap t2 OR push_bit fl 1,
                     sl_bitmap := (sl_bitmap t2)[fl := sl_bitmap t2 ! fl OR push_bit sl 1]\<rparr>) } }"

definition block_remove :: "addr \<Rightarrow> control \<Rightarrow> control option" where
  "block_remove b t = (case mapping_insert (block_size t b) of (fl, sl) \<Rightarrow> remove_free_block b fl sl t)"

definition block_insert :: "addr \<Rightarrow> control \<Rightarrow> control option" where
  "block_insert b t = (case mapping_insert (block_size t b) of (fl, sl) \<Rightarrow> insert_free_block b fl sl t)"

section \<open>Splitting and merging\<close>

text \<open>\<open>sizeof(block_header_t)\<close> is 32.\<close>

definition block_can_split :: "control \<Rightarrow> addr \<Rightarrow> size_t \<Rightarrow> bool" where
  "block_can_split t b sz \<longleftrightarrow> block_size t b \<ge> 32 + sz"

definition block_split :: "addr \<Rightarrow> size_t \<Rightarrow> control \<Rightarrow> (addr \<times> control) option" where
  "block_split b sz t =
     (let remaining = offset_to_block (block_to_ptr b) (sz - block_header_overhead);
          remain_size = block_size t b - (sz + block_header_overhead)
      in do {
        tlsf_assert (block_to_ptr remaining = align_ptr (block_to_ptr remaining) 8);
        tlsf_assert (block_size t b = remain_size + sz + block_header_overhead);
        let t1 = block_set_size remaining remain_size t
        in do {
          tlsf_assert (block_size t1 remaining \<ge> block_size_min);
          t2 \<leftarrow> block_mark_as_free remaining (block_set_size b sz t1);
          Some (remaining, t2\<lparr>blks := insert remaining (blks t2)\<rparr>) } })"

definition block_absorb :: "addr \<Rightarrow> addr \<Rightarrow> control \<Rightarrow> (addr \<times> control) option" where
  "block_absorb prev b t =
     do {
       tlsf_assert (\<not> block_is_last t prev);
       let t1 = upd_hdr prev (\<lambda>h. h\<lparr>size_field := size_field h + (block_size t b + block_header_overhead)\<rparr>) t
       in do { (nxt, t2) \<leftarrow> block_link_next prev t1;
               Some (prev, t2\<lparr>blks := blks t2 - {b}\<rparr>) } }"

definition block_merge_prev :: "addr \<Rightarrow> control \<Rightarrow> (addr \<times> control) option" where
  "block_merge_prev b t =
     (if block_is_prev_free t b then
        let prev = block_prev t b
        in do { tlsf_assert (prev \<noteq> 0);
                tlsf_assert (block_is_free t prev);
                t1 \<leftarrow> block_remove prev t;
                block_absorb prev b t1 }
      else Some (b, t))"

definition block_merge_next :: "addr \<Rightarrow> control \<Rightarrow> (addr \<times> control) option" where
  "block_merge_next b t =
     do {
       nxt \<leftarrow> block_next t b;
       tlsf_assert (nxt \<noteq> 0);
       if block_is_free t nxt then
         do { tlsf_assert (\<not> block_is_last t b);
              t1 \<leftarrow> block_remove nxt t;
              block_absorb b nxt t1 }
       else Some (b, t) }"

definition block_trim_free :: "addr \<Rightarrow> size_t \<Rightarrow> control \<Rightarrow> control option" where
  "block_trim_free b sz t =
     do {
       tlsf_assert (block_is_free t b);
       if block_can_split t b sz then
         do { (remaining, t1) \<leftarrow> block_split b sz t;
              (nxt, t2) \<leftarrow> block_link_next b t1;
              block_insert remaining (block_set_prev_free remaining t2) }
       else Some t }"

definition block_trim_used :: "addr \<Rightarrow> size_t \<Rightarrow> control \<Rightarrow> control option" where
  "block_trim_used b sz t =
     do {
       tlsf_assert (\<not> block_is_free t b);
       if block_can_split t b sz then
         do { (remaining, t1) \<leftarrow> block_split b sz t;
              (remaining1, t2) \<leftarrow> block_merge_next remaining (block_set_prev_used remaining t1);
              block_insert remaining1 t2 }
       else Some t }"

definition block_trim_free_leading :: "addr \<Rightarrow> size_t \<Rightarrow> control \<Rightarrow> (addr \<times> control) option" where
  "block_trim_free_leading b sz t =
     (if block_can_split t b sz then
        do { (remaining, t1) \<leftarrow> block_split b (sz - block_header_overhead) t;
             (nxt, t2) \<leftarrow> block_link_next b (block_set_prev_free remaining t1);
             t3 \<leftarrow> block_insert b t2;
             Some (remaining, t3) }
      else Some (b, t))"

definition block_locate_free :: "size_t \<Rightarrow> control \<Rightarrow> (addr \<times> control) option" where
  "block_locate_free sz t =
     do {
       (b, fl, sl) \<leftarrow> (if sz \<noteq> 0 then (case mapping_search sz of (fl, sl) \<Rightarrow> search_suitable_block t fl sl)
                     else Some (0, 0, 0));
       if b \<noteq> 0 then
         do { tlsf_assert (block_size t b \<ge> sz);
              t1 \<leftarrow> remove_free_block b fl sl t;
              Some (b, t1) }
       else Some (0, t) }"

definition block_prepare_used :: "addr \<Rightarrow> size_t \<Rightarrow> control \<Rightarrow> (addr \<times> control) option" where
  "block_prepare_used b sz t =
     (if b \<noteq> 0 then
        do { t1 \<leftarrow> block_trim_free b sz t;
             t2 \<leftarrow> block_mark_as_used b t1;
             Some (block_to_ptr b, t2) }
      else Some (0, t))"

section \<open>Control structure and pools\<close>

text \<open>\<open>mem\<close> is where the structure lies; \<open>block_null\<close> is its first member.\<close>

definition control_construct :: "addr \<Rightarrow> (addr \<Rightarrow> bhdr) \<Rightarrow> control" where
  "control_construct mem m =
     \<lparr>hdr_at = m(mem := (m mem)\<lparr>next_free := mem, prev_free := mem\<rparr>),
      fl_bitmap = 0, sl_bitmap = replicate 25 0, blocks = replicate 25 (replicate 32 mem),
      block_null = mem, blks = {}\<rparr>"

definition tlsf_create :: "addr \<Rightarrow> (addr \<Rightarrow> bhdr) \<Rightarrow> control option" where
  "tlsf_create mem m = (if mem mod 8 \<noteq> 0 then None else Some (control_construct mem m))"

text \<open>\<open>sizeof(control_t)\<close>: the null block, 1 + 25 words of bitmaps, 25 * 32 pointers.\<close>

definition tlsf_size :: size_t where "tlsf_size = 6536"
definition tlsf_pool_overhead :: size_t where "tlsf_pool_overhead = 2 * block_header_overhead"

definition tlsf_add_pool :: "addr \<Rightarrow> size_t \<Rightarrow> control \<Rightarrow> (addr \<times> control) option" where
  "tlsf_add_pool mem bytes t =
     (let pool_bytes = align_down (bytes - tlsf_pool_overhead) 8
      in if mem mod 8 \<noteq> 0 then Some (0, t)
         else if pool_bytes < block_size_min \<or> pool_bytes > block_size_max then Some (0, t)
         else let b = offset_to_block mem (- block_header_overhead);
                  t1 = block_set_prev_used b (block_set_free b (block_set_size b pool_bytes t))
              in do {
                t2 \<leftarrow> block_insert b t1;
                (nxt, t3) \<leftarrow> block_link_next b t2;
                Some (mem, (block_set_prev_free nxt (block_set_used nxt (block_set_size nxt 0 t3)))
                  \<lparr>blks := blks t3 \<union> {b, nxt}\<rparr>) })"

definition tlsf_remove_pool :: "addr \<Rightarrow> control \<Rightarrow> control option" where
  "tlsf_remove_pool pool t =
     (let b = offset_to_block pool (- block_header_overhead)
      in do {
        tlsf_assert (block_is_free t b);
        nxt \<leftarrow> block_next t b;
        tlsf_assert (\<not> block_is_free t nxt);
        tlsf_assert (block_size t nxt = 0);
        t1 \<leftarrow> (case mapping_insert (block_size t b) of (fl, sl) \<Rightarrow> remove_free_block b fl sl t);
        Some (t1\<lparr>blks := blks t1 - {b, nxt}\<rparr>) })"

definition tlsf_create_with_pool :: "addr \<Rightarrow> size_t \<Rightarrow> (addr \<Rightarrow> bhdr) \<Rightarrow> control option" where
  "tlsf_create_with_pool mem bytes m =
     do { t \<leftarrow> tlsf_create mem m;
          (p, t1) \<leftarrow> tlsf_add_pool (mem + unat tlsf_size) (bytes - tlsf_size) t;
          Some t1 }"

definition tlsf_get_pool :: "control \<Rightarrow> addr" where
  "tlsf_get_pool t = block_null t + unat tlsf_size"

section \<open>Interface\<close>

definition tlsf_block_size :: "control \<Rightarrow> addr \<Rightarrow> size_t" where
  "tlsf_block_size t p = (if p \<noteq> 0 then block_size t (block_from_ptr p) else 0)"

definition tlsf_malloc :: "control \<Rightarrow> size_t \<Rightarrow> (addr \<times> control) option" where
  "tlsf_malloc t sz =
     (let adjust = adjust_request_size sz 8
      in do { (b, t1) \<leftarrow> block_locate_free adjust t; block_prepare_used b adjust t1 })"

definition tlsf_free :: "control \<Rightarrow> addr \<Rightarrow> control option" where
  "tlsf_free t p =
     (if p \<noteq> 0 then
        let b = block_from_ptr p
        in do {
          tlsf_assert (\<not> block_is_free t b);
          t1 \<leftarrow> block_mark_as_free b t;
          (b1, t2) \<leftarrow> block_merge_prev b t1;
          (b2, t3) \<leftarrow> block_merge_next b1 t2;
          block_insert b2 t3 }
      else Some t)"

text \<open>The copy of the user data (\<open>memcpy\<close>) has no counterpart: headers are all there is here.\<close>

definition tlsf_realloc :: "control \<Rightarrow> addr \<Rightarrow> size_t \<Rightarrow> (addr \<times> control) option" where
  "tlsf_realloc t p sz =
     (if p \<noteq> 0 \<and> sz = 0 then do { t1 \<leftarrow> tlsf_free t p; Some (0, t1) }
      else if p = 0 then tlsf_malloc t sz
      else let b = block_from_ptr p
           in do {
             nxt \<leftarrow> block_next t b;
             let cursize = block_size t b;
                 combined = cursize + block_size t nxt + block_header_overhead;
                 adjust = adjust_request_size sz 8
             in do {
               tlsf_assert (\<not> block_is_free t b);
               if adjust > cursize \<and> (\<not> block_is_free t nxt \<or> adjust > combined) then
                 do { (q, t1) \<leftarrow> tlsf_malloc t sz;
                      if q \<noteq> 0 then do { t2 \<leftarrow> tlsf_free t1 p; Some (q, t2) } else Some (0, t1) }
               else
                 do { t1 \<leftarrow> (if adjust > cursize
                            then do { (b1, t2) \<leftarrow> block_merge_next b t; block_mark_as_used b t2 }
                            else Some t);
                      t3 \<leftarrow> block_trim_used b adjust t1;
                      Some (p, t3) } } })"

definition tlsf_memalign :: "control \<Rightarrow> size_t \<Rightarrow> size_t \<Rightarrow> (addr \<times> control) option" where
  "tlsf_memalign t align sz =
     (let adjust = adjust_request_size sz 8;
          gap_minimum = 32;
          size_with_gap = adjust_request_size (adjust + align + gap_minimum) align;
          aligned_size = (if align \<le> 8 then adjust else size_with_gap)
      in do {
        (b, t1) \<leftarrow> block_locate_free aligned_size t;
        (b1, t2) \<leftarrow> (if b \<noteq> 0 then
            let p = block_to_ptr b;
                aligned = align_ptr p align;
                gap = of_nat aligned - of_nat p :: size_t;
                (aligned1, gap1) =
                  (if gap \<noteq> 0 \<and> gap < gap_minimum then
                     let offset = max (gap_minimum - gap) align;
                         a = align_ptr (unat (of_nat aligned + offset)) align
                     in (a, of_nat a - of_nat p)
                   else (aligned, gap))
            in if gap1 \<noteq> 0 then
                 do { tlsf_assert (gap1 \<ge> gap_minimum); block_trim_free_leading b gap1 t1 }
               else Some (b, t1)
          else Some (0, t1));
        block_prepare_used b1 adjust t2 })"

end
