(* ===== verification/Tlsf_Index.thy ===== *)
theory Tlsf_Index
  imports Tlsf
begin

text \<open>
  The free lists of TLSF as an abstract map from size classes to lists of blocks: doubly linked
  lists through the headers, and the bitmaps that say which are not empty. Inserting, removing
  and searching are described on the map.
\<close>

section \<open>Doubly linked segments\<close>

definition head_or :: "addr list \<Rightarrow> addr \<Rightarrow> addr" where
  "head_or xs q = (case xs of [] \<Rightarrow> q | x # _ \<Rightarrow> x)"

definition last_or :: "addr \<Rightarrow> addr list \<Rightarrow> addr" where
  "last_or p xs = (if xs = [] then p else last xs)"

lemma head_or_simps [simp]: "head_or [] q = q" "head_or (x # xs) q = x"
  "head_or (xs @ ys) q = head_or xs (head_or ys q)"
  by (simp_all add: head_or_def split: list.split)

lemma last_or_simps [simp]: "last_or p [] = p" "last_or p (x # xs) = last_or x xs"
  by (simp_all add: last_or_def)

fun lseg :: "(addr \<Rightarrow> bhdr) \<Rightarrow> addr \<Rightarrow> addr list \<Rightarrow> addr \<Rightarrow> bool" where
  "lseg h p [] q \<longleftrightarrow> True"
| "lseg h p (b # bs) q \<longleftrightarrow> prev_free (h b) = p \<and> next_free (h b) = head_or bs q \<and> lseg h b bs q"

lemma lseg_append:
  "lseg h p (xs @ ys) q \<longleftrightarrow> lseg h p xs (head_or ys q) \<and> lseg h (last_or p xs) ys q"
  by (induction xs arbitrary: p) auto

lemma lseg_cong:
  "(\<And>b. b \<in> set xs \<Longrightarrow> prev_free (h b) = prev_free (h' b) \<and> next_free (h b) = next_free (h' b)) \<Longrightarrow>
   lseg h p xs q = lseg h' p xs q"
  by (induction xs arbitrary: p) auto

lemma lseg_set_next_last:
  "lseg h p xs q \<Longrightarrow> distinct xs \<Longrightarrow> xs \<noteq> [] \<Longrightarrow>
   lseg (h(last xs := (h (last xs))\<lparr>next_free := q'\<rparr>)) p xs q'"
proof (induction xs arbitrary: p)
  case (Cons b bs)
  show ?case
  proof (cases "bs = []")
    case False
    then have "last bs \<in> set bs" by simp
    with Cons.prems have "b \<noteq> last bs" by auto
    with Cons False show ?thesis by (auto simp: head_or_def split: list.splits)
  qed (use Cons in simp)
qed simp

lemma lseg_set_prev_first:
  "lseg h p (b # bs) q \<Longrightarrow> distinct (b # bs) \<Longrightarrow> lseg (h(b := (h b)\<lparr>prev_free := p'\<rparr>)) p' (b # bs) q"
  by (subst (asm) lseg.simps, subst lseg.simps, subst lseg_cong [of bs _ h]) auto

text \<open>Unlinking one element, as \<open>remove_free_block\<close> does it.\<close>

definition unlink :: "addr \<Rightarrow> addr \<Rightarrow> (addr \<Rightarrow> bhdr) \<Rightarrow> addr \<Rightarrow> bhdr" where
  "unlink prev nxt h =
     (let h1 = h(nxt := (h nxt)\<lparr>prev_free := prev\<rparr>) in h1(prev := (h1 prev)\<lparr>next_free := nxt\<rparr>))"

lemma unlink_links:
  "prev_free (unlink p n h x) = (if x = n then p else prev_free (h x))"
  "next_free (unlink p n h x) = (if x = p then n else next_free (h x))"
  by (auto simp: unlink_def)

lemma lseg_unlink:
  assumes s: "lseg h nl (xs @ b # ys) nl" and d: "distinct (xs @ b # ys)" and nl: "nl \<notin> set (xs @ b # ys)"
  shows "lseg (unlink (last_or nl xs) (head_or ys nl) h) nl (xs @ ys) nl"
proof -
  let ?h = "unlink (last_or nl xs) (head_or ys nl) h"
  have sx: "lseg h nl xs b" and sy: "lseg h b ys nl" using s by (auto simp: lseg_append)
  have "lseg ?h nl xs (head_or ys nl)"
  proof (cases "xs = []")
    case False
    have "lseg (h(last xs := (h (last xs))\<lparr>next_free := head_or ys nl\<rparr>)) nl xs (head_or ys nl)"
      using lseg_set_next_last [OF sx _ False] d by simp
    moreover have "head_or ys nl \<notin> set xs" using d nl by (cases ys) auto
    ultimately show ?thesis
      using False by (subst lseg_cong [where h' = "h(last xs := (h (last xs))\<lparr>next_free := head_or ys nl\<rparr>)"])
        (auto simp: unlink_links last_or_def)
  qed simp
  moreover have "lseg ?h (last_or nl xs) ys nl"
  proof (cases ys)
    case (Cons c cs)
    have "lseg (h(c := (h c)\<lparr>prev_free := last_or nl xs\<rparr>)) (last_or nl xs) ys nl"
      using lseg_set_prev_first [of h b c cs nl] sy d by (simp add: Cons)
    moreover have "last_or nl xs \<notin> set ys"
    proof (cases "xs = []")
      case False
      then have "last xs \<in> set xs" by simp
      with d have "last xs \<notin> set ys" by auto
      with False show ?thesis by (simp add: last_or_def)
    qed (use nl in simp)
    ultimately show ?thesis
      by (subst lseg_cong [where h' = "h(c := (h c)\<lparr>prev_free := last_or nl xs\<rparr>)"])
        (auto simp: unlink_links Cons)
  qed simp
  ultimately show ?thesis by (simp add: lseg_append)
qed

section \<open>The index\<close>

definition index_shape :: "control \<Rightarrow> bool" where
  "index_shape t \<longleftrightarrow> block_null t \<noteq> 0 \<and> length (sl_bitmap t) = 25 \<and> length (blocks t) = 25 \<and>
     (\<forall>fl<25. length (blocks t ! fl) = 32)"

definition class_ok :: "control \<Rightarrow> nat \<Rightarrow> nat \<Rightarrow> addr list \<Rightarrow> bool" where
  "class_ok t fl sl bs \<longleftrightarrow> list_head t fl sl = head_or bs (block_null t) \<and>
     lseg (hdr_at t) (block_null t) bs (block_null t) \<and> distinct bs \<and>
     block_null t \<notin> set bs \<and> 0 \<notin> set bs \<and> (bit (sl_bitmap t ! fl) sl \<longleftrightarrow> bs \<noteq> [])"

definition index_ok :: "control \<Rightarrow> (nat \<Rightarrow> nat \<Rightarrow> addr list) \<Rightarrow> bool" where
  "index_ok t F \<longleftrightarrow> index_shape t \<and>
     (\<forall>fl<25. \<forall>sl<32. class_ok t fl sl (F fl sl)) \<and>
     (\<forall>fl<25. bit (fl_bitmap t) fl \<longleftrightarrow> sl_bitmap t ! fl \<noteq> 0) \<and> (\<forall>fl\<ge>25. \<not> bit (fl_bitmap t) fl) \<and>
     (\<forall>fl<25. \<forall>sl<32. \<forall>fl'<25. \<forall>sl'<32. (fl, sl) \<noteq> (fl', sl') \<longrightarrow> set (F fl sl) \<inter> set (F fl' sl') = {})"

definition upd_class :: "(nat \<Rightarrow> nat \<Rightarrow> 'a) \<Rightarrow> nat \<Rightarrow> nat \<Rightarrow> 'a \<Rightarrow> nat \<Rightarrow> nat \<Rightarrow> 'a" where
  "upd_class F fl sl x = F(fl := (F fl)(sl := x))"

lemma upd_class_apply [simp]:
  "upd_class F fl sl x fl' sl' = (if fl' = fl \<and> sl' = sl then x else F fl' sl')"
  by (auto simp: upd_class_def)

lemma index_okD:
  assumes "index_ok t F"
  shows "index_shape t" "fl < 25 \<Longrightarrow> sl < 32 \<Longrightarrow> class_ok t fl sl (F fl sl)"
    "fl < 25 \<Longrightarrow> bit (fl_bitmap t) fl \<longleftrightarrow> sl_bitmap t ! fl \<noteq> 0" "25 \<le> fl \<Longrightarrow> \<not> bit (fl_bitmap t) fl"
    "fl < 25 \<Longrightarrow> sl < 32 \<Longrightarrow> fl' < 25 \<Longrightarrow> sl' < 32 \<Longrightarrow> (fl, sl) \<noteq> (fl', sl') \<Longrightarrow>
      set (F fl sl) \<inter> set (F fl' sl') = {}"
  using assms unfolding index_ok_def by blast+


text \<open>What an operation on the free lists leaves of the physical blocks.\<close>

definition same_phys :: "control \<Rightarrow> control \<Rightarrow> bool" where
  "same_phys t t' \<longleftrightarrow> block_null t' = block_null t \<and> blks t' = blks t \<and>
     (\<forall>b. size_field (hdr_at t' b) = size_field (hdr_at t b) \<and>
          prev_phys_block (hdr_at t' b) = prev_phys_block (hdr_at t b))"

lemma class_ok_frame:
  assumes "class_ok t fl sl bs" and "list_head t' fl sl = list_head t fl sl"
    and "block_null t' = block_null t" and "bit (sl_bitmap t' ! fl) sl = bit (sl_bitmap t ! fl) sl"
    and "\<And>b. b \<in> set bs \<Longrightarrow> prev_free (hdr_at t' b) = prev_free (hdr_at t b) \<and>
      next_free (hdr_at t' b) = next_free (hdr_at t b)"
  shows "class_ok t' fl sl bs"
  using assms lseg_cong [of bs "hdr_at t'" "hdr_at t" "block_null t" "block_null t"]
  by (simp add: class_ok_def)

lemma set_head_simps [simp]:
  "hdr_at (set_head fl sl b t) = hdr_at t" "sl_bitmap (set_head fl sl b t) = sl_bitmap t"
  "fl_bitmap (set_head fl sl b t) = fl_bitmap t" "block_null (set_head fl sl b t) = block_null t"
  "blks (set_head fl sl b t) = blks t"
  by (simp_all add: set_head_def)

lemma upd_hdr_simps [simp]:
  "sl_bitmap (upd_hdr b f t) = sl_bitmap t" "fl_bitmap (upd_hdr b f t) = fl_bitmap t"
  "block_null (upd_hdr b f t) = block_null t" "blks (upd_hdr b f t) = blks t"
  "blocks (upd_hdr b f t) = blocks t" "list_head (upd_hdr b f t) = list_head t"
  "hdr_at (upd_hdr b f t) = (hdr_at t)(b := f (hdr_at t b))"
  by (simp_all add: upd_hdr_def list_head_def fun_eq_iff)

lemma list_head_set_head:
  "index_shape t \<Longrightarrow> fl < 25 \<Longrightarrow> sl < 32 \<Longrightarrow> fl' < 25 \<Longrightarrow> sl' < 32 \<Longrightarrow>
   list_head (set_head fl sl b t) fl' sl' = (if fl' = fl \<and> sl' = sl then b else list_head t fl' sl')"
  by (auto simp: list_head_def set_head_def index_shape_def nth_list_update)

lemma list_head_bitmaps [simp]:
  "list_head (t\<lparr>sl_bitmap := x\<rparr>) = list_head t" "list_head (t\<lparr>fl_bitmap := y\<rparr>) = list_head t"
  by (simp_all add: list_head_def fun_eq_iff)

lemma index_shape_set_head:
  "index_shape t \<Longrightarrow> fl < 25 \<Longrightarrow> index_shape (set_head fl sl b t)"
  by (auto simp: index_shape_def set_head_def nth_list_update)

lemma bit_set_clear:
  "n < 32 \<Longrightarrow> bit (w OR 2 ^ k :: 32 word) n = (bit w n \<or> n = k)"
  "n < 32 \<Longrightarrow> bit (w AND NOT (2 ^ k) :: 32 word) n = (bit w n \<and> n \<noteq> k)"
  by (auto simp: bit_simps)

lemma word32_nonzero: "(w :: 32 word) \<noteq> 0 \<longleftrightarrow> (\<exists>i<32. bit w i)"
  using word_ex_bit [of w] by auto

text \<open>The first level bitmap follows from the classes.\<close>

lemma index_ok_intro:
  assumes "index_shape t" "\<And>fl sl. fl < 25 \<Longrightarrow> sl < 32 \<Longrightarrow> class_ok t fl sl (F fl sl)"
    "\<And>fl. fl < 25 \<Longrightarrow> bit (fl_bitmap t) fl \<longleftrightarrow> sl_bitmap t ! fl \<noteq> 0" "\<And>fl. 25 \<le> fl \<Longrightarrow> \<not> bit (fl_bitmap t) fl"
    "\<And>fl sl fl' sl'. fl < 25 \<Longrightarrow> sl < 32 \<Longrightarrow> fl' < 25 \<Longrightarrow> sl' < 32 \<Longrightarrow> (fl, sl) \<noteq> (fl', sl') \<Longrightarrow>
      set (F fl sl) \<inter> set (F fl' sl') = {}"
  shows "index_ok t F"
  unfolding index_ok_def using assms by blast

section \<open>Inserting\<close>

lemma insert_free_block_ok:
  assumes ok: "index_ok t F" and c: "fl < 25" "sl < 32"
    and b: "b \<noteq> 0" "b \<noteq> block_null t" "\<And>fl' sl'. fl' < 25 \<Longrightarrow> sl' < 32 \<Longrightarrow> b \<notin> set (F fl' sl')"
    and al: "block_to_ptr b = align_ptr (block_to_ptr b) 8"
  shows "\<exists>t'. insert_free_block b fl sl t = Some t' \<and> index_ok t' (upd_class F fl sl (b # F fl sl)) \<and>
    same_phys t t'"
proof -
  let ?n = "block_null t"
  note shape = index_okD(1) [OF ok]
  have cl: "class_ok t fl sl (F fl sl)" using index_okD(2) [OF ok] c by blast
  define cur where "cur = list_head t fl sl"
  have cur: "cur = head_or (F fl sl) ?n" "cur \<noteq> 0" "cur = ?n \<or> cur \<in> set (F fl sl)"
    using cl shape by (auto simp: cur_def class_ok_def index_shape_def head_or_def split: list.splits)
  define t1 where "t1 = upd_hdr cur (\<lambda>h. h\<lparr>prev_free := b\<rparr>)
    (upd_hdr b (\<lambda>h. h\<lparr>next_free := cur, prev_free := ?n\<rparr>) t)"
  define t2 where "t2 = set_head fl sl b t1"
  define t3 where "t3 = t2\<lparr>fl_bitmap := fl_bitmap t2 OR push_bit fl 1,
    sl_bitmap := (sl_bitmap t2)[fl := sl_bitmap t2 ! fl OR push_bit sl 1]\<rparr>"
  have r: "insert_free_block b fl sl t = Some t3"
    using c b(1) al cur(2) by (simp add: insert_free_block_def tlsf_assert_def cur_def t3_def t2_def t1_def Let_def)
  have bc: "b \<noteq> cur" using b c cur(3) by auto
  have sh1: "index_shape t1" using shape by (simp add: t1_def index_shape_def)
  then have sh: "index_shape t3" using index_shape_set_head [OF sh1 c(1)] by (simp add: t3_def t2_def index_shape_def)
  have links: "prev_free (hdr_at t3 x) = (if x = cur then b else if x = b then ?n else prev_free (hdr_at t x))"
    "next_free (hdr_at t3 x) = (if x = b then cur else next_free (hdr_at t x))" for x
    by (auto simp: t3_def t2_def t1_def)
  have nul: "block_null t3 = ?n" by (simp add: t3_def t2_def t1_def)
  have hd: "list_head t3 fl' sl' = (if fl' = fl \<and> sl' = sl then b else list_head t fl' sl')"
    if "fl' < 25" "sl' < 32" for fl' sl'
    using list_head_set_head [OF sh1 c that] by (simp add: t3_def t2_def t1_def list_head_def)
  have slb: "bit (sl_bitmap t3 ! fl') sl' = (bit (sl_bitmap t ! fl') sl' \<or> fl' = fl \<and> sl' = sl)"
    if "fl' < 25" "sl' < 32" for fl' sl'
    using that shape c by (auto simp: t3_def t2_def t1_def index_shape_def nth_list_update bit_set_clear)
  have "index_ok t3 (upd_class F fl sl (b # F fl sl))"
  proof (rule index_ok_intro [OF sh])
    fix fl' sl' assume c': "fl' < (25::nat)" "sl' < (32::nat)"
    have cl': "class_ok t fl' sl' (F fl' sl')" using index_okD(2) [OF ok] c' by blast
    show "class_ok t3 fl' sl' (upd_class F fl sl (b # F fl sl) fl' sl')"
    proof (cases "fl' = fl \<and> sl' = sl")
      case True
      have "lseg (hdr_at t3) b (F fl sl) ?n"
      proof (cases "F fl sl")
        case (Cons x xs)
        then have x: "cur = x" using cur(1) by simp
        have l: "lseg (hdr_at t) ?n (x # xs) ?n" "x \<notin> set xs" using cl Cons by (simp_all add: class_ok_def)
        have bx: "b \<notin> set (x # xs)" using b(3) [OF c] Cons by simp
        have "lseg (hdr_at t3) x xs ?n = lseg (hdr_at t) x xs ?n"
          using bx l(2) by (intro lseg_cong) (auto simp: links x)
        with l bx show ?thesis by (simp add: Cons links x)
      qed simp
      with True cl b(1,2) b(3) [OF c] cur(1) bc c slb [OF c] hd [OF c] show ?thesis
        by (auto simp: class_ok_def links nul)
    next
      case False
      have d: "set (F fl' sl') \<inter> set (F fl sl) = {}" using index_okD(5) [OF ok c' c] False by blast
      have "x \<noteq> b \<and> x \<noteq> cur" if "x \<in> set (F fl' sl')" for x
        using that d b(3) [OF c'] cur(3) cl' by (auto simp: class_ok_def)
      with False show ?thesis
        by (auto intro!: class_ok_frame [OF cl'] simp: hd [OF c'] nul slb [OF c'] links)
    qed
  next
    fix fl' assume "fl' < (25::nat)"
    then show "bit (fl_bitmap t3) fl' \<longleftrightarrow> sl_bitmap t3 ! fl' \<noteq> 0"
      using index_okD(3) [OF ok, of fl'] slb [of fl'] c
      unfolding word32_nonzero [of "sl_bitmap t3 ! fl'"] word32_nonzero [of "sl_bitmap t ! fl'"]
      by (auto simp: t3_def t2_def t1_def bit_set_clear)
  next
    fix fl' assume "(25::nat) \<le> fl'"
    with index_okD(4) [OF ok, of fl'] c show "\<not> bit (fl_bitmap t3) fl'"
      by (cases "fl' < 32") (auto simp: t3_def t2_def t1_def bit_set_clear dest: bit_imp_le_length)
  next
    fix fl1 sl1 fl2 sl2
    assume "fl1 < (25::nat)" "sl1 < (32::nat)" "fl2 < (25::nat)" "sl2 < (32::nat)" "(fl1, sl1) \<noteq> (fl2, sl2)"
    with index_okD(5) [OF ok, of fl1 sl1 fl2 sl2] b(3) [of fl1 sl1] b(3) [of fl2 sl2]
    show "set (upd_class F fl sl (b # F fl sl) fl1 sl1) \<inter> set (upd_class F fl sl (b # F fl sl) fl2 sl2) = {}"
      by auto
  qed
  moreover have "same_phys t t3" by (auto simp: same_phys_def t3_def t2_def t1_def)
  ultimately show ?thesis using r by blast
qed


section \<open>Removing\<close>

lemma drop_head_simps:
  "hdr_at (drop_head fl sl nxt t) = hdr_at t" "block_null (drop_head fl sl nxt t) = block_null t"
  "blks (drop_head fl sl nxt t) = blks t"
  by (simp_all add: drop_head_def Let_def)

lemma drop_head_effect:
  fixes nxt :: addr
  assumes sh: "index_shape t" and c: "fl < 25" "sl < 32"
    and fb: "\<forall>k<25. bit (fl_bitmap t) k \<longleftrightarrow> sl_bitmap t ! k \<noteq> 0"
  defines "t' \<equiv> drop_head fl sl nxt t"
  shows "index_shape t'"
    "\<And>k l. k < 25 \<Longrightarrow> l < 32 \<Longrightarrow> list_head t' k l = (if k = fl \<and> l = sl then nxt else list_head t k l)"
    "\<And>k l. k < 25 \<Longrightarrow> l < 32 \<Longrightarrow>
      bit (sl_bitmap t' ! k) l = (bit (sl_bitmap t ! k) l \<and> \<not> (k = fl \<and> l = sl \<and> nxt = block_null t))"
    "\<And>k. k < 25 \<Longrightarrow> bit (fl_bitmap t') k \<longleftrightarrow> sl_bitmap t' ! k \<noteq> 0"
    "\<And>k. 25 \<le> k \<Longrightarrow> bit (fl_bitmap t') k \<Longrightarrow> bit (fl_bitmap t) k"
proof -
  have sh2: "index_shape (set_head fl sl nxt t)" by (rule index_shape_set_head [OF sh c(1)])
  have l: "length (sl_bitmap t) = 25" using sh by (simp add: index_shape_def)
  have sb: "sl_bitmap t' = (if nxt = block_null t
      then (sl_bitmap t)[fl := sl_bitmap t ! fl AND NOT (2 ^ sl)] else sl_bitmap t)"
    by (simp add: t'_def drop_head_def Let_def)
  show "index_shape t'" using sh2 by (auto simp: t'_def drop_head_def Let_def index_shape_def)
  show "list_head t' k l = (if k = fl \<and> l = sl then nxt else list_head t k l)" if "k < 25" "l < 32" for k l
  proof -
    have "list_head t' = list_head (set_head fl sl nxt t)"
      by (auto simp: t'_def drop_head_def Let_def)
    then show ?thesis using list_head_set_head [OF sh c that, of nxt] by simp
  qed
  show "bit (sl_bitmap t' ! k) l = (bit (sl_bitmap t ! k) l \<and> \<not> (k = fl \<and> l = sl \<and> nxt = block_null t))"
    if "k < 25" "l < 32" for k l
    using that c l by (auto simp: sb nth_list_update bit_set_clear)
  show "bit (fl_bitmap t') k \<longleftrightarrow> sl_bitmap t' ! k \<noteq> 0" if "k < 25" for k
    using that c l fb by (auto simp: t'_def drop_head_def Let_def nth_list_update bit_set_clear)
  show "bit (fl_bitmap t) k" if "25 \<le> k" "bit (fl_bitmap t') k" for k
    using that by (auto simp: t'_def drop_head_def Let_def bit_and_iff split: if_splits)
qed


lemma remove_free_block_ok:
  assumes ok: "index_ok t F" and c: "fl < 25" "sl < 32" and b: "b \<in> set (F fl sl)"
  shows "\<exists>t'. remove_free_block b fl sl t = Some t' \<and>
    index_ok t' (upd_class F fl sl (remove1 b (F fl sl))) \<and> same_phys t t'"
proof -
  let ?n = "block_null t"
  note shape = index_okD(1) [OF ok]
  have cl: "class_ok t fl sl (F fl sl)" using index_okD(2) [OF ok] c by blast
  obtain xs ys where F: "F fl sl = xs @ b # ys" using b by (auto simp: in_set_conv_decomp)
  have d: "distinct (xs @ b # ys)" "?n \<notin> set (xs @ b # ys)" "0 \<notin> set (xs @ b # ys)"
    and l: "lseg (hdr_at t) ?n (xs @ b # ys) ?n" and h: "list_head t fl sl = head_or xs b"
    using cl F by (auto simp: class_ok_def)
  have rm: "remove1 b (F fl sl) = xs @ ys" using F d by (simp add: remove1_append)
  let ?p = "last_or ?n xs" and ?x = "head_or ys ?n"
  have pn: "prev_free (hdr_at t b) = ?p" "next_free (hdr_at t b) = ?x"
    using l by (simp_all add: lseg_append)
  have mem: "?p \<in> insert ?n (set xs)" "?x \<in> insert ?n (set ys)"
    by (auto simp: last_or_def head_or_def split: list.splits)
  have n0: "?n \<noteq> 0" using shape by (simp add: index_shape_def)
  have nz: "?p \<noteq> 0" "?x \<noteq> 0" using mem n0 d(3) by (metis Un_iff insert_iff set_append list.simps(15))+
  have xn: "?x = ?n \<longleftrightarrow> ys = []" using d(2) mem by (cases ys) auto
  define t1 where "t1 = upd_hdr ?p (\<lambda>h. h\<lparr>next_free := ?x\<rparr>) (upd_hdr ?x (\<lambda>h. h\<lparr>prev_free := ?p\<rparr>) t)"
  have t1: "hdr_at t1 = unlink ?p ?x (hdr_at t)" "block_null t1 = ?n" "sl_bitmap t1 = sl_bitmap t"
    "fl_bitmap t1 = fl_bitmap t" "list_head t1 = list_head t" "blks t1 = blks t"
    by (simp_all add: t1_def unlink_def Let_def)
  have sh1: "index_shape t1" using shape by (simp add: t1_def index_shape_def)
  have hb: "list_head t1 fl sl = b \<longleftrightarrow> xs = []" using h d(1) by (cases xs) (auto simp: t1)
  define t' where "t' = (if xs = [] then drop_head fl sl ?x t1 else t1)"
  have r: "remove_free_block b fl sl t = Some t'"
    unfolding remove_free_block_def Let_def pn t1_def [symmetric] t'_def
    using c nz by (simp add: tlsf_assert_def hb)
  have fb: "\<forall>k<25. bit (fl_bitmap t1) k \<longleftrightarrow> sl_bitmap t1 ! k \<noteq> 0"
    using index_okD(3) [OF ok] by (simp add: t1)
  note dh = drop_head_effect [OF sh1 c fb, where nxt = ?x]
  have eff: "index_shape t'" "block_null t' = ?n" "hdr_at t' = unlink ?p ?x (hdr_at t)"
    using dh(1) sh1 by (simp_all add: t'_def t1 drop_head_simps)
  have hd: "list_head t' k l = (if k = fl \<and> l = sl \<and> xs = [] then ?x else list_head t k l)"
    if "k < 25" "l < 32" for k l using dh(2) [OF that] by (auto simp: t'_def t1)
  have bt: "bit (sl_bitmap t' ! k) l = (bit (sl_bitmap t ! k) l \<and> \<not> (k = fl \<and> l = sl \<and> xs = [] \<and> ys = []))"
    if "k < 25" "l < 32" for k l using dh(3) [OF that] xn by (auto simp: t'_def t1)
  have "index_ok t' (upd_class F fl sl (xs @ ys))"
  proof (rule index_ok_intro [OF eff(1)])
    fix k l assume kl: "k < (25::nat)" "l < (32::nat)"
    have cl': "class_ok t k l (F k l)" using index_okD(2) [OF ok] kl by blast
    show "class_ok t' k l (upd_class F fl sl (xs @ ys) k l)"
    proof (cases "k = fl \<and> l = sl")
      case True
      have "lseg (hdr_at t') ?n (xs @ ys) ?n" using lseg_unlink [OF l d(1,2)] by (simp add: eff)
      moreover have "list_head t' fl sl = head_or (xs @ ys) ?n" using hd [OF c] h by (cases xs) auto
      moreover have "bit (sl_bitmap t' ! fl) sl \<longleftrightarrow> xs @ ys \<noteq> []"
        using bt [OF c] cl F by (auto simp: class_ok_def)
      ultimately show ?thesis using True d by (auto simp: class_ok_def eff)
    next
      case False
      have dj: "set (F k l) \<inter> set (F fl sl) = {}" using index_okD(5) [OF ok kl c] False by blast
      have "x \<noteq> ?p \<and> x \<noteq> ?x" if "x \<in> set (F k l)" for x
        using that dj mem cl' F by (auto simp: class_ok_def)
      with False show ?thesis
        by (auto intro!: class_ok_frame [OF cl'] simp: hd [OF kl] eff bt [OF kl] unlink_links)
    qed
  next
    show "bit (fl_bitmap t') k \<longleftrightarrow> sl_bitmap t' ! k \<noteq> 0" if "k < 25" for k
      using dh(4) [OF that] fb that by (simp add: t'_def t1)
    show "\<not> bit (fl_bitmap t') k" if "25 \<le> k" for k
      using dh(5) [OF that] index_okD(4) [OF ok that] by (auto simp: t'_def t1)
  next
    fix fl1 sl1 fl2 sl2
    assume "fl1 < (25::nat)" "sl1 < (32::nat)" "fl2 < (25::nat)" "sl2 < (32::nat)" "(fl1, sl1) \<noteq> (fl2, sl2)"
    from index_okD(5) [OF ok this] F
    show "set (upd_class F fl sl (xs @ ys) fl1 sl1) \<inter> set (upd_class F fl sl (xs @ ys) fl2 sl2) = {}"
      by auto
  qed
  moreover have "same_phys t t'"
    by (auto simp: same_phys_def t'_def t1_def drop_head_simps)
  ultimately show ?thesis using r rm by auto
qed

section \<open>Searching\<close>

lemma bit_mask_from: "bit (w AND push_bit k (- 1) :: 32 word) n \<longleftrightarrow> bit w n \<and> k \<le> n"
  using bit_imp_le_length [of w n] by (auto simp: bit_simps)

lemma first_bit:
  assumes "(w :: 32 word) \<noteq> 0"
  shows "bit w (nat (tlsf_ffs w))" "nat (tlsf_ffs w) < 32"
  using tlsf_ffs_spec [OF assms] by (metis nat_int)+

text \<open>
  The search returns the first block of a class not below the one asked for, or 0 when all
  these classes are empty.
\<close>

lemma search_suitable_block_ok:
  assumes ok: "index_ok t F" and c: "fl < 25" "sl < 32"
  shows "\<exists>b fl' sl'. search_suitable_block t fl sl = Some (b, fl', sl') \<and>
    (if b = 0 then \<forall>k<25. \<forall>l<32. fl < k \<or> fl = k \<and> sl \<le> l \<longrightarrow> F k l = []
     else fl' < 25 \<and> sl' < 32 \<and> (fl < fl' \<or> fl = fl' \<and> sl \<le> sl') \<and> b \<in> set (F fl' sl'))"
proof -
  have ne: "F k l \<noteq> [] \<longleftrightarrow> bit (sl_bitmap t ! k) l" and hd: "F k l \<noteq> [] \<Longrightarrow>
      list_head t k l \<in> set (F k l) \<and> list_head t k l \<noteq> 0"
    if "k < 25" "l < 32" for k l
    using index_okD(2) [OF ok that] by (auto simp: class_ok_def head_or_def split: list.splits)
  let ?m = "sl_bitmap t ! fl AND push_bit sl (- 1)"
  let ?f = "fl_bitmap t AND push_bit (fl + 1) (- 1)"
  consider (here) "?m \<noteq> 0" | (above) "?m = 0" "?f \<noteq> 0" | (none) "?m = 0" "?f = 0" by blast
  then show ?thesis
  proof cases
    case here
    let ?l = "nat (tlsf_ffs ?m)"
    have l: "bit (sl_bitmap t ! fl) ?l" "sl \<le> ?l" "?l < 32"
      using first_bit [OF here] by (simp_all only: bit_mask_from)
    with hd [OF c(1) l(3)] ne [OF c(1) l(3)] here c show ?thesis
      by (simp add: search_suitable_block_def Let_def not_le)
  next
    case above
    let ?k = "nat (tlsf_ffs ?f)"
    have k: "bit (fl_bitmap t) ?k" "fl < ?k" using first_bit [OF above(2)]
      by (simp_all only: bit_mask_from Suc_eq_plus1 [symmetric] Suc_le_eq)
    then have k25: "?k < 25" using index_okD(4) [OF ok, of ?k] by (meson not_le)
    let ?w = "sl_bitmap t ! ?k" 
    have w: "?w \<noteq> 0" using index_okD(3) [OF ok k25] k by blast
    let ?l = "nat (tlsf_ffs ?w)"
    note l = first_bit [OF w]
    from hd [OF k25 l(2)] ne [OF k25 l(2)] l have "list_head t ?k ?l \<in> set (F ?k ?l)" "list_head t ?k ?l \<noteq> 0"
      by blast+
    moreover have "search_suitable_block t fl sl = Some (list_head t ?k ?l, ?k, ?l)"
      using c above k25 w by (simp add: search_suitable_block_def Let_def tlsf_assert_def not_le)
    ultimately show ?thesis using k25 l(2) k(2) by auto
  next
    case none
    have e: "F k l = []" if kl: "k < 25" "l < 32" "fl < k \<or> fl = k \<and> sl \<le> l" for k l
    proof (rule ccontr)
      assume "F k l \<noteq> []"
      then have b: "bit (sl_bitmap t ! k) l" using ne [OF kl(1,2)] by blast
      then have "bit (fl_bitmap t) k" using index_okD(3) [OF ok kl(1)] by auto
      with b kl(3) have "bit ?m l \<or> bit ?f k" unfolding bit_mask_from by auto
      with none show False by simp
    qed
    with none c show ?thesis by (simp add: search_suitable_block_def Let_def not_le)
  qed
qed

end
