(* ===== verification/Tlsf_Layout.thy ===== *)
theory Tlsf_Layout
  imports Tlsf_Index
begin

text \<open>
  The physical side of TLSF: what each header operation does to the sizes and flags, and the
  layout invariant (blocks tile their pools, every block knows whether the one before is free)
  with its behaviour under marking, splitting and absorbing, stated on plain functions.
\<close>

section \<open>Header fields as functions\<close>

abbreviation zs :: "control \<Rightarrow> addr \<Rightarrow> nat" where "zs t b \<equiv> unat (block_size t b)"
abbreviation pp :: "control \<Rightarrow> addr \<Rightarrow> addr" where "pp t b \<equiv> prev_phys_block (hdr_at t b)"

lemma flag_bits:
  "bit block_header_free_bit n \<longleftrightarrow> n = 0" "bit block_header_prev_free_bit n \<longleftrightarrow> n = 1"
  "bit block_header_bits n \<longleftrightarrow> n < 2"
proof -
  show f: "bit block_header_free_bit n \<longleftrightarrow> n = 0" by (simp add: block_header_free_bit_def bit_1_iff)
  have "bit (2 :: size_t) n \<longleftrightarrow> possible_bit TYPE(size_t) n \<and> n = 1"
    using bit_exp_iff [of 1 n, where ?'a = size_t] by (simp only: power_one_right) 
  then show p: "bit block_header_prev_free_bit n \<longleftrightarrow> n = 1" by (auto simp: block_header_prev_free_bit_def)
  show "bit block_header_bits n \<longleftrightarrow> n < 2" by (auto simp: block_header_bits_def bit_or_iff f p)
qed

lemma header_bits_mask: "block_header_bits = mask 2"
  by (rule bit_word_eqI) (auto simp: flag_bits bit_mask_iff)

lemma and_single:
  assumes "\<And>n. bit m n \<longleftrightarrow> n = k"
  shows "(w :: size_t) AND m \<noteq> 0 \<longleftrightarrow> bit w k"
proof -
  have "bit (w AND m) n \<longleftrightarrow> bit w k \<and> n = k" for n using assms by (auto simp: bit_and_iff)
  then show ?thesis by (metis bit_0_eq bot_apply bot_bool_def bit_eqI)
qed

lemma block_flags:
  "block_is_free t b \<longleftrightarrow> bit (size_field (hdr_at t b)) 0"
  "block_is_prev_free t b \<longleftrightarrow> bit (size_field (hdr_at t b)) 1"
  using and_single [OF flag_bits(1)] and_single [OF flag_bits(2)]
  by (simp_all only: block_is_free_def block_is_prev_free_def)

text \<open>A size field by its parts.\<close>

lemma size_field_eqI:
  assumes "w AND NOT block_header_bits = v AND NOT block_header_bits" "bit w 0 = bit v 0" "bit w 1 = bit v 1"
  shows "w = v"
proof (rule bit_word_eqI)
  fix n assume "n < LENGTH(64)"
  consider "n = 0" | "n = 1" | "2 \<le> n" by linarith
  then show "bit w n = bit v n"
  proof cases
    case 3
    have "bit (w AND NOT block_header_bits) n = bit (v AND NOT block_header_bits) n" using assms(1) by simp
    with 3 \<open>n < LENGTH(64)\<close> show ?thesis by (simp only: bit_and_iff bit_not_iff flag_bits) simp
  qed (use assms in simp_all)
qed

lemma mask_flags:
  "(w OR block_header_free_bit) AND NOT block_header_bits = w AND NOT block_header_bits" "(w OR block_header_prev_free_bit) AND NOT block_header_bits = w AND NOT block_header_bits"
  "(w AND NOT block_header_free_bit) AND NOT block_header_bits = w AND NOT block_header_bits" "(w AND NOT block_header_prev_free_bit) AND NOT block_header_bits = w AND NOT block_header_bits"
  by (rule bit_word_eqI; auto simp: bit_and_iff bit_or_iff bit_not_iff flag_bits)+

lemma block_ops_flags [simp]:
  "block_size (block_set_free b t) x = block_size t x"
  "block_size (block_set_used b t) x = block_size t x"
  "block_size (block_set_prev_free b t) x = block_size t x"
  "block_size (block_set_prev_used b t) x = block_size t x"
  "block_is_free (block_set_free b t) x \<longleftrightarrow> x = b \<or> block_is_free t x"
  "block_is_free (block_set_used b t) x \<longleftrightarrow> x \<noteq> b \<and> block_is_free t x"
  "block_is_free (block_set_prev_free b t) x = block_is_free t x"
  "block_is_free (block_set_prev_used b t) x = block_is_free t x"
  "block_is_prev_free (block_set_free b t) x = block_is_prev_free t x"
  "block_is_prev_free (block_set_used b t) x = block_is_prev_free t x"
  "block_is_prev_free (block_set_prev_free b t) x \<longleftrightarrow> x = b \<or> block_is_prev_free t x"
  "block_is_prev_free (block_set_prev_used b t) x \<longleftrightarrow> x \<noteq> b \<and> block_is_prev_free t x"
  by (auto simp: block_size_def block_flags block_set_free_def block_set_used_def block_set_prev_free_def
      block_set_prev_used_def mask_flags bit_and_iff bit_or_iff bit_not_iff flag_bits)

lemma block_set_size_flags [simp]:
  "block_is_free (block_set_size b s t) x = (if x = b then bit s 0 \<or> block_is_free t b else block_is_free t x)"
  "block_is_prev_free (block_set_size b s t) x =
     (if x = b then bit s 1 \<or> block_is_prev_free t b else block_is_prev_free t x)"
  "block_size (block_set_size b s t) x = (if x = b then s AND NOT block_header_bits else block_size t x)"
proof -
  have "(s OR (w AND block_header_bits)) AND NOT block_header_bits = s AND NOT block_header_bits" for w
    by (rule bit_word_eqI) (auto simp: bit_and_iff bit_or_iff bit_not_iff flag_bits)
  then show "block_size (block_set_size b s t) x = (if x = b then s AND NOT block_header_bits else block_size t x)"
    by (simp add: block_size_def block_set_size_def)
qed (auto simp: block_flags block_set_size_def bit_and_iff bit_or_iff flag_bits)

text \<open>A multiple of four has no flag bits.\<close>

lemma aligned_bits:
  assumes "4 dvd unat (s :: size_t)"
  shows "s AND NOT block_header_bits = s" "\<not> bit s 0" "\<not> bit s 1"
proof -
  have "unat (s AND NOT (mask 2)) = unat s" using assms by (simp only: unat_and_not_mask) simp
  then show m: "s AND NOT block_header_bits = s" by (simp add: header_bits_mask word_unat_eq_iff)
  show "\<not> bit s 0" "\<not> bit s 1" using arg_cong [OF m, of "\<lambda>w. bit w 0"] arg_cong [OF m, of "\<lambda>w. bit w 1"]
    by (auto simp: bit_and_iff bit_not_iff flag_bits)
qed

lemma zs_dvd_4: "4 dvd zs t b"
proof -
  have "zs t b = unat (size_field (hdr_at t b)) div 2 ^ 2 * 2 ^ 2"
    using unat_and_not_mask [of "size_field (hdr_at t b)" 2] by (simp add: block_size_def header_bits_mask)
  then show ?thesis by simp
qed

text \<open>Adding to the size field, as \<open>block_absorb\<close> does.\<close>

lemma size_field_add:
  assumes k: "4 dvd unat (k :: size_t)" and fit: "unat (w AND NOT block_header_bits) + unat k + 4 \<le> 2 ^ 64"
  shows "unat ((w + k) AND NOT block_header_bits) = unat (w AND NOT block_header_bits) + unat k"
    "bit (w + k) 0 = bit w 0" "bit (w + k) 1 = bit w 1"
proof -
  define q where "q = unat w div 4"
  define r where "r = unat w mod 4"
  have w: "unat w = q * 4 + r" "r < 4" by (simp_all add: q_def r_def)
  have m: "unat (v AND NOT block_header_bits) = unat v div 4 * 4" for v :: size_t
    using unat_and_not_mask [of v 2] by (simp add: header_bits_mask)
  obtain j where j: "unat k = 4 * j" using k by blast
  have "unat w div 4 * 4 + unat k + 4 \<le> 2 ^ 64" using fit unfolding m .
  then have "unat w + unat k < 2 ^ 64" using w(2) div_mult_mod_eq [of "unat w" 4] unfolding r_def by linarith
  then have "unat (w + k) = unat w + unat k" by (simp add: unat_word_ariths)
  then have u: "unat (w + k) = (q + j) * 4 + r" using w j by simp
  show "unat ((w + k) AND NOT block_header_bits) = unat (w AND NOT block_header_bits) + unat k"
  proof -
    have "((q + j) * 4 + r) div 4 = q + j" "(q * 4 + r) div 4 = q" using w(2) by presburger+
    then show ?thesis using j unfolding m u w(1) by simp
  qed
  have "bit (unat (w + k)) n = bit (unat w) n" if "n = 0 \<or> n = 1" for n
  proof -
    have "((q + j) * 4 + r) mod 4 = (q * 4 + r) mod 4" by presburger
    then have "unat (w + k) mod 4 = unat w mod 4" unfolding u w(1) .
    then have "take_bit 2 (unat (w + k)) = take_bit 2 (unat w)" by (simp add: take_bit_eq_mod)
    then have "bit (take_bit 2 (unat (w + k))) n = bit (take_bit 2 (unat w)) n" by simp
    with that show ?thesis by (auto simp only: bit_take_bit_iff)
  qed
  then show "bit (w + k) 0 = bit w 0" "bit (w + k) 1 = bit w 1"
    using bit_unat [of 0 "w + k"] bit_unat [of 0 w] bit_unat [of 1 "w + k"] bit_unat [of 1 w] by auto
qed


section \<open>The layout of the blocks\<close>

text \<open>
  \<open>z\<close>, \<open>fr\<close>, \<open>pf\<close>, \<open>pr\<close>: size, free flag, flag and link of the block before. A block of size 0
  ends a pool. Pools lie below 4 GiB (\<open>MAP_32BIT\<close> in \<open>tjost_map_memory_chunk\<close>).
\<close>

definition layout ::
  "addr set \<Rightarrow> (addr \<Rightarrow> nat) \<Rightarrow> (addr \<Rightarrow> bool) \<Rightarrow> (addr \<Rightarrow> bool) \<Rightarrow> (addr \<Rightarrow> addr) \<Rightarrow> bool" where
  "layout S z fr pf pr \<longleftrightarrow> finite S \<and>
     (\<forall>b\<in>S. 0 < b \<and> 8 dvd b \<and> b + 16 + z b \<le> 2 ^ 32 \<and> (z b = 0 \<longrightarrow> \<not> fr b) \<and>
        (z b \<noteq> 0 \<longrightarrow> 24 \<le> z b \<and> 8 dvd z b \<and> b + 8 + z b \<in> S \<and> pf (b + 8 + z b) = fr b \<and>
          (fr b \<longrightarrow> pr (b + 8 + z b) = b)) \<and>
        (pf b \<longrightarrow> (\<exists>p\<in>S. z p \<noteq> 0 \<and> p + 8 + z p = b))) \<and>
     (\<forall>b\<in>S. \<forall>c\<in>S. b < c \<longrightarrow> b + 8 + z b \<le> c)"

lemma layoutD:
  assumes "layout S z fr pf pr" and "b \<in> S"
  shows "0 < b" "8 dvd b" "b + 16 + z b \<le> 2 ^ 32" "z b = 0 \<Longrightarrow> \<not> fr b"
    "z b \<noteq> 0 \<Longrightarrow> 24 \<le> z b" "z b \<noteq> 0 \<Longrightarrow> 8 dvd z b" "z b \<noteq> 0 \<Longrightarrow> b + 8 + z b \<in> S"
    "z b \<noteq> 0 \<Longrightarrow> pf (b + 8 + z b) = fr b" "z b \<noteq> 0 \<Longrightarrow> fr b \<Longrightarrow> pr (b + 8 + z b) = b"
    "pf b \<Longrightarrow> \<exists>p\<in>S. z p \<noteq> 0 \<and> p + 8 + z p = b"
    "c \<in> S \<Longrightarrow> b < c \<Longrightarrow> b + 8 + z b \<le> c"
  using assms unfolding layout_def by blast+

lemma layout_finite: "layout S z fr pf pr \<Longrightarrow> finite S"
  by (simp add: layout_def)

lemma layoutI:
  assumes "finite S"
    and "\<And>b. b \<in> S \<Longrightarrow> 0 < b \<and> 8 dvd b \<and> b + 16 + z b \<le> 2 ^ 32 \<and> (z b = 0 \<longrightarrow> \<not> fr b)"
    and "\<And>b. b \<in> S \<Longrightarrow> z b \<noteq> 0 \<Longrightarrow> 24 \<le> z b \<and> 8 dvd z b \<and> b + 8 + z b \<in> S \<and>
      pf (b + 8 + z b) = fr b \<and> (fr b \<longrightarrow> pr (b + 8 + z b) = b)"
    and "\<And>b. b \<in> S \<Longrightarrow> pf b \<Longrightarrow> \<exists>p\<in>S. z p \<noteq> 0 \<and> p + 8 + z p = b"
    and "\<And>b c. b \<in> S \<Longrightarrow> c \<in> S \<Longrightarrow> b < c \<Longrightarrow> b + 8 + z b \<le> c"
  shows "layout S z fr pf pr"
  unfolding layout_def using assms by blast

lemma layout_cong:
  assumes "layout S z fr pf pr"
    and "\<And>b. b \<in> S \<Longrightarrow> z' b = z b \<and> fr' b = fr b \<and> pf' b = pf b \<and> (pf b \<longrightarrow> pr' b = pr b)"
  shows "layout S z' fr' pf' pr'"
proof (rule layoutI)
  show "finite S" using assms(1) by (rule layout_finite)
  note D = layoutD [OF assms(1)]
  fix b assume b: "b \<in> S"
  show "0 < b \<and> 8 dvd b \<and> b + 16 + z' b \<le> 2 ^ 32 \<and> (z' b = 0 \<longrightarrow> \<not> fr' b)"
    using D(1-4) [OF b] assms(2) [OF b] by simp
  show "24 \<le> z' b \<and> 8 dvd z' b \<and> b + 8 + z' b \<in> S \<and> pf' (b + 8 + z' b) = fr' b \<and>
      (fr' b \<longrightarrow> pr' (b + 8 + z' b) = b)" if "z' b \<noteq> 0"
    using D(5-9) [OF b] assms(2) [OF b] assms(2) [OF D(7) [OF b]] that by simp
  show "\<exists>p\<in>S. z' p \<noteq> 0 \<and> p + 8 + z' p = b" if "pf' b"
    using D(10) [OF b] assms(2) that b by metis
  show "b + 8 + z' b \<le> c" if "c \<in> S" "b < c" for c
    using D(11) [OF b that] assms(2) [OF b] by simp
qed

lemma next_inj:
  assumes l: "layout S z fr pf pr" and b: "b \<in> S" "c \<in> S" and n: "b + 8 + z b = c + 8 + z c"
  shows "b = c"
  using layoutD(11) [OF l b] layoutD(11) [OF l b(2,1)] n by (cases b c rule: linorder_cases) auto

lemma layout_no_inner:
  assumes l: "layout S z fr pf pr" and b: "b \<in> S" and c: "b < c" "c < b + 8 + z b"
  shows "c \<notin> S"
  using layoutD(11) [OF l b _ c(1)] c(2) by auto

text \<open>Changing the free flag of a block together with what its successor knows of it.\<close>

lemma layout_mark:
  assumes l: "layout S z fr pf pr" and b: "b \<in> S" "z b \<noteq> 0"
    and eq: "\<And>x. x \<in> S \<Longrightarrow> fr' x = (if x = b then f else fr x) \<and>
      pf' x = (if x = b + 8 + z b then f else pf x) \<and>
      pr' x = (if x = b + 8 + z b \<and> f then b else pr x)"
  shows "layout S z fr' pf' pr'"
proof (rule layoutI)
  note D = layoutD [OF l]
  show "finite S" using l by (rule layout_finite)
  fix c assume c: "c \<in> S"
  show "0 < c \<and> 8 dvd c \<and> c + 16 + z c \<le> 2 ^ 32 \<and> (z c = 0 \<longrightarrow> \<not> fr' c)"
    using D(1-4) [OF c] eq [OF c] b(2) by auto
  show "24 \<le> z c \<and> 8 dvd z c \<and> c + 8 + z c \<in> S \<and> pf' (c + 8 + z c) = fr' c \<and>
      (fr' c \<longrightarrow> pr' (c + 8 + z c) = c)" if "z c \<noteq> 0"
    using D(5-9) [OF c that] eq [OF c] eq [OF D(7) [OF c that]] next_inj [OF l c b(1)] by auto
  show "\<exists>p\<in>S. z p \<noteq> 0 \<and> p + 8 + z p = c" if "pf' c"
    using D(10) [OF c] eq [OF c] that b by (auto split: if_splits)
  show "c + 8 + z c \<le> d" if "d \<in> S" "c < d" for d using D(11) [OF c that] .
qed

lemma layout_split:
  assumes l: "layout S z fr pf pr" and b: "b \<in> S" and k: "24 \<le> k" "8 dvd k" "k + 32 \<le> z b"
    and eq: "\<And>x. x \<in> insert (b + 8 + k) S \<Longrightarrow>
      z' x = (if x = b then k else if x = b + 8 + k then z b - k - 8 else z x) \<and>
      fr' x = (x = b + 8 + k \<or> fr x) \<and>
      pf' x = (if x = b + 8 + z b then True else if x = b + 8 + k then fr b else pf x) \<and>
      pr' x = (if x = b + 8 + z b then b + 8 + k else if x = b + 8 + k \<and> fr b then b else pr' x) \<and>
      (x \<noteq> b + 8 + z b \<longrightarrow> x \<noteq> b + 8 + k \<longrightarrow> pr' x = pr x)"
  shows "layout (insert (b + 8 + k) S) z' fr' pf' pr'" "b + 8 + k \<notin> S"
proof -
  note D = layoutD [OF l]
  let ?r = "b + 8 + k" and ?n = "b + 8 + z b"
  have zb: "z b \<noteq> 0" using k by simp
  note Db = D(1-3) [OF b] D(5-8) [OF b zb]
  have rS: "?r \<notin> S" using layout_no_inner [OF l b] k by simp
  then show "?r \<notin> S" .
  have nb: "?n \<noteq> ?r" "?n \<in> S" "b \<noteq> ?r" "b \<noteq> ?n" using k Db(6) by auto
  have zr: "z' ?r = z b - k - 8" "z' b = k" using eq [of ?r] eq [of b] b k(1) by simp_all
  have zo: "z' x = z x" if "x \<in> S" "x \<noteq> b" for x using eq [of x] that rS by auto
  have "8 dvd z b - k - 8" using Db(5) k(2) by (auto intro: dvd_diff_nat)
  moreover have "8 dvd ?r" using Db(2) k(2) by auto
  ultimately have r: "8 dvd z b - k - 8" "8 dvd ?r" by blast+
  show "layout (insert ?r S) z' fr' pf' pr'"
  proof (rule layoutI)
    show "finite (insert ?r S)" using layout_finite [OF l] by simp
    fix c assume c: "c \<in> insert ?r S"
    consider "c = ?r" | "c = b" | "c \<in> S" "c \<noteq> b" "c \<noteq> ?r" using c by blast
    note cs = this
    show "0 < c \<and> 8 dvd c \<and> c + 16 + z' c \<le> 2 ^ 32 \<and> (z' c = 0 \<longrightarrow> \<not> fr' c)"
      using cs
    proof cases
      case 3
      then show ?thesis using D(1-4) [of c] eq [OF c] by auto
    qed (use Db k r zr in auto)
    show "24 \<le> z' c \<and> 8 dvd z' c \<and> c + 8 + z' c \<in> insert ?r S \<and>
        pf' (c + 8 + z' c) = fr' c \<and> (fr' c \<longrightarrow> pr' (c + 8 + z' c) = c)" if z: "z' c \<noteq> 0"
      using cs
    proof cases
      case 1
      have n: "?r + 8 + (z b - k - 8) = ?n" using k by simp
      show ?thesis unfolding 1 zr n using k r nb eq [of ?n] eq [of ?r] by auto
    next
      case 2
      have "fr' b = fr b" using eq [of b] b nb by auto
      then show ?thesis unfolding 2 zr using k eq [of ?r] nb by auto
    next
      case 3
      have zc: "z c \<noteq> 0" using z zo 3 by simp
      have n: "c + 8 + z c \<noteq> ?n" using next_inj [OF l 3(1) b] 3(2) by auto
      have m: "c + 8 + z c \<in> S" using D(7) [OF 3(1) zc] .
      then have "c + 8 + z c \<noteq> ?r" using rS by metis
      then show ?thesis
        using D(5-9) [OF 3(1) zc] zo [OF 3(1,2)] eq [of c] eq [of "c + 8 + z c"] 3 n m by auto
    qed
    show "\<exists>p\<in>insert ?r S. z' p \<noteq> 0 \<and> p + 8 + z' p = c" if pc: "pf' c"
    proof -
      consider "c = ?r" | "c = ?n" | "c \<in> S" "c \<noteq> ?n" "c \<noteq> ?r" using c by blast
      then show ?thesis
      proof cases
        case 1
        then show ?thesis using zr k b by (intro bexI [of _ b]) auto
      next
        case 2
        then show ?thesis using zr k by (intro bexI [of _ ?r]) auto
      next
        case 3
        then obtain p where p: "p \<in> S" "z p \<noteq> 0" "p + 8 + z p = c" using D(10) [OF 3(1)] eq [OF c] pc by auto
        then have "p \<noteq> b" using 3 by auto
        with p zo show ?thesis by (intro bexI [of _ p]) auto
      qed
    qed
    show "c + 8 + z' c \<le> d" if d: "d \<in> insert ?r S" "c < d" for d
    proof (cases "d = ?r")
      case True
      from cs show ?thesis
      proof cases
        case 3
        have "\<not> b < c" using D(11) [OF b 3(1)] d(2) True k by auto
        then have "c < b" using 3(2) by simp
        then show ?thesis using D(11) [OF 3(1) b] zo [OF 3(1,2)] True by simp
      qed (use d zr True in simp_all)
    next
      case False
      then have dS: "d \<in> S" using d(1) by simp
      from cs show ?thesis
      proof cases
        case 1
        then have "b < d" using d(2) by simp
        then show ?thesis using D(11) [OF b dS] 1 zr k by simp
      next
        case 2
        then show ?thesis using D(11) [OF b dS] d(2) zr k by simp
      next
        case 3
        then show ?thesis using D(11) [OF 3(1) dS d(2)] zo [OF 3(1,2)] by simp
      qed
    qed
  qed
qed


lemma layout_absorb:
  assumes l: "layout S z fr pf pr" and p: "p \<in> S" "z p \<noteq> 0" and b: "p + 8 + z p = b" "z b \<noteq> 0"
    and eq: "\<And>x. x \<in> S \<Longrightarrow>
      z' x = (if x = p then z p + (z b + 8) else z x) \<and> fr' x = (if x = p then f else fr x) \<and>
      pf' x = (if x = b + 8 + z b then f else pf x) \<and>
      (x = b + 8 + z b \<longrightarrow> f \<longrightarrow> pr' x = p) \<and> (x \<noteq> b + 8 + z b \<longrightarrow> pr' x = pr x)"
  shows "layout (S - {b}) z' fr' pf' pr'" "b \<in> S" "b + 8 + z b \<noteq> b" "p \<noteq> b"
proof -
  note D = layoutD [OF l]
  let ?n = "b + 8 + z b"
  note Dp = D(1-3) [OF p(1)] D(5-8) [OF p]
  show bS: "b \<in> S" using Dp(6) b(1) by simp
  note Db = D(1-3) [OF bS] D(5-9) [OF bS b(2)]
  show ne: "?n \<noteq> b" "p \<noteq> b" using b(1) by simp_all
  have np: "?n \<noteq> p" using b(1) by simp
  have zp: "z' p = z p + (z b + 8)" using eq [OF p(1)] by simp
  have zo: "z' x = z x" if "x \<in> S" "x \<noteq> p" for x using eq [OF that(1)] that by simp
  show "layout (S - {b}) z' fr' pf' pr'"
  proof (rule layoutI)
    show "finite (S - {b})" using layout_finite [OF l] by simp
    fix c assume c: "c \<in> S - {b}"
    then have cS: "c \<in> S" "c \<noteq> b" by auto
    show "0 < c \<and> 8 dvd c \<and> c + 16 + z' c \<le> 2 ^ 32 \<and> (z' c = 0 \<longrightarrow> \<not> fr' c)"
    proof (cases "c = p")
      case True
      then show ?thesis using Dp Db(3) b(1) zp by simp
    next
      case False
      then show ?thesis using D(1-4) [OF cS(1)] eq [OF cS(1)] by simp
    qed
    show "24 \<le> z' c \<and> 8 dvd z' c \<and> c + 8 + z' c \<in> S - {b} \<and>
        pf' (c + 8 + z' c) = fr' c \<and> (fr' c \<longrightarrow> pr' (c + 8 + z' c) = c)" if z: "z' c \<noteq> 0"
    proof (cases "c = p")
      case True
      have n: "p + 8 + (z p + (z b + 8)) = ?n" using b(1) by simp
      have "8 dvd z p + (z b + 8)" using Dp(5) Db(5) by auto
      then show ?thesis unfolding True zp n using Dp(4) Db(6) eq [OF Db(6)] eq [OF p(1)] ne by auto
    next
      case False
      have zc: "z c \<noteq> 0" using z zo [OF cS(1) False] by simp
      have m: "c + 8 + z c \<in> S" using D(7) [OF cS(1) zc] .
      have "c + 8 + z c \<noteq> b" using next_inj [OF l cS(1) p(1)] b(1) False by auto
      moreover have "c + 8 + z c \<noteq> ?n" using next_inj [OF l cS(1) bS] cS(2) by auto
      ultimately show ?thesis
        using D(5-9) [OF cS(1) zc] zo [OF cS(1) False] eq [OF cS(1)] eq [OF m] False m by auto
    qed
    show "\<exists>q\<in>S - {b}. z' q \<noteq> 0 \<and> q + 8 + z' q = c" if pc: "pf' c"
    proof (cases "c = ?n")
      case True
      then show ?thesis using p ne zp b(1) by (intro bexI [of _ p]) auto
    next
      case False
      then obtain q where q: "q \<in> S" "z q \<noteq> 0" "q + 8 + z q = c" using D(10) [OF cS(1)] eq [OF cS(1)] pc by auto
      have "q \<noteq> p" using q(3) b(1) cS(2) by auto
      moreover have "q \<noteq> b" using q(3) False by auto
      ultimately show ?thesis using q zo by (intro bexI [of _ q]) auto
    qed
    show "c + 8 + z' c \<le> d" if d: "d \<in> S - {b}" "c < d" for d
    proof (cases "c = p")
      case True
      have "b \<le> d" using D(11) [OF p(1), of d] d True b(1) by simp
      then have "b < d" using d by auto
      then have "?n \<le> d" using D(11) [OF bS, of d] d by simp
      then show ?thesis using True zp b(1) by simp
    next
      case False
      then show ?thesis using D(11) [OF cS(1), of d] d zo [OF cS(1) False] by simp
    qed
  qed
qed

end
