(* ===== verification/Tlsf_Heap.thy ===== *)
theory Tlsf_Heap
  imports Tlsf_Layout
begin

text \<open>
  The state of the TLSF heap as plain functions (\<open>heap\<close>: block addresses, sizes, flags, and the
  free blocks that are not in the free lists at the moment) and one lemma per operation that
  says what it does to them. No assertion of the source fails on a well-formed heap.
\<close>

section \<open>What leaves the free lists alone\<close>

definition same_index :: "control \<Rightarrow> control \<Rightarrow> bool" where
  "same_index t t' \<longleftrightarrow> fl_bitmap t' = fl_bitmap t \<and> sl_bitmap t' = sl_bitmap t \<and> blocks t' = blocks t \<and>
     block_null t' = block_null t \<and>
     (\<forall>b. prev_free (hdr_at t' b) = prev_free (hdr_at t b) \<and> next_free (hdr_at t' b) = next_free (hdr_at t b))"

lemma same_index_refl [simp]: "same_index t t"
  by (simp add: same_index_def)

lemma same_index_trans: "same_index t t1 \<Longrightarrow> same_index t1 t2 \<Longrightarrow> same_index t t2"
  by (simp add: same_index_def)

lemma same_index_ok: "same_index t t' \<Longrightarrow> index_ok t F \<Longrightarrow> index_ok t' F"
proof -
  assume s: "same_index t t'"
  have "lseg (hdr_at t') p bs q = lseg (hdr_at t) p bs q" for p bs q
    using s by (intro lseg_cong) (simp add: same_index_def)
  with s show "index_ok t F \<Longrightarrow> index_ok t' F"
    by (simp add: index_ok_def index_shape_def class_ok_def same_index_def list_head_def)
qed

lemma same_index_upd [simp]:
  "(\<And>h. prev_free (f h) = prev_free h \<and> next_free (f h) = next_free h) \<Longrightarrow>
   same_index t (upd_hdr b f t') = same_index t t'"
  by (auto simp: same_index_def)

lemma same_index_ops [simp]:
  "same_index t (block_set_free b t') = same_index t t'" "same_index t (block_set_used b t') = same_index t t'"
  "same_index t (block_set_prev_free b t') = same_index t t'"
  "same_index t (block_set_prev_used b t') = same_index t t'"
  "same_index t (block_set_size b s t') = same_index t t'"
  "same_index t (t'\<lparr>blks := S\<rparr>) = same_index t t'"
  by (simp_all add: block_set_free_def block_set_used_def block_set_prev_free_def block_set_prev_used_def
      block_set_size_def) (simp add: same_index_def)

lemma blks_ops [simp]:
  "blks (block_set_free b t) = blks t" "blks (block_set_used b t) = blks t"
  "blks (block_set_prev_free b t) = blks t" "blks (block_set_prev_used b t) = blks t"
  "blks (block_set_size b s t) = blks t"
  by (simp_all add: block_set_free_def block_set_used_def block_set_prev_free_def block_set_prev_used_def
      block_set_size_def)

lemma pp_ops [simp]:
  "pp (block_set_free b t) x = pp t x" "pp (block_set_used b t) x = pp t x"
  "pp (block_set_prev_free b t) x = pp t x" "pp (block_set_prev_used b t) x = pp t x"
  "pp (block_set_size b s t) x = pp t x"
  by (simp_all add: block_set_free_def block_set_used_def block_set_prev_free_def block_set_prev_used_def
      block_set_size_def)

definition set_prev_phys :: "addr \<Rightarrow> addr \<Rightarrow> control \<Rightarrow> control" where
  "set_prev_phys n b t = upd_hdr n (\<lambda>h. h\<lparr>prev_phys_block := b\<rparr>) t"

lemma set_prev_phys_simps [simp]:
  "block_size (set_prev_phys n b t) x = block_size t x"
  "block_is_free (set_prev_phys n b t) x = block_is_free t x"
  "block_is_prev_free (set_prev_phys n b t) x = block_is_prev_free t x"
  "pp (set_prev_phys n b t) x = (if x = n then b else pp t x)"
  "blks (set_prev_phys n b t) = blks t" "same_index t' (set_prev_phys n b t) = same_index t' t"
  by (simp_all add: set_prev_phys_def block_size_def block_flags)

lemma blks_upd_simps [simp]:
  "block_size (t\<lparr>blks := S\<rparr>) x = block_size t x" "block_is_free (t\<lparr>blks := S\<rparr>) x = block_is_free t x"
  "block_is_prev_free (t\<lparr>blks := S\<rparr>) x = block_is_prev_free t x"
  by (simp_all add: block_size_def block_flags)

section \<open>The heap\<close>

definition indexed ::
  "addr set \<Rightarrow> (addr \<Rightarrow> nat) \<Rightarrow> (addr \<Rightarrow> bool) \<Rightarrow> (nat \<Rightarrow> nat \<Rightarrow> addr list) \<Rightarrow> addr set \<Rightarrow> bool" where
  "indexed S z fr F X \<longleftrightarrow> (\<forall>fl<25. \<forall>sl<32. \<forall>b. b \<in> set (F fl sl) \<longleftrightarrow>
     b \<in> S \<and> b \<notin> X \<and> fr b \<and> mapping_insert (of_nat (z b)) = (fl, sl))"

text \<open>The null block of the control structure lies outside every block.\<close>

definition outside :: "addr \<Rightarrow> addr set \<Rightarrow> (addr \<Rightarrow> nat) \<Rightarrow> bool" where
  "outside n S z \<longleftrightarrow> (\<forall>b\<in>S. n < b \<or> b + 8 + z b \<le> n)"

lemma outside_notin: "outside n S z \<Longrightarrow> n \<notin> S"
  by (auto simp: outside_def)

definition heap ::
  "control \<Rightarrow> addr set \<Rightarrow> (addr \<Rightarrow> nat) \<Rightarrow> (addr \<Rightarrow> bool) \<Rightarrow> (addr \<Rightarrow> bool) \<Rightarrow> addr set \<Rightarrow> bool" where
  "heap t S z fr pf X \<longleftrightarrow> blks t = S \<and>
     (\<forall>x\<in>S. zs t x = z x \<and> block_is_free t x = fr x \<and> block_is_prev_free t x = pf x) \<and>
     layout S z fr pf (pp t) \<and> outside (block_null t) S z \<and> (\<exists>F. index_ok t F \<and> indexed S z fr F X)"

lemma heapD:
  assumes "heap t S z fr pf X"
  shows "blks t = S" "x \<in> S \<Longrightarrow> zs t x = z x" "x \<in> S \<Longrightarrow> block_is_free t x = fr x"
    "x \<in> S \<Longrightarrow> block_is_prev_free t x = pf x" "layout S z fr pf (pp t)" "block_null t \<notin> S"
    "outside (block_null t) S z"
  using assms outside_notin by (auto simp: heap_def)

lemma heap_index:
  assumes "heap t S z fr pf X"
  obtains F where "index_ok t F" "indexed S z fr F X"
  using assms by (auto simp: heap_def)

lemma size_word:
  assumes "heap t S z fr pf X" and "x \<in> S"
  shows "block_size t x = of_nat (z x)"
proof -
  have "z x = zs t x" using heapD(2) [OF assms] by simp
  then show ?thesis by simp
qed

text \<open>A step that does not touch the free lists.\<close>

lemma heap_step:
  assumes h: "heap t S z fr pf X" and i: "same_index t t'" and S: "blks t' = S'"
    and f: "\<And>x. x \<in> S' \<Longrightarrow> zs t' x = z' x \<and> block_is_free t' x = fr' x \<and> block_is_prev_free t' x = pf' x"
    and l: "layout S' z' fr' pf' (pp t')" and n: "outside (block_null t) S' z'"
    and X: "\<And>x. x \<in> S' \<and> x \<notin> X' \<and> fr' x \<longleftrightarrow> x \<in> S \<and> x \<notin> X \<and> fr x"
    and z: "\<And>x. x \<in> S' \<Longrightarrow> x \<notin> X' \<Longrightarrow> fr' x \<Longrightarrow> z' x = z x"
  shows "heap t' S' z' fr' pf' X'"
proof -
  obtain F where F: "index_ok t F" "indexed S z fr F X" using h by (rule heap_index)
  have "indexed S' z' fr' F X'"
    unfolding indexed_def
  proof (intro allI impI)
    fix fl sl b assume "fl < (25::nat)" "sl < (32::nat)"
    with F(2) have "b \<in> set (F fl sl) \<longleftrightarrow> b \<in> S \<and> b \<notin> X \<and> fr b \<and> mapping_insert (of_nat (z b)) = (fl, sl)"
      by (simp add: indexed_def)
    then show "b \<in> set (F fl sl) \<longleftrightarrow> b \<in> S' \<and> b \<notin> X' \<and> fr' b \<and> mapping_insert (of_nat (z' b)) = (fl, sl)"
      using X [of b] z [of b] by metis
  qed
  moreover have "block_null t' = block_null t" using i by (simp add: same_index_def)
  ultimately show ?thesis using S f l n same_index_ok [OF i F(1)] by (auto simp: heap_def)
qed

lemma heap_drop:
  assumes "heap t S z fr pf X" and "\<not> fr b"
  shows "heap t S z fr pf (X - {b})"
  by (rule heap_step [OF assms(1) same_index_refl])
    (use assms(2) heapD [OF assms(1)] in auto)

lemma next_addr:
  assumes "24 \<le> zs t b" and "b + 16 + zs t b \<le> 2 ^ 32"
  shows "offset_to_block (block_to_ptr b) (block_size t b - block_header_overhead) = b + 8 + zs t b"
proof -
  have "block_header_overhead \<le> block_size t b"
    using assms(1) by (simp add: block_header_overhead_def word_le_nat_alt)
  then have "unat (block_size t b - block_header_overhead) = zs t b - 8"
    by (simp add: unat_sub block_header_overhead_def)
  then show ?thesis
    using assms by (simp add: offset_to_block_def block_to_ptr_def block_start_offset_def unat_word_ariths unat_of_nat)
qed

lemma block_next_heap:
  assumes h: "heap t S z fr pf X" and b: "b \<in> S" "z b \<noteq> 0"
  shows "block_next t b = Some (b + 8 + z b)" "\<not> block_is_last t b"
proof -
  note l = layoutD [OF heapD(5) [OF h] b(1)]
  have z: "zs t b = z b" by (rule heapD(2) [OF h b(1)])
  show nl: "\<not> block_is_last t b" using z b(2) by (auto simp: block_is_last_def)
  show "block_next t b = Some (b + 8 + z b)"
    using next_addr [of t b] l(3) l(5) [OF b(2)] nl z by (simp add: block_next_def tlsf_assert_def)
qed

lemma block_link_next_heap:
  assumes "heap t S z fr pf X" and "b \<in> S" "z b \<noteq> 0"
  shows "block_link_next b t = Some (b + 8 + z b, set_prev_phys (b + 8 + z b) b t)"
  using block_next_heap [OF assms] by (simp add: block_link_next_def set_prev_phys_def)

section \<open>Marking\<close>

lemma mark_free_heap:
  assumes h: "heap t S z fr pf X" and b: "b \<in> S" "z b \<noteq> 0" "\<not> fr b"
  shows "\<exists>t'. block_mark_as_free b t = Some t' \<and>
    heap t' S z (fr(b := True)) (pf(b + 8 + z b := True)) (insert b X)"
proof -
  let ?n = "b + 8 + z b"
  let ?t = "block_set_free b (block_set_prev_free ?n (set_prev_phys ?n b t))"
  have "block_mark_as_free b t = Some ?t"
    using block_link_next_heap [OF h b(1,2)] by (simp add: block_mark_as_free_def)
  moreover have "heap ?t S z (fr(b := True)) (pf(?n := True)) (insert b X)"
  proof (rule heap_step [OF h])
    show "layout S z (fr(b := True)) (pf(?n := True)) (pp ?t)"
      by (rule layout_mark [OF heapD(5) [OF h] b(1,2), where f = True]) auto
    fix x assume x: "x \<in> S"
    show "zs ?t x = z x \<and> block_is_free ?t x = (fr(b := True)) x \<and>
        block_is_prev_free ?t x = (pf(?n := True)) x"
      using heapD(2-4) [OF h x] by simp
  qed (use h b in \<open>auto simp: heapD\<close>)
  ultimately show ?thesis by blast
qed

lemma mark_used_heap:
  assumes h: "heap t S z fr pf X" and b: "b \<in> S" "z b \<noteq> 0" "b \<in> X"
  shows "\<exists>t'. block_mark_as_used b t = Some t' \<and>
    heap t' S z (fr(b := False)) (pf(b + 8 + z b := False)) (X - {b})"
proof -
  let ?n = "b + 8 + z b"
  let ?t = "block_set_used b (block_set_prev_used ?n t)"
  have "block_mark_as_used b t = Some ?t"
    using block_next_heap [OF h b(1,2)] by (simp add: block_mark_as_used_def)
  moreover have "heap ?t S z (fr(b := False)) (pf(?n := False)) (X - {b})"
  proof (rule heap_step [OF h])
    show "layout S z (fr(b := False)) (pf(?n := False)) (pp ?t)"
      by (rule layout_mark [OF heapD(5) [OF h] b(1,2), where f = False]) auto
    fix x assume x: "x \<in> S"
    show "zs ?t x = z x \<and> block_is_free ?t x = (fr(b := False)) x \<and>
        block_is_prev_free ?t x = (pf(?n := False)) x"
      using heapD(2-4) [OF h x] by simp
  qed (use h b in \<open>auto simp: heapD\<close>)
  ultimately show ?thesis by blast
qed


section \<open>In and out of the free lists\<close>

lemma same_physD:
  assumes "same_phys t t'"
  shows "block_null t' = block_null t" "blks t' = blks t" "block_size t' x = block_size t x"
    "block_is_free t' x = block_is_free t x" "block_is_prev_free t' x = block_is_prev_free t x"
    "pp t' x = pp t x"
  using assms by (simp_all add: same_phys_def block_size_def block_flags)

lemma heap_reindex:
  assumes h: "heap t S z fr pf X" and p: "same_phys t t'" and F: "index_ok t' F" "indexed S z fr F X'"
  shows "heap t' S z fr pf X'"
proof -
  have "layout S z fr pf (pp t')"
    by (rule layout_cong [OF heapD(5) [OF h]]) (simp add: same_physD [OF p])
  with h F show ?thesis by (auto simp: heap_def same_physD [OF p])
qed

lemma class_range:
  assumes h: "heap t S z fr pf X" and b: "b \<in> S" and c: "mapping_insert (of_nat (z b)) = (fl, sl)"
  shows "fl < 25" "sl < 32"
proof -
  have "b + 16 + z b \<le> 2 ^ 32" using layoutD(3) [OF heapD(5) [OF h] b] .
  then have "unat (of_nat (z b) :: size_t) < 2 ^ 32" by (simp add: unat_of_nat)
  with mapping_class [OF c] show "fl < 25" "sl < 32" by blast+
qed

lemma remove_heap_at:
  assumes h: "heap t S z fr pf X" and F: "index_ok t F" "indexed S z fr F X"
    and c: "fl < 25" "sl < 32" and b: "b \<in> set (F fl sl)"
  shows "\<exists>t'. remove_free_block b fl sl t = Some t' \<and> heap t' S z fr pf (insert b X)"
proof -
  from remove_free_block_ok [OF F(1) c b] obtain t' where t': "remove_free_block b fl sl t = Some t'"
    "index_ok t' (upd_class F fl sl (remove1 b (F fl sl)))" "same_phys t t'" by blast
  have d: "distinct (F fl sl)" using index_okD(2) [OF F(1) c] by (simp add: class_ok_def)
  have u: "b \<notin> set (F k l)" if "k < 25" "l < 32" "(k, l) \<noteq> (fl, sl)" for k l
    using index_okD(5) [OF F(1) c that(1,2)] b that(3) by auto
  have "indexed S z fr (upd_class F fl sl (remove1 b (F fl sl))) (insert b X)"
    unfolding indexed_def
  proof (intro allI impI)
    fix k l x assume kl: "k < (25::nat)" "l < (32::nat)"
    have "x \<in> set (F k l) \<longleftrightarrow> x \<in> S \<and> x \<notin> X \<and> fr x \<and> mapping_insert (of_nat (z x)) = (k, l)"
      using F(2) kl by (simp add: indexed_def)
    then show "x \<in> set (upd_class F fl sl (remove1 b (F fl sl)) k l) \<longleftrightarrow>
        x \<in> S \<and> x \<notin> insert b X \<and> fr x \<and> mapping_insert (of_nat (z x)) = (k, l)"
      using u [OF kl] d by auto
  qed
  with heap_reindex [OF h t'(3,2)] t'(1) show ?thesis by blast
qed

lemma block_remove_heap:
  assumes h: "heap t S z fr pf X" and b: "b \<in> S" "b \<notin> X" "fr b"
  shows "\<exists>t'. block_remove b t = Some t' \<and> heap t' S z fr pf (insert b X)"
proof -
  obtain F where F: "index_ok t F" "indexed S z fr F X" using h by (rule heap_index)
  obtain fl sl where c: "mapping_insert (of_nat (z b)) = (fl, sl)" by fastforce
  note r = class_range [OF h b(1) c]
  have "b \<in> set (F fl sl)" using F(2) r b c by (simp add: indexed_def)
  from remove_heap_at [OF h F r this] show ?thesis by (simp add: block_remove_def size_word [OF h b(1)] c)
qed

lemma aligned_block_ptr:
  assumes "8 dvd b" and "b + 16 \<le> 2 ^ 32"
  shows "block_to_ptr b = align_ptr (block_to_ptr b) 8"
proof -
  have m: "NOT (8 - 1) = NOT (mask 3 :: size_t)" by (simp add: mask_eq_exp_minus_1)
  have u: "unat (of_nat (b + 16) + (8 - 1) :: size_t) = b + 23"
    using assms(2) by (simp add: unat_word_ariths unat_of_nat)
  have "(b + 23) div 8 * 8 = b + 16" using assms(1) by presburger
  then show ?thesis
    unfolding align_ptr_def m unat_and_not_mask block_to_ptr_def block_start_offset_def u by simp
qed

lemma block_insert_heap:
  assumes h: "heap t S z fr pf X" and b: "b \<in> S" "b \<in> X" "fr b"
  shows "\<exists>t'. block_insert b t = Some t' \<and> heap t' S z fr pf (X - {b})"
proof -
  obtain F where F: "index_ok t F" "indexed S z fr F X" using h by (rule heap_index)
  obtain fl sl where c: "mapping_insert (of_nat (z b)) = (fl, sl)" by fastforce
  note r = class_range [OF h b(1) c]
  note l = layoutD [OF heapD(5) [OF h] b(1)]
  have "b \<notin> set (F k l)" if "k < 25" "l < 32" for k l using F(2) that b(2) by (simp add: indexed_def)
  moreover have "b \<noteq> 0" "b \<noteq> block_null t" using l(1) heapD(6) [OF h] b(1) by auto
  moreover have "block_to_ptr b = align_ptr (block_to_ptr b) 8"
    using l(2,3) by (intro aligned_block_ptr) simp_all
  ultimately obtain t' where t': "insert_free_block b fl sl t = Some t'"
    "index_ok t' (upd_class F fl sl (b # F fl sl))" "same_phys t t'"
    using insert_free_block_ok [OF F(1) r, of b] by blast
  have "indexed S z fr (upd_class F fl sl (b # F fl sl)) (X - {b})"
    unfolding indexed_def
  proof (intro allI impI)
    fix k l x assume kl: "k < (25::nat)" "l < (32::nat)"
    have "x \<in> set (F k l) \<longleftrightarrow> x \<in> S \<and> x \<notin> X \<and> fr x \<and> mapping_insert (of_nat (z x)) = (k, l)"
      using F(2) kl by (simp add: indexed_def)
    then show "x \<in> set (upd_class F fl sl (b # F fl sl) k l) \<longleftrightarrow>
        x \<in> S \<and> x \<notin> X - {b} \<and> fr x \<and> mapping_insert (of_nat (z x)) = (k, l)"
      using b c by auto
  qed
  with heap_reindex [OF h t'(3,2)] t'(1) show ?thesis by (auto simp: block_insert_def size_word [OF h b(1)] c)
qed

section \<open>Splitting\<close>

lemma offset_addr:
  assumes "8 \<le> k" and "b + 16 + k \<le> 2 ^ 32"
  shows "offset_to_block (block_to_ptr b) (of_nat k - block_header_overhead) = b + 8 + k"
proof -
  have u: "unat (of_nat k :: size_t) = k" using assms(2) by (simp add: unat_of_nat)
  have "block_header_overhead \<le> of_nat k"
    using assms(1) u by (simp add: block_header_overhead_def word_le_nat_alt)
  then have "unat (of_nat k - block_header_overhead) = k - 8"
    by (simp add: unat_sub u block_header_overhead_def)
  then show ?thesis
    using assms by (simp add: offset_to_block_def block_to_ptr_def block_start_offset_def unat_word_ariths unat_of_nat)
qed

definition split_state :: "addr \<Rightarrow> nat \<Rightarrow> control \<Rightarrow> control" where
  "split_state b k t =
     (let r = b + 8 + k; n = b + 8 + zs t b;
          t2 = block_set_size b (of_nat k) (block_set_size r (of_nat (zs t b - k - 8)) t)
      in (block_set_free r (block_set_prev_free n (set_prev_phys n r t2)))\<lparr>blks := insert r (blks t)\<rparr>)"

lemma block_split_eq:
  assumes z: "zs t b = m + k + 8" and k: "24 \<le> k" "8 dvd k" "24 \<le> m" "8 dvd m"
    and b: "8 dvd b" "b + 24 + k + m \<le> 2 ^ 32"
  shows "block_split b (of_nat k) t = Some (b + 8 + k, split_state b k t)"
proof -
  let ?r = "b + 8 + k"
  have "block_size t b = of_nat (m + k + 8)" unfolding z [symmetric] by simp
  then have w: "block_size t b = of_nat m + of_nat k + 8" by simp
  have u: "unat (of_nat k :: size_t) = k" "unat (of_nat m :: size_t) = m"
    using b(2) by (simp_all add: unat_of_nat)
  have r: "offset_to_block (block_to_ptr b) (of_nat k - block_header_overhead) = ?r"
    using k b(2) by (intro offset_addr) simp_all
  have m: "block_size t b - (of_nat k + block_header_overhead) = of_nat m"
    "block_size t b = of_nat m + of_nat k + block_header_overhead"
    by (simp_all add: w block_header_overhead_def)
  have al: "block_to_ptr ?r = align_ptr (block_to_ptr ?r) 8"
    using b k by (intro aligned_block_ptr) simp_all
  have dm: "4 dvd unat (of_nat m :: size_t)"
    unfolding u using k(4) dvd_trans [of 4 8 m] by simp
  let ?t1 = "block_set_size ?r (of_nat m) t"
  have s1: "block_size ?t1 ?r = of_nat m" using aligned_bits(1) [OF dm] by simp
  have ge: "block_size_min \<le> block_size ?t1 ?r"
    using k u unfolding s1 by (simp add: block_size_min_def word_le_nat_alt)
  let ?t2 = "block_set_size b (of_nat k) ?t1"
  have s2: "block_size ?t2 ?r = of_nat m" "zs ?t2 ?r = m" using s1 u by simp_all
  have "offset_to_block (block_to_ptr ?r) (block_size ?t2 ?r - block_header_overhead) = ?r + 8 + m"
    using next_addr [of ?t2 ?r] k b(2) unfolding s2(2) by simp
  moreover have "\<not> block_is_last ?t2 ?r" using k s2 u by (auto simp: block_is_last_def)
  ultimately have nx: "block_next ?t2 ?r = Some (?r + 8 + m)"
    by (simp add: block_next_def tlsf_assert_def)
  have n: "b + 8 + zs t b = ?r + 8 + m" "zs t b - k - 8 = m" using z by simp_all
  have mk: "block_mark_as_free ?r ?t2 =
      Some (block_set_free ?r (block_set_prev_free (?r + 8 + m) (set_prev_phys (?r + 8 + m) ?r ?t2)))"
    using nx by (simp add: block_mark_as_free_def block_link_next_def set_prev_phys_def)
  show ?thesis
    unfolding block_split_def Let_def r m(1) split_state_def n
    using al ge mk m(2) by (simp add: tlsf_assert_def)
qed

lemma split_state_simps:
  assumes z: "zs t b = m + k + 8" and k: "8 dvd k" "8 dvd m" "0 < k" and b: "b + 24 + k + m \<le> 2 ^ 32"
  shows "zs (split_state b k t) x = (if x = b then k else if x = b + 8 + k then m else zs t x)"
    "block_is_free (split_state b k t) x = (x = b + 8 + k \<or> block_is_free t x)"
    "block_is_prev_free (split_state b k t) x = (x = b + 8 + zs t b \<or> block_is_prev_free t x)"
    "pp (split_state b k t) x = (if x = b + 8 + zs t b then b + 8 + k else pp t x)"
    "blks (split_state b k t) = insert (b + 8 + k) (blks t)" "same_index t (split_state b k t)"
proof -
  have u: "unat (of_nat k :: size_t) = k" "unat (of_nat m :: size_t) = m" "zs t b - k - 8 = m"
    using z b by (simp_all add: unat_of_nat)
  have "4 dvd unat (of_nat m :: size_t)" "4 dvd unat (of_nat k :: size_t)"
    unfolding u using k(1,2) dvd_trans [of 4 8 k] dvd_trans [of 4 8 m] by simp_all
  note a = aligned_bits [OF this(1)] aligned_bits [OF this(2)]
  show "zs (split_state b k t) x = (if x = b then k else if x = b + 8 + k then m else zs t x)"
    "block_is_free (split_state b k t) x = (x = b + 8 + k \<or> block_is_free t x)"
    "block_is_prev_free (split_state b k t) x = (x = b + 8 + zs t b \<or> block_is_prev_free t x)"
    "pp (split_state b k t) x = (if x = b + 8 + zs t b then b + 8 + k else pp t x)"
    "blks (split_state b k t) = insert (b + 8 + k) (blks t)" "same_index t (split_state b k t)"
    using a u by (simp_all add: split_state_def Let_def)
qed

text \<open>
  After \<open>block_split\<close> the caller sets the flag and the link of the rest: the steps together.
\<close>

lemma split_heap:
  assumes h: "heap t S z fr pf X" and b: "b \<in> S" "fr b \<longrightarrow> b \<in> X"
    and k: "24 \<le> k" "8 dvd k" "k + 32 \<le> z b"
    and fix': "t' = (if fr b then block_set_prev_free (b + 8 + k) (set_prev_phys (b + 8 + k) b (split_state b k t))
                else block_set_prev_used (b + 8 + k) (split_state b k t))"
  shows "block_split b (of_nat k) t = Some (b + 8 + k, split_state b k t)"
    "b + 8 + k \<notin> S"
    "heap t' (insert (b + 8 + k) S) (z(b := k, b + 8 + k := z b - k - 8))
       (fr(b + 8 + k := True)) (pf(b + 8 + z b := True, b + 8 + k := fr b)) (insert (b + 8 + k) X)"
proof -
  let ?r = "b + 8 + k"
  note l = heapD(5) [OF h]
  have zb: "z b \<noteq> 0" using k by simp
  note D = layoutD(1-3) [OF l b(1)] layoutD(5-7) [OF l b(1) zb]
  define m where "m = z b - k - 8"
  have m: "z b = m + k + 8" "24 \<le> m" "8 dvd m"
    using k D(5) by (auto simp: m_def intro: dvd_diff_nat)
  have zt: "zs t b = m + k + 8" using heapD(2) [OF h b(1)] m by simp
  have bound: "b + 24 + k + m \<le> 2 ^ 32" using D(3) m by simp
  show "block_split b (of_nat k) t = Some (?r, split_state b k t)"
    using block_split_eq [OF zt k(1,2) m(2,3) D(2) bound] .
  have k0: "0 < k" using k by simp
  note ss = split_state_simps [OF zt k(2) m(3) k0 bound]
  have nr: "b + 8 + zs t b = ?r + 8 + m" "b + 8 + z b = ?r + 8 + m" using zt m by simp_all
  have rS: "?r \<notin> S" using layout_no_inner [OF l b(1)] k by simp
  then show "?r \<notin> S" .
  have lay: "layout (insert ?r S) (z(b := k, ?r := z b - k - 8)) (fr(?r := True))
      (pf(b + 8 + z b := True, ?r := fr b)) (pp t')"
    using layout_split(1) [OF l b(1) k, of "z(b := k, ?r := z b - k - 8)" "fr(?r := True)"
        "pf(b + 8 + z b := True, ?r := fr b)" "pp t'"] rS m
    by (auto simp: fix' ss nr)
  show "heap t' (insert ?r S) (z(b := k, ?r := z b - k - 8))
      (fr(?r := True)) (pf(b + 8 + z b := True, ?r := fr b)) (insert ?r X)"
  proof (rule heap_step [OF h _ _ _ lay])
    show "same_index t t'" "blks t' = insert ?r S" using ss heapD(1) [OF h] by (simp_all add: fix')
    show "outside (block_null t) (insert ?r S) (z(b := k, ?r := z b - k - 8))"
      using heapD(7) [OF h] b(1) m rS unfolding outside_def by (auto dest!: bspec)
  next
    fix x assume "x \<in> insert ?r S"
    then show "zs t' x = (z(b := k, ?r := z b - k - 8)) x \<and> block_is_free t' x = (fr(?r := True)) x \<and>
        block_is_prev_free t' x = (pf(b + 8 + z b := True, ?r := fr b)) x"
      using heapD(2-4) [OF h, of x] m rS by (auto simp: fix' ss nr)
  qed (use rS b in auto)
qed


section \<open>Absorbing and merging\<close>

definition absorb_state :: "addr \<Rightarrow> addr \<Rightarrow> control \<Rightarrow> control" where
  "absorb_state p b t =
     (set_prev_phys (b + 8 + zs t b) p
        (upd_hdr p (\<lambda>h. h\<lparr>size_field := size_field h + (block_size t b + block_header_overhead)\<rparr>) t))
     \<lparr>blks := blks t - {b}\<rparr>"

lemma absorb_upd:
  assumes "zs t p + zs t b + 16 \<le> 2 ^ 32"
  defines "t1 \<equiv> upd_hdr p (\<lambda>h. h\<lparr>size_field := size_field h + (block_size t b + block_header_overhead)\<rparr>) t"
  shows "zs t1 x = (if x = p then zs t p + (zs t b + 8) else zs t x)"
    "block_is_free t1 x = block_is_free t x" "block_is_prev_free t1 x = block_is_prev_free t x"
    "pp t1 x = pp t x" "same_index t t1" "blks t1 = blks t"
proof -
  have u: "unat (block_size t b + block_header_overhead) = zs t b + 8"
    using assms(1) by (simp add: block_header_overhead_def unat_word_ariths)
  have "4 dvd unat (block_size t b + block_header_overhead)"
    unfolding u using zs_dvd_4 [of t b] by simp
  note a = size_field_add [OF this, of "size_field (hdr_at t p)"]
  have f: "unat (size_field (hdr_at t p) AND NOT block_header_bits) = zs t p"
    by (simp add: block_size_def)
  have g: "unat (size_field (hdr_at t p) AND NOT block_header_bits) +
      unat (block_size t b + block_header_overhead) + 4 \<le> 2 ^ 64"
    unfolding u f using assms(1) by simp
  show "zs t1 x = (if x = p then zs t p + (zs t b + 8) else zs t x)"
    using a(1) [OF g] u by (simp add: t1_def block_size_def)
  show "block_is_free t1 x = block_is_free t x" "block_is_prev_free t1 x = block_is_prev_free t x"
    using a(2,3) [OF g] by (simp_all add: t1_def block_flags)
  show "pp t1 x = pp t x" "same_index t t1" "blks t1 = blks t" by (simp_all add: t1_def)
qed

lemma absorb_state_simps:
  assumes "zs t p + zs t b + 16 \<le> 2 ^ 32"
  shows "zs (absorb_state p b t) x = (if x = p then zs t p + (zs t b + 8) else zs t x)"
    "block_is_free (absorb_state p b t) x = block_is_free t x"
    "block_is_prev_free (absorb_state p b t) x = block_is_prev_free t x"
    "pp (absorb_state p b t) x = (if x = b + 8 + zs t b then p else pp t x)"
    "same_index t (absorb_state p b t)" "blks (absorb_state p b t) = blks t - {b}"
  using absorb_upd [OF assms] by (simp_all add: absorb_state_def)

lemma absorb_eq:
  assumes h: "heap t S z fr pf X" and p: "p \<in> S" "z p \<noteq> 0" and b: "p + 8 + z p = b" "z b \<noteq> 0"
  shows "block_absorb p b t = Some (p, absorb_state p b t)" "b \<in> S" "zs t p + zs t b + 16 \<le> 2 ^ 32"
    "block_next (absorb_state p b t) p = Some (b + 8 + z b)"
proof -
  note l = heapD(5) [OF h]
  show bS: "b \<in> S" using layoutD(7) [OF l p] b(1) by simp
  have z: "zs t p = z p" "zs t b = z b" using heapD(2) [OF h] p(1) bS by simp_all
  have bd: "b + 16 + z b \<le> 2 ^ 32" using layoutD(3) [OF l bS] .
  with b(1) z show bound: "zs t p + zs t b + 16 \<le> 2 ^ 32" by simp
  let ?t1 = "upd_hdr p (\<lambda>h. h\<lparr>size_field := size_field h + (block_size t b + block_header_overhead)\<rparr>) t"
  have z1: "zs ?t1 p = z p + (z b + 8)" using absorb_upd(1) [OF bound, of p] z by simp
  have e: "p + 8 + (z p + (z b + 8)) = b + 8 + z b" using b(1) by simp
  have g: "24 \<le> z p" using layoutD(5) [OF l p] .
  have nx: "block_next t2 p = Some (b + 8 + z b)" if z2: "zs t2 p = z p + (z b + 8)" for t2
  proof -
    have "\<not> block_is_last t2 p" using z2 by (auto simp: block_is_last_def)
    then show ?thesis
      using next_addr [of t2 p] bd b(1) g unfolding z2 e by (simp add: block_next_def tlsf_assert_def)
  qed
  have "block_link_next p ?t1 = Some (b + 8 + z b, set_prev_phys (b + 8 + z b) p ?t1)"
    using nx [OF z1] by (simp add: block_link_next_def set_prev_phys_def)
  then show "block_absorb p b t = Some (p, absorb_state p b t)"
    using block_next_heap(2) [OF h p] absorb_upd(6) [OF bound]
    by (simp add: block_absorb_def absorb_state_def tlsf_assert_def z set_prev_phys_def)
  show "block_next (absorb_state p b t) p = Some (b + 8 + z b)"
    using absorb_state_simps(1) [OF bound, of p] z by (intro nx) simp
qed

lemma outside_absorb:
  assumes "outside n S z" "p \<in> S" "b \<in> S" "p + 8 + z p = b"
  shows "outside n (S - {b}) (z(p := z p + (z b + 8)))"
proof -
  have "n < p \<or> b + 8 + z b \<le> n"
    using bspec [OF assms(1) [unfolded outside_def] assms(2)] bspec [OF assms(1) [unfolded outside_def] assms(3)]
      assms(4) by auto
  with assms show ?thesis by (auto simp: outside_def)
qed

text \<open>Both blocks free and out of the lists.\<close>

lemma absorb_free_heap:
  assumes h: "heap t S z fr pf X" and p: "p \<in> S" "z p \<noteq> 0" "p \<in> X" "fr p"
    and b: "p + 8 + z p = b" "z b \<noteq> 0" "b \<in> X" "fr b"
  shows "heap (absorb_state p b t) (S - {b}) (z(p := z p + (z b + 8))) fr pf X"
proof -
  note l = heapD(5) [OF h]
  note a = absorb_eq [OF h p(1,2) b(1,2)]
  note s = absorb_state_simps [OF a(3)]
  have z: "zs t p = z p" "zs t b = z b" using heapD(2) [OF h] p(1) a(2) by simp_all
  have pn: "pf (b + 8 + z b)" using layoutD(8) [OF l a(2) b(2)] b(4) by simp
  have lay: "layout (S - {b}) (z(p := z p + (z b + 8))) fr pf (pp (absorb_state p b t))"
    by (rule layout_absorb [OF l p(1,2) b(1,2), where f = True]) (use p(4) b(1) in \<open>auto simp: s z pn\<close>)
  show ?thesis
  proof (rule heap_step [OF h s(5) _ _ lay])
    show "blks (absorb_state p b t) = S - {b}" using s heapD(1) [OF h] by simp
    show "outside (block_null t) (S - {b}) (z(p := z p + (z b + 8)))"
      using outside_absorb [OF heapD(7) [OF h] p(1) a(2) b(1)] .
  next
    fix x assume "x \<in> S - {b}"
    then show "zs (absorb_state p b t) x = (z(p := z p + (z b + 8))) x \<and>
        block_is_free (absorb_state p b t) x = fr x \<and> block_is_prev_free (absorb_state p b t) x = pf x"
      using heapD(2-4) [OF h, of x] by (simp add: s z)
  qed (use p b in auto)
qed

text \<open>A used block grows into its free successor and is marked as used again.\<close>

lemma absorb_used_heap:
  assumes h: "heap t S z fr pf X" and p: "p \<in> S" "z p \<noteq> 0" "\<not> fr p"
    and b: "p + 8 + z p = b" "z b \<noteq> 0" "b \<in> X"
  shows "\<exists>t'. block_mark_as_used p (absorb_state p b t) = Some t' \<and>
    heap t' (S - {b}) (z(p := z p + (z b + 8))) fr (pf(b + 8 + z b := False)) X"
proof -
  note l = heapD(5) [OF h]
  note a = absorb_eq [OF h p(1,2) b(1,2)]
  note s = absorb_state_simps [OF a(3)]
  have z: "zs t p = z p" "zs t b = z b" using heapD(2) [OF h] p(1) a(2) by simp_all
  let ?t = "block_set_used p (block_set_prev_used (b + 8 + z b) (absorb_state p b t))"
  have lay: "layout (S - {b}) (z(p := z p + (z b + 8))) fr (pf(b + 8 + z b := False)) (pp ?t)"
    by (rule layout_absorb [OF l p(1,2) b(1,2), where f = False]) (auto simp: s z p(3))
  have "heap ?t (S - {b}) (z(p := z p + (z b + 8))) fr (pf(b + 8 + z b := False)) X"
  proof (rule heap_step [OF h _ _ _ lay])
    show "same_index t ?t" using s by simp
    show "blks ?t = S - {b}" using s heapD(1) [OF h] by simp
    show "outside (block_null t) (S - {b}) (z(p := z p + (z b + 8)))"
      using outside_absorb [OF heapD(7) [OF h] p(1) a(2) b(1)] .
  next
    fix x assume "x \<in> S - {b}"
    then show "zs ?t x = (z(p := z p + (z b + 8))) x \<and> block_is_free ?t x = fr x \<and>
        block_is_prev_free ?t x = (pf(b + 8 + z b := False)) x"
      using heapD(2-4) [OF h, of x] p(3) by (auto simp: s z)
  qed (use p b in auto)
  then show ?thesis using a(4) by (simp add: block_mark_as_used_def)
qed

lemma merge_next_heap:
  assumes h: "heap t S z fr pf X" and b: "b \<in> S" "z b \<noteq> 0" "b \<in> X" "fr b"
    and nX: "b + 8 + z b \<notin> X"
  defines "n \<equiv> b + 8 + z b"
  shows "\<exists>t' S' z'. block_merge_next b t = Some (b, t') \<and> heap t' S' z' fr pf (X \<union> {x. fr n \<and> x = n}) \<and>
    S' = (if fr n then S - {n} else S) \<and> z' = (if fr n then z(b := z b + (z n + 8)) else z)"
proof -
  note l = heapD(5) [OF h]
  have nS: "n \<in> S" using layoutD(7) [OF l b(1,2)] by (simp add: n_def)
  note bn = block_next_heap [OF h b(1,2)]
  have n0: "n \<noteq> 0" by (simp add: n_def)
  have fn: "block_is_free t n = fr n" using heapD(3) [OF h nS] .
  show ?thesis
  proof (cases "fr n")
    case False
    with bn n0 fn h show ?thesis by (simp add: block_merge_next_def tlsf_assert_def n_def)
  next
    case True
    obtain t1 where t1: "block_remove n t = Some t1" "heap t1 S z fr pf (insert n X)"
      using block_remove_heap [OF h nS] nX True by (auto simp: n_def)
    have zn: "z n \<noteq> 0" using layoutD(4) [OF l nS] True by auto
    have bX: "b \<in> insert n X" "n \<in> insert n X" using b(3) by auto
    have e: "b + 8 + z b = n" by (simp add: n_def)
    note ae = absorb_eq [OF t1(2) b(1,2) e zn]
    have "block_merge_next b t = Some (b, absorb_state b n t1)"
      using bn n0 fn True t1(1) ae(1) by (simp add: block_merge_next_def tlsf_assert_def n_def)
    moreover have "heap (absorb_state b n t1) (S - {n}) (z(b := z b + (z n + 8))) fr pf (insert n X)"
      using absorb_free_heap [OF t1(2) b(1,2) bX(1) b(4) e zn bX(2) True] .
    moreover have "X \<union> {x. fr n \<and> x = n} = insert n X" using True by auto
    ultimately show ?thesis using True by simp
  qed
qed

end
