(* ===== verification/Tlsf_Correct.thy ===== *)
theory Tlsf_Correct
  imports Tlsf_Heap
begin

text \<open>
  The interface of TLSF on well-formed heaps: no assertion fails, the heap stays well formed and
  coalesced, and the used blocks change as the call promises.
\<close>

section \<open>Well-formed heaps and used blocks\<close>

definition coalesced :: "addr set \<Rightarrow> (addr \<Rightarrow> bool) \<Rightarrow> (addr \<Rightarrow> bool) \<Rightarrow> bool" where
  "coalesced S fr pf \<longleftrightarrow> (\<forall>x\<in>S. \<not> (fr x \<and> pf x))"

definition used_blocks :: "addr set \<Rightarrow> (addr \<Rightarrow> nat) \<Rightarrow> (addr \<Rightarrow> bool) \<Rightarrow> addr \<rightharpoonup> nat" where
  "used_blocks S z fr x = (if x \<in> S \<and> z x \<noteq> 0 \<and> \<not> fr x then Some (z x) else None)"

definition tlsf_wf :: "control \<Rightarrow> bool" where
  "tlsf_wf t \<longleftrightarrow> (\<exists>S z fr pf. heap t S z fr pf {} \<and> coalesced S fr pf)"

definition tlsf_used :: "control \<Rightarrow> addr \<rightharpoonup> nat" where
  "tlsf_used t = used_blocks (blks t) (zs t) (block_is_free t)"

lemma tlsf_used_heap: "heap t S z fr pf X \<Longrightarrow> tlsf_used t = used_blocks S z fr"
  by (rule ext) (auto simp: tlsf_used_def used_blocks_def heapD)

lemma tlsf_wfI: "heap t S z fr pf {} \<Longrightarrow> coalesced S fr pf \<Longrightarrow> tlsf_wf t"
  unfolding tlsf_wf_def by blast

lemma heap_settled:
  assumes h: "heap t S z fr pf X" and X: "\<And>x. x \<in> X \<Longrightarrow> x \<in> S \<Longrightarrow> \<not> fr x"
  shows "heap t S z fr pf {}"
  by (rule heap_step [OF h same_index_refl]) (use X heapD [OF h] in auto)

lemma tlsf_used_SomeD:
  assumes "tlsf_wf t" and "tlsf_used t b = Some s"
  obtains S z fr pf where "heap t S z fr pf {}" "coalesced S fr pf" "b \<in> S" "z b \<noteq> 0" "\<not> fr b" "z b = s"
proof -
  from assms(1) obtain S z fr pf where h: "heap t S z fr pf {}" "coalesced S fr pf"
    unfolding tlsf_wf_def by blast
  with assms(2) that [OF h] show thesis by (auto simp: tlsf_used_heap [OF h(1)] used_blocks_def split: if_splits)
qed

section \<open>Allocating\<close>

definition tlsf_limit :: nat where "tlsf_limit = 0xFC000000"

lemma can_split_iff:
  assumes h: "heap t S z fr pf X" and b: "b \<in> S" and k: "k < 2 ^ 33"
  shows "block_can_split t b (of_nat k) \<longleftrightarrow> k + 32 \<le> z b"
proof -
  have u: "unat (of_nat k :: size_t) = k" using k by (simp add: unat_of_nat)
  then have "unat (32 + of_nat k :: size_t) = 32 + k" using k by (simp add: unat_word_ariths)
  then show ?thesis using heapD(2) [OF h b] by (simp add: block_can_split_def word_le_nat_alt add.commute)
qed

lemma trim_free_heap:
  assumes h: "heap t S z fr pf {b}" and b: "b \<in> S" "fr b" and k: "24 \<le> k" "8 dvd k" "k \<le> z b"
  shows "\<exists>t' S' z' fr' pf'. block_trim_free b (of_nat k) t = Some t' \<and> heap t' S' z' fr' pf' {b} \<and>
    b \<in> S' \<and> z' b = (if k + 32 \<le> z b then k else z b) \<and>
    used_blocks S' z' (fr'(b := False)) = (used_blocks S z fr)(b \<mapsto> z' b) \<and>
    (coalesced S fr pf \<longrightarrow> coalesced S' (fr'(b := False)) (pf'(b + 8 + z' b := False)))"
proof -
  have fb: "block_is_free t b" using heapD(3) [OF h b(1)] b(2) by simp
  have bd: "b + 16 + z b \<le> 2 ^ 32" using layoutD(3) [OF heapD(5) [OF h] b(1)] .
  have cs: "block_can_split t b (of_nat k) \<longleftrightarrow> k + 32 \<le> z b"
    using can_split_iff [OF h b(1), of k] k bd by simp
  show ?thesis
  proof (cases "k + 32 \<le> z b")
    case False
    have "used_blocks S z (fr(b := False)) = (used_blocks S z fr)(b \<mapsto> z b)"
      using b k by (auto simp: used_blocks_def fun_eq_iff)
    with False fb cs h b show ?thesis
      by (intro exI [of _ t] exI [of _ S] exI [of _ z] exI [of _ fr] exI [of _ pf])
        (auto simp: block_trim_free_def tlsf_assert_def coalesced_def)
  next
    case True
    let ?r = "b + 8 + k" and ?n = "b + 8 + z b"
    let ?t1 = "split_state b k t"
    let ?t2 = "block_set_prev_free ?r (set_prev_phys ?r b ?t1)"
    note sp = split_heap [OF h b(1) _ k(1,2) True, of ?t2]
    have s: "block_split b (of_nat k) t = Some (?r, ?t1)" "?r \<notin> S"
      "heap ?t2 (insert ?r S) (z(b := k, ?r := z b - k - 8)) (fr(?r := True)) (pf(?n := True, ?r := True)) {?r, b}"
      using sp b by simp_all
    have "zs ?t2 b = k" using heapD(2) [OF s(3), of b] b(1) k(1) by simp
    then have zb: "zs ?t1 b = k" by simp
    have "\<not> block_is_last ?t1 b" using zb k(1) by (auto simp: block_is_last_def)
    then have nx: "block_link_next b ?t1 = Some (?r, set_prev_phys ?r b ?t1)"
      using next_addr [of ?t1 b] zb k bd True
      by (simp add: block_link_next_def block_next_def tlsf_assert_def set_prev_phys_def)
    obtain t3 where t3: "block_insert ?r ?t2 = Some t3"
      "heap t3 (insert ?r S) (z(b := k, ?r := z b - k - 8)) (fr(?r := True)) (pf(?n := True, ?r := True)) ({?r, b} - {?r})"
      using block_insert_heap [OF s(3), of ?r] by auto
    have rb: "?r \<noteq> b" "{?r, b} - {?r} = {b}" "?n \<noteq> ?r" "?n \<noteq> b" using k True by auto
    have "block_trim_free b (of_nat k) t = Some t3"
      using fb cs True s(1) nx t3(1) by (simp add: block_trim_free_def tlsf_assert_def)
    moreover have "used_blocks (insert ?r S) (z(b := k, ?r := z b - k - 8)) (fr(?r := True, b := False)) =
        (used_blocks S z fr)(b \<mapsto> k)"
      using s(2) b k rb by (auto simp: used_blocks_def fun_eq_iff)
    moreover have "coalesced (insert ?r S) (fr(?r := True, b := False)) (pf(?n := True, ?r := True, ?r := False))"
      if "coalesced S fr pf"
    proof -
      have "pf ?n" "?n \<in> S" using layoutD(7,8) [OF heapD(5) [OF h] b(1)] b(2) k by auto
      then have "\<not> fr ?n" using that by (auto simp: coalesced_def)
      with that rb show ?thesis by (auto simp: coalesced_def)
    qed
    ultimately show ?thesis
      using t3(2) b(1) rb True
      by (intro exI [of _ t3] exI [of _ "insert ?r S"] exI [of _ "z(b := k, ?r := z b - k - 8)"]
          exI [of _ "fr(?r := True)"] exI [of _ "pf(?n := True, ?r := True)"]) simp
  qed
qed


lemma adjust_limit:
  assumes "0 < unat sz" "unat sz \<le> tlsf_limit"
  shows "unat (adjust_request_size sz 8) \<le> tlsf_limit" "unat sz < 2 ^ 32"
proof -
  show l: "unat sz < 2 ^ 32" using assms(2) by (simp add: tlsf_limit_def)
  note a = adjust_request_size_spec [OF assms(1) l]
  from a(1) obtain q where q: "unat (adjust_request_size sz 8) = 8 * q" by blast
  with a(4) assms(2) show "unat (adjust_request_size sz 8) \<le> tlsf_limit"
    unfolding tlsf_limit_def by (auto simp: max_def split: if_splits)
qed

lemma mapping_search_upper:
  assumes s: "24 \<le> unat s" "unat s \<le> tlsf_limit" and m: "mapping_search s = (fl, sl)"
  shows "class_floor fl sl \<le> unat s + unat s div 32"
proof -
  have "s \<noteq> 0" using s(1) by auto
  then obtain i where i: "tlsf_fls_sizet s = int i" "2 ^ i \<le> unat s"
    using tlsf_fls_sizet_spec by blast
  define r where "r = (if s \<ge> 32 then 2 ^ (i - 5) - 1 else 0 :: nat)"
  have m': "mapping_insert (s + of_nat r) = (fl, sl)" using m i(1) by (auto simp: mapping_search_def r_def)
  have r: "r \<le> unat s div 32"
  proof (cases "5 \<le> i")
    case True
    then obtain j where "i = 5 + j" using le_Suc_ex by blast
    then have "2 ^ (i - 5) * 32 \<le> unat s" using i(2) by (simp add: power_add mult.commute)
    then have "2 ^ (i - 5) \<le> unat s div 32" by (simp add: less_eq_div_iff_mult_less_eq)
    then have "2 ^ (i - 5) - 1 \<le> unat s div 32" by (rule le_trans [OF diff_le_self])
    then show ?thesis by (simp add: r_def)
  qed (simp add: r_def)
  have le: "unat s + r < 2 ^ 32"
  proof -
    have "(2 :: nat) ^ i < 2 ^ 32" using i(2) s(2) by (simp add: tlsf_limit_def)
    then have "i < 32" by (rule power_less_imp_less_exp [rotated]) simp
    then have "(2 :: nat) ^ (i - 5) \<le> 2 ^ 26" by (intro power_increasing) simp_all
    moreover have "(0 :: nat) < 2 ^ (i - 5)" by simp
    ultimately have "(2 :: nat) ^ (i - 5) - 1 < 2 ^ 26" by linarith
    then have "r < 2 ^ 26" by (simp add: r_def)
    with s(2) show ?thesis by (simp add: tlsf_limit_def)
  qed
  then have u: "unat (s + of_nat r) = unat s + r" by (simp add: unat_word_ariths unat_of_nat)
  with mapping_class(3) [OF m'] le r show ?thesis by simp
qed

text \<open>
  Finding a block: the search fails only when every class from the rounded request up is empty.
\<close>

lemma locate_heap:
  assumes h: "heap t S z fr pf {}" and k: "24 \<le> unat k" "8 dvd unat k" "unat k \<le> tlsf_limit"
    and m: "mapping_search k = (fl, sl)"
  shows "\<exists>b t'. block_locate_free k t = Some (b, t') \<and>
    (if b = 0 then t' = t \<and> (\<forall>x\<in>S. fr x \<longrightarrow> z x < class_floor fl sl)
     else b \<in> S \<and> fr b \<and> unat k \<le> z b \<and> heap t' S z fr pf {b})"
proof -
  have k32: "unat k < 2 ^ 32" "\<not> unat k > 2 ^ 32 - 2 ^ 26" using k(3) by (simp_all add: tlsf_limit_def)
  from mapping_search_floor [OF k(2,1) k32(1) m] k32(2)
  have c: "unat k \<le> class_floor fl sl" "sl < 32" "fl < 25" by blast+
  obtain F where F: "index_ok t F" "indexed S z fr F {}" using h by (rule heap_index)
  obtain b fl' sl' where r: "search_suitable_block t fl sl = Some (b, fl', sl')"
    "if b = 0 then \<forall>i<25. \<forall>l<32. fl < i \<or> fl = i \<and> sl \<le> l \<longrightarrow> F i l = []
     else fl' < 25 \<and> sl' < 32 \<and> (fl < fl' \<or> fl = fl' \<and> sl \<le> sl') \<and> b \<in> set (F fl' sl')"
    using search_suitable_block_ok [OF F(1) c(3,2)] by blast
  have kz: "k \<noteq> 0" using k(1) by auto
  have cls: "fl1 < 25 \<and> sl1 < 32 \<and> class_floor fl1 sl1 \<le> z x \<and> x \<in> set (F fl1 sl1) \<and>
      z x < class_floor fl1 sl1 + (if fl1 = 0 then 8 else 2 ^ (fl1 + 2))"
    if x: "x \<in> S" "fr x" "mapping_insert (of_nat (z x)) = (fl1, sl1)" for x fl1 sl1
  proof -
    have "x + 16 + z x \<le> 2 ^ 32" using layoutD(3) [OF heapD(5) [OF h] x(1)] .
    then have u: "unat (of_nat (z x) :: size_t) = z x" "z x < 2 ^ 32" by (simp_all add: unat_of_nat)
    with mapping_class [OF x(3)] F(2) x show ?thesis by (simp add: indexed_def)
  qed
  show ?thesis
  proof (cases "b = 0")
    case True
    have "z x < class_floor fl sl" if x: "x \<in> S" "fr x" for x
    proof -
      obtain fl1 sl1 where m1: "mapping_insert (of_nat (z x)) = (fl1, sl1)" by fastforce
      note c1 = cls [OF x m1]
      then have "\<not> (fl < fl1 \<or> fl = fl1 \<and> sl \<le> sl1)" using r(2) True by auto
      then have lt: "fl1 < fl \<or> fl1 = fl \<and> Suc sl1 \<le> sl" by auto
      have "class_floor fl1 sl1 + (if fl1 = 0 then 8 else 2 ^ (fl1 + 2)) \<le> class_floor fl sl"
      proof (cases "fl1 = fl")
        case True
        with lt have "Suc sl1 \<le> sl" by simp
        then have "class_floor fl (Suc sl1) \<le> class_floor fl sl" by (simp add: class_floor_def)
        moreover have "class_floor fl sl1 + (if fl = 0 then 8 else 2 ^ (fl + 2)) = class_floor fl (Suc sl1)"
          by (simp add: class_floor_def algebra_simps)
        ultimately show ?thesis unfolding True by metis
      next
        case False
        with lt have lt': "fl1 < fl" by simp
        have "class_floor fl1 sl1 + (if fl1 = 0 then 8 else 2 ^ (fl1 + 2)) \<le> class_floor fl1 31 + (if fl1 = 0 then 8 else 2 ^ (fl1 + 2))"
          using c1 by (simp add: class_floor_def)
        also have "... \<le> 32 * 2 ^ (fl1 + 3)" by (simp add: class_floor_def power_add)
        also have "... \<le> 32 * 2 ^ (fl + 2)"
          using lt' power_increasing [of "fl1 + 3" "fl + 2" "2 :: nat"] by simp
        also have "... \<le> class_floor fl sl" using lt' by (simp add: class_floor_def)
        finally show ?thesis .
      qed
      with c1 show ?thesis by linarith
    qed
    with True kz m r(1) show ?thesis by (simp add: block_locate_free_def)
  next
    case False
    with r(2) have b: "fl' < 25" "sl' < 32" "fl < fl' \<or> fl = fl' \<and> sl \<le> sl'" "b \<in> set (F fl' sl')" by simp_all
    then have bS: "b \<in> S" "fr b" "mapping_insert (of_nat (z b)) = (fl', sl')"
      using F(2) by (simp_all add: indexed_def)
    have kb: "unat k \<le> z b"
      using cls [OF bS] class_floor_mono [OF b(3) c(2)] c(1) by linarith
    have "block_size t b \<ge> k" using kb heapD(2) [OF h bS(1)] by (simp add: word_le_nat_alt)
    moreover obtain t' where t': "remove_free_block b fl' sl' t = Some t'" "heap t' S z fr pf {b}"
      using remove_heap_at [OF h F b(1,2,4)] by auto
    ultimately have "block_locate_free k t = Some (b, t')"
      using False kz m r(1) by (simp add: block_locate_free_def tlsf_assert_def)
    with False bS kb t'(2) show ?thesis by auto
  qed
qed

theorem malloc_heap:
  assumes h: "heap t S z fr pf {}" and co: "coalesced S fr pf" and sz: "unat sz \<le> tlsf_limit"
  shows "\<exists>p t'. tlsf_malloc t sz = Some (p, t') \<and> tlsf_wf t' \<and>
    (p = 0 \<and> t' = t \<and> (sz \<noteq> 0 \<longrightarrow> (\<forall>x\<in>S. fr x \<longrightarrow>
       (let k = unat (adjust_request_size sz 8) in z x < k + k div 32))) \<or>
     (\<exists>b s. p = b + 16 \<and> b \<in> S \<and> fr b \<and> unat sz \<le> s \<and> s < unat (adjust_request_size sz 8) + 32 \<and>
       tlsf_used t' = (tlsf_used t)(b \<mapsto> s)))"
proof (cases "unat sz = 0")
  case True
  then have "sz = 0" by (simp add: unat_eq_zero)
  then have "tlsf_malloc t sz = Some (0, t)"
    by (simp add: tlsf_malloc_def adjust_request_size_zero block_locate_free_def block_prepare_used_def)
  with tlsf_wfI [OF h co] \<open>sz = 0\<close> show ?thesis by blast
next
  case False
  then have p0: "0 < unat sz" by simp
  let ?k = "adjust_request_size sz 8"
  note al = adjust_limit [OF p0 sz]
  note a = adjust_request_size_spec [OF p0 al(2)]
  obtain fl sl where m: "mapping_search ?k = (fl, sl)" by fastforce
  obtain b t1 where loc: "block_locate_free ?k t = Some (b, t1)"
    "if b = 0 then t1 = t \<and> (\<forall>x\<in>S. fr x \<longrightarrow> z x < class_floor fl sl)
     else b \<in> S \<and> fr b \<and> unat ?k \<le> z b \<and> heap t1 S z fr pf {b}"
    using locate_heap [OF h a(2,1) al(1) m] by blast
  show ?thesis
  proof (cases "b = 0")
    case True
    with loc have "tlsf_malloc t sz = Some (0, t)" by (simp add: tlsf_malloc_def block_prepare_used_def)
    moreover have "z x < unat ?k + unat ?k div 32" if "x \<in> S" "fr x" for x
      using loc(2) True that mapping_search_upper [OF a(2) al(1) m] by fastforce
    ultimately show ?thesis using tlsf_wfI [OF h co] by (auto simp: Let_def)
  next
    case False
    with loc have b: "b \<in> S" "fr b" "unat ?k \<le> z b" and h1: "heap t1 S z fr pf {b}" by simp_all
    have kk: "of_nat (unat ?k) = ?k" by simp
    obtain t2 S2 z2 fr2 pf2 where tr: "block_trim_free b ?k t1 = Some t2" "heap t2 S2 z2 fr2 pf2 {b}"
      "b \<in> S2" "z2 b = (if unat ?k + 32 \<le> z b then unat ?k else z b)"
      "used_blocks S2 z2 (fr2(b := False)) = (used_blocks S z fr)(b \<mapsto> z2 b)"
      "coalesced S fr pf \<longrightarrow> coalesced S2 (fr2(b := False)) (pf2(b + 8 + z2 b := False))"
      using trim_free_heap [OF h1 b(1,2) a(2,1) b(3)] unfolding kk by blast
    have z2: "z2 b \<noteq> 0" "unat sz \<le> z2 b" "z2 b < unat ?k + 32" using tr(4) a(2,3) b(3) by (auto split: if_splits)
    obtain t3 where t3: "block_mark_as_used b t2 = Some t3"
      "heap t3 S2 z2 (fr2(b := False)) (pf2(b + 8 + z2 b := False)) ({b} - {b})"
      using mark_used_heap [OF tr(2,3) z2(1)] by blast
    then have h3: "heap t3 S2 z2 (fr2(b := False)) (pf2(b + 8 + z2 b := False)) {}" by simp
    have "tlsf_malloc t sz = Some (b + 16, t3)"
      using loc(1) False tr(1) t3(1)
      by (simp add: tlsf_malloc_def block_prepare_used_def block_to_ptr_def block_start_offset_def)
    moreover have "tlsf_used t3 = (tlsf_used t)(b \<mapsto> z2 b)"
      using tr(5) by (simp add: tlsf_used_heap [OF h3] tlsf_used_heap [OF h])
    moreover have "tlsf_wf t3" using tlsf_wfI [OF h3] tr(6) co by blast
    ultimately show ?thesis using b z2 by blast
  qed
qed


section \<open>Freeing\<close>

text \<open>The first blocks of the pools: no other block ends where they begin. Merging does not change them.\<close>

definition firsts :: "addr set \<Rightarrow> (addr \<Rightarrow> nat) \<Rightarrow> addr set" where
  "firsts S z = {b \<in> S. z b \<noteq> 0 \<and> (\<forall>p\<in>S. z p \<noteq> 0 \<longrightarrow> p + 8 + z p \<noteq> b)}"

definition tlsf_pools :: "control \<Rightarrow> addr set" where
  "tlsf_pools t = firsts (blks t) (zs t)"

lemma tlsf_pools_heap:
  assumes h: "heap t S z fr pf X"
  shows "tlsf_pools t = firsts S z"
  using heapD(1,2) [OF h] by (auto simp: tlsf_pools_def firsts_def)

lemma firsts_absorb:
  assumes "p \<in> S" "z p \<noteq> 0" "p + 8 + z p = b" "b \<in> S" "z b \<noteq> 0"
  shows "firsts (S - {b}) (z(p := z p + (z b + 8))) = firsts S z"
proof (rule set_eqI)
  fix x
  have e: "p + 8 + (z p + (z b + 8)) = b + 8 + z b" using assms(3) by simp
  show "x \<in> firsts (S - {b}) (z(p := z p + (z b + 8))) \<longleftrightarrow> x \<in> firsts S z"
  proof
    assume x: "x \<in> firsts (S - {b}) (z(p := z p + (z b + 8)))"
    let ?z = "z(p := z p + (z b + 8))"
    have c: "q + 8 + ?z q \<noteq> x" if "q \<in> S" "q \<noteq> b" "?z q \<noteq> 0" for q
      using x that by (auto simp: firsts_def)
    have pb: "p \<noteq> b" using assms(3) by simp
    have "q + 8 + z q \<noteq> x" if q: "q \<in> S" "z q \<noteq> 0" for q
    proof -
      consider "q = p" | "q = b" | "q \<noteq> p" "q \<noteq> b" by blast
      then show ?thesis
      proof cases
        case 1
        then show ?thesis using x assms(3) by (auto simp: firsts_def)
      next
        case 2
        then show ?thesis using c [OF assms(1) pb] e by simp
      next
        case 3
        then show ?thesis using c [OF q(1) 3(2)] q(2) by simp
      qed
    qed
    with x assms(2) show "x \<in> firsts S z" by (auto simp: firsts_def split: if_splits)
  next
    assume x: "x \<in> firsts S z"
    then have "x \<noteq> b" using assms(1-3) by (auto simp: firsts_def)
    with x assms(4,5) e show "x \<in> firsts (S - {b}) (z(p := z p + (z b + 8)))"
      by (auto simp: firsts_def)
  qed
qed

lemma merge_prev_heap:
  assumes h: "heap t S z fr pf X" and b: "b \<in> S" "z b \<noteq> 0" "b \<in> X" "fr b"
    and pX: "\<And>p. p \<in> S \<Longrightarrow> p + 8 + z p = b \<Longrightarrow> p \<notin> X"
  shows "\<exists>t' p S' z' X'. block_merge_prev b t = Some (p, t') \<and> heap t' S' z' fr pf X' \<and>
    (if pf b then p \<in> S \<and> fr p \<and> p + 8 + z p = b \<and> S' = S - {b} \<and> z' = z(p := z p + (z b + 8)) \<and> X' = insert p X
     else p = b \<and> S' = S \<and> z' = z \<and> X' = X)"
proof (cases "pf b")
  case False
  with h heapD(4) [OF h b(1)] show ?thesis by (simp add: block_merge_prev_def)
next
  case True
  note l = heapD(5) [OF h]
  from layoutD(10) [OF l b(1) True] obtain p where p: "p \<in> S" "z p \<noteq> 0" "p + 8 + z p = b" by blast
  then have fp: "fr p" "pp t b = p" using layoutD(8,9) [OF l p(1,2)] True by simp_all
  have p0: "p \<noteq> 0" "block_is_free t p" using layoutD(1) [OF l p(1)] heapD(3) [OF h p(1)] fp by simp_all
  obtain t1 where t1: "block_remove p t = Some t1" "heap t1 S z fr pf (insert p X)"
    using block_remove_heap [OF h p(1) _ fp(1)] pX [OF p(1,3)] by blast
  have "block_merge_prev b t = Some (p, absorb_state p b t1)"
    using True heapD(4) [OF h b(1)] fp p0 t1(1) absorb_eq(1) [OF t1(2) p b(2)]
    by (simp add: block_merge_prev_def block_prev_def tlsf_assert_def)
  moreover have "heap (absorb_state p b t1) (S - {b}) (z(p := z p + (z b + 8))) fr pf (insert p X)"
    using b by (intro absorb_free_heap [OF t1(2) p(1,2) _ fp(1) p(3) b(2)]) simp_all
  ultimately show ?thesis using True p fp(1) by auto
qed

theorem free_heap:
  assumes h: "heap t S z fr pf {}" and co: "coalesced S fr pf" and b: "b \<in> S" "z b \<noteq> 0" "\<not> fr b"
  shows "\<exists>t'. tlsf_free t (b + 16) = Some t' \<and> tlsf_wf t' \<and> tlsf_used t' = (tlsf_used t)(b := None) \<and>
    tlsf_pools t' = tlsf_pools t"
proof -
  note l = heapD(5) [OF h]
  let ?n = "b + 8 + z b" and ?fr = "fr(b := True)"
  let ?pf = "pf(?n := True)"
  have nf: "\<not> block_is_free t b" using heapD(3) [OF h b(1)] b(3) by simp
  obtain t1 where t1: "block_mark_as_free b t = Some t1" "heap t1 S z ?fr ?pf {b}"
    using mark_free_heap [OF h b] by blast
  have pX: "p \<notin> {b}" if "p + 8 + z p = b" for p using that by auto
  have fb: "b \<in> {b}" "?fr b" by simp_all
  obtain t2 c S2 z2 X2 where m: "block_merge_prev b t1 = Some (c, t2)" "heap t2 S2 z2 ?fr ?pf X2"
    "if ?pf b then c \<in> S \<and> ?fr c \<and> c + 8 + z c = b \<and> S2 = S - {b} \<and> z2 = z(c := z c + (z b + 8)) \<and> X2 = insert c {b}
     else c = b \<and> S2 = S \<and> z2 = z \<and> X2 = {b}"
    using merge_prev_heap [OF t1(2) b(1,2) fb pX] by blast
  have pb: "?pf b = pf b" by simp
  have c: "c \<in> S2" "c \<in> X2" "?fr c" "z2 c \<noteq> 0" "c + 8 + z2 c = ?n" "c \<in> S" "X2 \<subseteq> {b, c}" "S2 \<subseteq> S"
    "\<And>x. x \<noteq> c \<Longrightarrow> z2 x = z x" "c \<noteq> b \<Longrightarrow> b \<notin> S2 \<and> fr c"
    using m(3) b by (auto simp: pb split: if_splits)
  have nX: "c + 8 + z2 c \<notin> X2" using c(5,7) by auto
  let ?m = "c + 8 + z2 c"
  obtain t3 S3 z3 where g: "block_merge_next c t2 = Some (c, t3)"
    "heap t3 S3 z3 ?fr ?pf (X2 \<union> {x. ?fr ?m \<and> x = ?m})"
    "S3 = (if ?fr ?m then S2 - {?m} else S2)" "z3 = (if ?fr ?m then z2(c := z2 c + (z2 ?m + 8)) else z2)"
    using merge_next_heap [OF m(2) c(1,4,2,3) nX] by blast
  have c3: "c \<in> S3" using g(3) c(1) by auto
  obtain t4 where t4: "block_insert c t3 = Some t4"
    "heap t4 S3 z3 ?fr ?pf (X2 \<union> {x. ?fr ?m \<and> x = ?m} - {c})"
    using block_insert_heap [OF g(2) c3 _ c(3)] c(2) by blast
  have h4: "heap t4 S3 z3 ?fr ?pf {}"
    by (rule heap_settled [OF t4(2)]) (use g(3) c(7,10) in \<open>auto split: if_splits\<close>)
  have "tlsf_free t (b + 16) = Some t4"
    using nf t1(1) m(1) g(1) t4(1)
    by (simp add: tlsf_free_def block_from_ptr_def block_start_offset_def tlsf_assert_def Let_def)
  moreover have "tlsf_used t4 = (tlsf_used t)(b := None)"
  proof -
    have "used_blocks S3 z3 ?fr x = ((used_blocks S z fr)(b := None)) x" for x
    proof (cases "x = b \<or> x = c")
      case True
      with c(10) show ?thesis by (cases "c = b") (auto simp: used_blocks_def)
    next
      case False
      then have "z3 x = z x" "x \<in> S3 \<longleftrightarrow> x \<in> S \<and> \<not> (fr x \<and> x = ?m)"
        using g(3,4) c(9) m(3) by (auto split: if_splits)
      with False show ?thesis by (auto simp: used_blocks_def)
    qed
    then show ?thesis by (simp add: tlsf_used_heap [OF h4] tlsf_used_heap [OF h] fun_eq_iff)
  qed
  moreover have "tlsf_pools t4 = tlsf_pools t"
  proof -
    have "firsts S2 z2 = firsts S z"
      using m(3) b(1,2) firsts_absorb [of c S z b] layoutD(4) [OF l, of c] by (cases "c = b") (auto split: if_splits)
    moreover have "firsts S3 z3 = firsts S2 z2"
    proof (cases "?fr ?m")
      case True
      have mS: "?m \<in> S2" by (rule layoutD(7) [OF heapD(5) [OF m(2)] c(1,4)])
      have "z2 ?m \<noteq> 0" using layoutD(4) [OF heapD(5) [OF m(2)] mS] True by blast
      have "S3 = S2 - {?m}" "z3 = z2(c := z2 c + (z2 ?m + 8))"
        using g(3,4) True by (simp_all only: if_True)
      then show ?thesis using firsts_absorb [where p = c and b = ?m, OF c(1,4) refl mS \<open>z2 ?m \<noteq> 0\<close>] by simp
    qed (use g(3,4) in simp)
    ultimately show ?thesis by (simp add: tlsf_pools_heap [OF h4] tlsf_pools_heap [OF h])
  qed
  moreover have "coalesced S3 ?fr ?pf"
    unfolding coalesced_def
  proof (intro ballI notI)
    fix x assume x: "x \<in> S3" "?fr x \<and> ?pf x"
    have xS: "x \<in> S" using x(1) g(3) c(8) by (auto split: if_splits)
    have xn: "x \<noteq> ?n" using x g(3) c(5) by (auto split: if_splits)
    then have p: "pf x" using x(2) by simp
    show False
    proof (cases "x = b")
      case True
      then have "c \<noteq> b" using p m(3) by (auto simp: pb)
      then show False using True x(1) c(10) g(3) by (auto split: if_splits)
    next
      case False
      with x(2) have "fr x" by simp
      with p xS co show False by (auto simp: coalesced_def)
    qed
  qed
  ultimately show ?thesis using tlsf_wfI [OF h4] by blast
qed


section \<open>Resizing\<close>

lemma trim_used_heap:
  assumes h: "heap t S z fr pf {}" and co: "coalesced S fr pf" and b: "b \<in> S" "z b \<noteq> 0" "\<not> fr b"
    and k: "24 \<le> k" "8 dvd k" "k \<le> z b"
  shows "\<exists>t' s. block_trim_used b (of_nat k) t = Some t' \<and> tlsf_wf t' \<and> k \<le> s \<and>
    tlsf_used t' = (used_blocks S z fr)(b \<mapsto> s)"
proof -
  have fb: "\<not> block_is_free t b" using heapD(3) [OF h b(1)] b(3) by simp
  note l = heapD(5) [OF h]
  have bd: "b + 16 + z b \<le> 2 ^ 32" using layoutD(3) [OF l b(1)] .
  have cs: "block_can_split t b (of_nat k) \<longleftrightarrow> k + 32 \<le> z b"
    using can_split_iff [OF h b(1), of k] k bd by simp
  show ?thesis
  proof (cases "k + 32 \<le> z b")
    case False
    have "used_blocks S z fr = (used_blocks S z fr)(b \<mapsto> z b)"
      using b by (auto simp: used_blocks_def fun_eq_iff)
    with False fb cs tlsf_wfI [OF h co] k(3) show ?thesis
      by (intro exI [of _ t] exI [of _ "z b"])
        (simp add: block_trim_used_def tlsf_assert_def tlsf_used_heap [OF h])
  next
    case True
    let ?r = "b + 8 + k" and ?n = "b + 8 + z b"
    let ?z = "z(b := k, ?r := z b - k - 8)" and ?fr = "fr(?r := True)" and ?pf = "pf(?n := True, ?r := False)"
    let ?t2 = "block_set_prev_used ?r (split_state b k t)"
    have s: "block_split b (of_nat k) t = Some (?r, split_state b k t)" "?r \<notin> S"
      "heap ?t2 (insert ?r S) ?z ?fr ?pf {?r}"
      using split_heap [OF h b(1) _ k(1,2) True, of ?t2] b by simp_all
    have rb: "?r \<noteq> b" "?n \<noteq> ?r" "?n \<noteq> b" using k True by auto
    have nS: "?n \<in> S" using layoutD(7) [OF l b(1,2)] .
    have zr: "?z ?r \<noteq> 0" "?r + 8 + ?z ?r = ?n" using True by auto
    have rX: "?r \<in> insert ?r S" "?r \<in> {?r}" "?fr ?r" "?r + 8 + ?z ?r \<notin> {?r}" using zr(2) rb by simp_all
    obtain t3 S3 z3 where g: "block_merge_next ?r ?t2 = Some (?r, t3)"
      "heap t3 S3 z3 ?fr ?pf ({?r} \<union> {x. ?fr ?n \<and> x = ?n})"
      "S3 = (if ?fr ?n then insert ?r S - {?n} else insert ?r S)"
      "z3 = (if ?fr ?n then ?z(?r := ?z ?r + (?z ?n + 8)) else ?z)"
      using merge_next_heap [OF s(3) rX(1) zr(1) rX(2-4)] unfolding zr(2) by blast
    have r3: "?r \<in> S3" "?r \<in> {?r} \<union> {x. ?fr ?n \<and> x = ?n}" using g(3) rb by auto
    obtain t4 where t4: "block_insert ?r t3 = Some t4"
      "heap t4 S3 z3 ?fr ?pf ({?r} \<union> {x. ?fr ?n \<and> x = ?n} - {?r})"
      using block_insert_heap [OF g(2) r3 rX(3)] by blast
    have h4: "heap t4 S3 z3 ?fr ?pf {}"
      by (rule heap_settled [OF t4(2)]) (use g(3) rb in \<open>auto split: if_splits\<close>)
    have "block_trim_used b (of_nat k) t = Some t4"
      using fb cs True s(1) g(1) t4(1) by (simp add: block_trim_used_def tlsf_assert_def)
    moreover have "coalesced S3 ?fr ?pf"
      using co g(3) rb by (auto simp: coalesced_def split: if_splits)
    moreover have "tlsf_used t4 = (used_blocks S z fr)(b \<mapsto> k)"
      unfolding tlsf_used_heap [OF h4] using g(3,4) rb b k s(2)
      by (auto simp: used_blocks_def fun_eq_iff split: if_splits)
    ultimately show ?thesis using tlsf_wfI [OF h4] by blast
  qed
qed


lemma unat_add64: "unat (a :: size_t) + unat b < 2 ^ 64 \<Longrightarrow> unat (a + b) = unat a + unat b"
  by (simp add: unat_word_ariths)

text \<open>The heap lemmas over \<open>tlsf_wf\<close> and \<open>tlsf_used\<close>.\<close>

definition tlsf_free_blocks :: "control \<Rightarrow> addr \<rightharpoonup> nat" where
  "tlsf_free_blocks t b = (if b \<in> blks t \<and> block_is_free t b then Some (zs t b) else None)"

lemma tlsf_free_blocks_heap:
  "heap t S z fr pf X \<Longrightarrow> tlsf_free_blocks t b = Some s \<longleftrightarrow> b \<in> S \<and> fr b \<and> z b = s"
  by (auto simp: tlsf_free_blocks_def heapD split: if_splits)

lemma tlsf_malloc_ok:
  assumes "tlsf_wf t" and "unat sz \<le> tlsf_limit"
  shows "\<exists>p t'. tlsf_malloc t sz = Some (p, t') \<and> tlsf_wf t' \<and>
    (p = 0 \<and> t' = t \<and> (sz \<noteq> 0 \<longrightarrow> (\<forall>b s. tlsf_free_blocks t b = Some s \<longrightarrow>
       (let k = unat (adjust_request_size sz 8) in s < k + k div 32))) \<or>
     (\<exists>b s. p = b + 16 \<and> tlsf_used t b = None \<and> unat sz \<le> s \<and> s < unat (adjust_request_size sz 8) + 32 \<and>
       tlsf_used t' = (tlsf_used t)(b \<mapsto> s)))"
proof -
  from assms(1) obtain S z fr pf where h: "heap t S z fr pf {}" "coalesced S fr pf"
    unfolding tlsf_wf_def by blast
  have "tlsf_used t b = None" if "fr b" for b using that by (simp add: tlsf_used_heap [OF h(1)] used_blocks_def)
  with malloc_heap [OF h assms(2)] show ?thesis by (metis tlsf_free_blocks_heap [OF h(1)])
qed

lemma tlsf_free_ok:
  assumes "tlsf_wf t" and "tlsf_used t b = Some s"
  shows "\<exists>t'. tlsf_free t (b + 16) = Some t' \<and> tlsf_wf t' \<and> tlsf_used t' = (tlsf_used t)(b := None) \<and>
    tlsf_pools t' = tlsf_pools t"
proof -
  obtain S z fr pf where h: "heap t S z fr pf {}" "coalesced S fr pf" "b \<in> S" "z b \<noteq> 0" "\<not> fr b" "z b = s"
    by (rule tlsf_used_SomeD [OF assms])
  show ?thesis using free_heap [OF h(1-5)] .
qed

lemma tlsf_block_size_ok:
  assumes "tlsf_used t b = Some s"
  shows "unat (tlsf_block_size t (b + 16)) = s"
proof -
  have "s = zs t b" using assms unfolding tlsf_used_def used_blocks_def by (simp split: if_splits)
  then show ?thesis by (simp add: tlsf_block_size_def block_from_ptr_def block_start_offset_def)
qed

lemma tlsf_realloc_ok:
  assumes wf: "tlsf_wf t" and u: "tlsf_used t b = Some s" and sz: "0 < unat sz" "unat sz \<le> tlsf_limit"
  shows "\<exists>q t'. tlsf_realloc t (b + 16) sz = Some (q, t') \<and> tlsf_wf t' \<and>
    (q = 0 \<and> tlsf_used t' = tlsf_used t \<or>
     (\<exists>c s'. q = c + 16 \<and> (c = b \<or> tlsf_used t c = None) \<and> unat sz \<le> s' \<and>
       tlsf_used t' = (tlsf_used t)(b := None, c \<mapsto> s')))"
proof -
  obtain S z fr pf where h: "heap t S z fr pf {}" and co: "coalesced S fr pf"
    and b: "b \<in> S" "z b \<noteq> 0" "\<not> fr b" and "z b = s" by (rule tlsf_used_SomeD [OF wf u])
  note l = heapD(5) [OF h]
  let ?n = "b + 8 + z b" and ?k = "adjust_request_size sz 8"
  have nS: "?n \<in> S" using layoutD(7) [OF l b(1,2)] .
  have bd: "b + 16 + z b \<le> 2 ^ 32" "?n + 16 + z ?n \<le> 2 ^ 32" using layoutD(3) [OF l b(1)] layoutD(3) [OF l nS] .
  have fb: "\<not> block_is_free t b" "block_is_free t ?n = fr ?n" using heapD(3) [OF h b(1)] heapD(3) [OF h nS] b(3) by simp_all
  have zw: "zs t b = z b" "zs t ?n = z ?n" using heapD(2) [OF h] b(1) nS by simp_all
  note al = adjust_limit [OF sz]
  note a = adjust_request_size_spec [OF sz(1) al(2)]
  have kk: "of_nat (unat ?k) = ?k" by simp
  have sz0: "sz \<noteq> 0" using sz(1) by auto
  let ?comb = "block_size t b + block_size t ?n + block_header_overhead"
  have comb: "unat ?comb = z b + z ?n + 8"
  proof -
    have "z b + z ?n + 8 < 2 ^ 64" using bd by simp
    then show ?thesis
      using unat_add64 [of "block_size t b" "block_size t ?n"]
        unat_add64 [of "block_size t b + block_size t ?n" block_header_overhead]
      by (simp only: zw) (simp add: block_header_overhead_def)
  qed
  have gt: "?k > block_size t b \<longleftrightarrow> z b < unat ?k" "?k > ?comb \<longleftrightarrow> z b + z ?n + 8 < unat ?k"
    using zw comb by (simp_all only: word_less_nat_alt)
  have pre: "tlsf_realloc t (b + 16) sz =
     (if z b < unat ?k \<and> (\<not> fr ?n \<or> z b + z ?n + 8 < unat ?k) then
        do { (q, t1) \<leftarrow> tlsf_malloc t sz;
             if q \<noteq> 0 then do { t2 \<leftarrow> tlsf_free t1 (b + 16); Some (q, t2) } else Some (0, t1) }
      else
        do { t1 \<leftarrow> (if z b < unat ?k
                   then do { (b1, t2) \<leftarrow> block_merge_next b t; block_mark_as_used b t2 }
                   else Some t);
             t3 \<leftarrow> block_trim_used b ?k t1;
             Some (b + 16, t3) })"
    unfolding gt [symmetric]
    using sz0 fb block_next_heap(1) [OF h b(1,2)]
    by (simp add: tlsf_realloc_def block_from_ptr_def block_start_offset_def tlsf_assert_def Let_def)
  consider (move) "z b < unat ?k" "\<not> fr ?n \<or> z b + z ?n + 8 < unat ?k"
    | (grow) "z b < unat ?k" "fr ?n" "unat ?k \<le> z b + z ?n + 8" | (stay) "unat ?k \<le> z b" by linarith
  then show ?thesis
  proof cases
    case move
    obtain q t1 where q: "tlsf_malloc t sz = Some (q, t1)" "tlsf_wf t1"
      "q = 0 \<and> t1 = t \<or> (\<exists>c s'. q = c + 16 \<and> tlsf_used t c = None \<and> unat sz \<le> s' \<and>
        tlsf_used t1 = (tlsf_used t)(c \<mapsto> s'))"
      using tlsf_malloc_ok [OF wf sz(2)] by blast
    show ?thesis
    proof (cases "q = 0")
      case True
      with pre move q have "tlsf_realloc t (b + 16) sz = Some (0, t)" by simp
      with wf show ?thesis by blast
    next
      case False
      then obtain c s' where c: "q = c + 16" "tlsf_used t c = None" "unat sz \<le> s'"
        "tlsf_used t1 = (tlsf_used t)(c \<mapsto> s')" using q(3) by auto
      have cb: "c \<noteq> b" using c(2) u by auto
      then have "tlsf_used t1 b = Some s" using c(4) u by simp
      then obtain t2 where t2: "tlsf_free t1 (b + 16) = Some t2" "tlsf_wf t2"
        "tlsf_used t2 = (tlsf_used t1)(b := None)" using tlsf_free_ok [OF q(2)] by blast
      have "tlsf_realloc t (b + 16) sz = Some (q, t2)" using pre move q(1) False t2(1) by simp
      moreover have "tlsf_used t2 = (tlsf_used t)(b := None, c \<mapsto> s')"
        using t2(3) c(4) cb by (simp add: fun_upd_twist)
      ultimately show ?thesis using t2(2) c by blast
    qed
  next
    case grow
    have zn: "z ?n \<noteq> 0" using layoutD(4) [OF l nS] grow(2) by auto
    obtain t1 where t1: "block_remove ?n t = Some t1" "heap t1 S z fr pf {?n}"
      using block_remove_heap [OF h nS] grow(2) by auto
    note ae = absorb_eq [OF t1(2) b(1,2) refl zn]
    have "block_merge_next b t = Some (b, absorb_state b ?n t1)"
      using block_next_heap [OF h b(1,2)] fb grow(2) t1(1) ae(1)
      by (simp add: block_merge_next_def tlsf_assert_def)
    moreover obtain t2 where t2: "block_mark_as_used b (absorb_state b ?n t1) = Some t2"
      "heap t2 (S - {?n}) (z(b := z b + (z ?n + 8))) fr (pf(?n + 8 + z ?n := False)) {?n}"
      using absorb_used_heap [OF t1(2) b refl zn] by auto
    have h2: "heap t2 (S - {?n}) (z(b := z b + (z ?n + 8))) fr (pf(?n + 8 + z ?n := False)) {}"
      by (rule heap_settled [OF t2(2)]) simp
    have co2: "coalesced (S - {?n}) fr (pf(?n + 8 + z ?n := False))" using co by (auto simp: coalesced_def)
    have b2: "b \<in> S - {?n}" "(z(b := z b + (z ?n + 8))) b \<noteq> 0" "unat ?k \<le> (z(b := z b + (z ?n + 8))) b"
      using b grow(3) by simp_all
    obtain t3 s' where t3: "block_trim_used b ?k t2 = Some t3" "tlsf_wf t3" "unat ?k \<le> s'"
      "tlsf_used t3 = (used_blocks (S - {?n}) (z(b := z b + (z ?n + 8))) fr)(b \<mapsto> s')"
      using trim_used_heap [OF h2 co2 b2(1,2) b(3) a(2,1) b2(3)] unfolding kk by blast
    have "tlsf_realloc t (b + 16) sz = Some (b + 16, t3)"
      using pre grow calculation t2(1) t3(1) by simp
    moreover have "tlsf_used t3 = (tlsf_used t)(b := None, b \<mapsto> s')"
      using t3(4) grow(2) by (auto simp: tlsf_used_heap [OF h] used_blocks_def fun_eq_iff)
    moreover have "unat sz \<le> s'" using a(3) t3(3) by linarith
    ultimately show ?thesis using t3(2) by blast
  next
    case stay
    obtain t3 s' where t3: "block_trim_used b ?k t = Some t3" "tlsf_wf t3" "unat ?k \<le> s'"
      "tlsf_used t3 = (used_blocks S z fr)(b \<mapsto> s')"
      using trim_used_heap [OF h co b a(2,1) stay] unfolding kk by blast
    have "tlsf_realloc t (b + 16) sz = Some (b + 16, t3)" using pre stay t3(1) by simp
    moreover have "tlsf_used t3 = (tlsf_used t)(b := None, b \<mapsto> s')"
      using t3(4) by (simp add: tlsf_used_heap [OF h])
    moreover have "unat sz \<le> s'" using a(3) t3(3) by linarith
    ultimately show ?thesis using t3(2) by blast
  qed
qed


section \<open>Pools\<close>

text \<open>
  Memory that may become a pool: aligned, of a size the classes cover, below 4 GiB, and apart
  from every block and from the null block.
\<close>

definition tlsf_pool_fresh :: "control \<Rightarrow> addr \<Rightarrow> nat \<Rightarrow> bool" where
  "tlsf_pool_fresh t mem n \<longleftrightarrow> 8 dvd mem \<and> 16 \<le> mem \<and> 40 \<le> n \<and> mem + n \<le> 2 ^ 32 \<and>
     (\<forall>b\<in>blks t. b + 8 + zs t b \<le> mem - 8 \<or> mem + n \<le> b) \<and>
     (block_null t < mem - 8 \<or> mem + n \<le> block_null t)"

lemma layout_add_pool:
  assumes l: "layout S z fr pf pr" and m: "8 dvd mem" "16 \<le> mem" "24 \<le> k" "8 dvd k" "mem + 16 + k \<le> 2 ^ 32"
    and dj: "\<And>b. b \<in> S \<Longrightarrow> b + 8 + z b \<le> mem - 8 \<or> mem + 16 + k \<le> b"
    and eq: "\<And>x. x \<in> S \<Longrightarrow> z' x = z x \<and> fr' x = fr x \<and> pf' x = pf x \<and> pr' x = pr x"
      "z' (mem - 8) = k" "fr' (mem - 8)" "\<not> pf' (mem - 8)"
      "z' (mem + k) = 0" "\<not> fr' (mem + k)" "pf' (mem + k)" "pr' (mem + k) = mem - 8"
  shows "layout (S \<union> {mem - 8, mem + k}) z' fr' pf' pr'" "mem - 8 \<notin> S" "mem + k \<notin> S"
proof -
  note D = layoutD [OF l]
  let ?b = "mem - 8" and ?e = "mem + k"
  have be: "?b + 8 + k = ?e" "?b < ?e" using m by simp_all
  show nb: "?b \<notin> S" "?e \<notin> S" using dj [of ?b] dj [of ?e] m by auto
  have far: "b + 8 + z b \<le> ?b \<or> ?e + 8 \<le> b" if "b \<in> S" for b using dj [OF that] by auto
  have al: "8 dvd ?b" "8 dvd ?e" "0 < ?b" using m by (auto intro: dvd_diff_nat)
  show "layout (S \<union> {?b, ?e}) z' fr' pf' pr'"
  proof (rule layoutI)
    show "finite (S \<union> {?b, ?e})" using layout_finite [OF l] by simp
    fix c assume c: "c \<in> S \<union> {?b, ?e}"
    then consider "c = ?b" | "c = ?e" | "c \<in> S" "c \<noteq> ?b" "c \<noteq> ?e" using nb by blast
    note cs = this
    show "0 < c \<and> 8 dvd c \<and> c + 16 + z' c \<le> 2 ^ 32 \<and> (z' c = 0 \<longrightarrow> \<not> fr' c)"
      using cs
    proof cases
      case 3
      then show ?thesis using D(1-4) [of c] eq(1) [of c] by simp
    qed (use al eq m in auto)
    show "24 \<le> z' c \<and> 8 dvd z' c \<and> c + 8 + z' c \<in> S \<union> {?b, ?e} \<and> pf' (c + 8 + z' c) = fr' c \<and>
        (fr' c \<longrightarrow> pr' (c + 8 + z' c) = c)" if z: "z' c \<noteq> 0"
      using cs
    proof cases
      case 1
      show ?thesis unfolding 1 eq(2) be(1) using m eq by simp
    next
      case 2
      then show ?thesis using z eq by simp
    next
      case 3
      have zc: "z c \<noteq> 0" using z eq(1) [OF 3(1)] by simp
      show ?thesis using D(5-9) [OF 3(1) zc] eq(1) [OF 3(1)] eq(1) [OF D(7) [OF 3(1) zc]] by simp
    qed
    show "\<exists>p\<in>S \<union> {?b, ?e}. z' p \<noteq> 0 \<and> p + 8 + z' p = c" if pc: "pf' c"
      using cs
    proof cases
      case 1
      then show ?thesis using pc eq by simp
    next
      case 2
      then show ?thesis using be(1) eq m by (intro bexI [of _ ?b]) simp_all
    next
      case 3
      then obtain p where "p \<in> S" "z p \<noteq> 0" "p + 8 + z p = c" using D(10) [OF 3(1)] eq(1) [OF 3(1)] pc by auto
      then show ?thesis using eq(1) by (intro bexI [of _ p]) simp_all
    qed
    show "c + 8 + z' c \<le> d" if d: "d \<in> S \<union> {?b, ?e}" "c < d" for d
    proof (cases "d \<in> S")
      case True
      from cs show ?thesis
      proof cases
        case 3
        then show ?thesis using D(11) [OF 3(1) True d(2)] eq(1) [OF 3(1)] by simp
      qed (use far [OF True] d(2) eq be in auto)
    next
      case False
      then have d': "d = ?b \<or> d = ?e" using d(1) by auto
      from cs show ?thesis
      proof cases
        case 3
        then show ?thesis using far [OF 3(1)] d' d(2) eq(1) [OF 3(1)] be by auto
      qed (use d' d(2) eq be in auto)
    qed
  qed
qed


lemma align_down_8: "unat (align_down x 8) = unat x div 8 * 8"
proof -
  have "x AND 7 = take_bit 3 x" by (simp add: take_bit_eq_mask mask_eq_exp_minus_1)
  then have "unat (x AND 7) = take_bit 3 (unat x)" by (simp only: unsigned_take_bit_eq)
  then have a: "unat (x AND 7) = unat x mod 8" by (simp only: take_bit_eq_mod) simp
  then have "unat (x - (x AND 7)) = unat x - unat x mod 8"
    by (simp add: unat_sub word_le_nat_alt)
  then show ?thesis by (simp add: align_down_def minus_mod_eq_div_mult)
qed

lemma tlsf_add_pool_ok:
  assumes wf: "tlsf_wf t" and f: "tlsf_pool_fresh t mem (unat bytes)"
  shows "\<exists>t'. tlsf_add_pool mem bytes t = Some (mem, t') \<and> tlsf_wf t' \<and> tlsf_used t' = tlsf_used t \<and>
    tlsf_free_blocks t' = (tlsf_free_blocks t)(mem - 8 \<mapsto> (unat bytes - 16) div 8 * 8)"
proof -
  from wf obtain S z fr pf where h: "heap t S z fr pf {}" and co: "coalesced S fr pf"
    unfolding tlsf_wf_def by blast
  obtain F where F: "index_ok t F" "indexed S z fr F {}" using h by (rule heap_index)
  define k where "k = (unat bytes - 16) div 8 * 8"
  note f' = f [unfolded tlsf_pool_fresh_def]
  have n40: "40 \<le> unat bytes" using f' by blast
  have kn: "24 \<le> k" "8 dvd k" "k + 16 \<le> unat bytes" using n40 unfolding k_def by presburger+
  have m: "8 dvd mem" "16 \<le> mem" "mem + 16 + k \<le> 2 ^ 32" using f' kn by simp_all
  let ?b = "mem - 8" and ?e = "mem + k"
  let ?pb = "align_down (bytes - tlsf_pool_overhead) 8"
  have "unat (bytes - tlsf_pool_overhead) = unat bytes - 16"
    using f' by (simp add: tlsf_pool_overhead_def block_header_overhead_def unat_sub word_le_nat_alt)
  then have pb: "unat ?pb = k" by (simp add: align_down_8 k_def)
  have pbk: "?pb = of_nat k" unfolding pb [symmetric] by simp
  have off: "offset_to_block mem (- block_header_overhead) = ?b"
  proof -
    obtain j where j: "mem = j + 8" using m(2) le_Suc_ex [of 8 mem] by auto
    have "(of_nat mem :: size_t) + - block_header_overhead = of_nat j"
      by (simp add: block_header_overhead_def j)
    then show ?thesis using m(3) by (simp add: offset_to_block_def unat_of_nat j)
  qed
  define t1 where "t1 = block_set_prev_used ?b (block_set_free ?b (block_set_size ?b ?pb t))"
  have d4: "4 dvd unat ?pb" unfolding pb using kn(2) dvd_trans [of 4 8 k] by simp
  note ab = aligned_bits [OF d4]
  have t1: "zs t1 x = (if x = ?b then k else zs t x)"
    "block_is_free t1 x \<longleftrightarrow> x = ?b \<or> block_is_free t x"
    "block_is_prev_free t1 x \<longleftrightarrow> x \<noteq> ?b \<and> block_is_prev_free t x" "pp t1 x = pp t x"
    "same_index t t1" "blks t1 = S" for x
    using ab pb heapD(1) [OF h] by (auto simp: t1_def)
  have S: "b + 8 + z b \<le> ?b \<or> mem + 16 + k \<le> b" if "b \<in> S" for b
    using f' that heapD(1,2) [OF h] kn(3) by fastforce
  obtain fl sl where c: "mapping_insert (of_nat k) = (fl, sl)" by fastforce
  have "unat (of_nat k :: size_t) < 2 ^ 32" using m(3) by (simp add: unat_of_nat)
  note r = mapping_class [OF c this]
  have bS: "?b \<notin> S" using S [of ?b] m by auto
  have "?b \<notin> set (F i l)" if "i < 25" "l < 32" for i l using F(2) that bS by (simp add: indexed_def)
  moreover have "?b \<noteq> 0" "?b \<noteq> block_null t1" using m t1(5) f' by (auto simp: same_index_def)
  moreover have "block_to_ptr ?b = align_ptr (block_to_ptr ?b) 8"
    using m by (intro aligned_block_ptr) (auto intro: dvd_diff_nat)
  ultimately obtain t2 where t2: "insert_free_block ?b fl sl t1 = Some t2"
    "index_ok t2 (upd_class F fl sl (?b # F fl sl))" "same_phys t1 t2"
    using insert_free_block_ok [OF same_index_ok [OF t1(5) F(1)] r(1,2), of ?b] by blast
  note P = same_physD [OF t2(3)]
  have bs1: "block_size t1 ?b = of_nat k" using t1(1) [of ?b] by (metis of_nat_unat ucast_id word_of_nat_eq_iff unat_of_nat)
  have ins: "block_insert ?b t1 = Some t2" using t2(1) by (simp add: block_insert_def bs1 c)
  have z2: "zs t2 ?b = k" using P(3) t1(1) by simp
  have nl: "\<not> block_is_last t2 ?b" using z2 kn(1) by (auto simp: block_is_last_def)
  have be: "?b + 8 + k = ?e" using m by simp
  have lk: "block_link_next ?b t2 = Some (?e, set_prev_phys ?e ?b t2)"
    using next_addr [of t2 ?b] z2 kn(1) m nl
    by (simp add: block_link_next_def block_next_def tlsf_assert_def set_prev_phys_def be)
  define t4 where "t4 = (block_set_prev_free ?e (block_set_used ?e (block_set_size ?e 0 (set_prev_phys ?e ?b t2))))
    \<lparr>blks := blks (set_prev_phys ?e ?b t2) \<union> {?b, ?e}\<rparr>"
  have add: "tlsf_add_pool mem bytes t = Some (mem, t4)"
  proof -
    have "\<not> ?pb < block_size_min" "\<not> ?pb > block_size_max"
      using pb kn(1) m(3) by (simp_all add: block_size_min_def block_size_max_def word_less_nat_alt)
    moreover have "mem mod 8 = 0" using m(1) by simp
    ultimately show ?thesis using ins lk by (simp add: tlsf_add_pool_def off t1_def t4_def Let_def)
  qed
  have t4: "zs t4 x = (if x = ?e then 0 else if x = ?b then k else zs t x)"
    "block_is_free t4 x \<longleftrightarrow> x \<noteq> ?e \<and> (x = ?b \<or> block_is_free t x)"
    "block_is_prev_free t4 x \<longleftrightarrow> x = ?e \<or> x \<noteq> ?b \<and> block_is_prev_free t x"
    "pp t4 x = (if x = ?e then ?b else pp t x)" "blks t4 = S \<union> {?b, ?e}" for x
    using be kn by (auto simp: t4_def P t1)
  have eS: "?e \<notin> S" using S [of ?e] m by auto
  let ?S = "S \<union> {?b, ?e}" and ?z = "z(?b := k, ?e := 0)" and ?fr = "fr(?b := True, ?e := False)"
    and ?pf = "pf(?b := False, ?e := True)"
  have ne: "?b \<noteq> ?e" using be by simp
  have h4: "heap t4 ?S ?z ?fr ?pf {}"
    unfolding heap_def
  proof (intro conjI ballI)
    show "blks t4 = ?S" by (rule t4(5))
    fix x assume "x \<in> ?S"
    then show "zs t4 x = ?z x" "block_is_free t4 x = ?fr x" "block_is_prev_free t4 x = ?pf x"
      using heapD(2-4) [OF h, of x] bS eS ne by (auto simp: t4)
  next
    show "layout ?S ?z ?fr ?pf (pp t4)"
      by (rule layout_add_pool(1) [OF heapD(5) [OF h] m(1,2) kn(1,2) m(3) S])
        (use bS eS ne in \<open>auto simp: t4\<close>)
    have n4: "block_null t4 = block_null t" using P(1) t1(5) by (simp add: t4_def set_prev_phys_def
        block_set_prev_free_def block_set_used_def block_set_size_def same_index_def)
    show "outside (block_null t4) ?S ?z"
      unfolding n4 outside_def
      using heapD(7) [OF h] f' kn(3) be bS eS ne by (auto simp: outside_def)
    have "index_ok t4 (upd_class F fl sl (?b # F fl sl))"
      by (rule same_index_ok [OF _ t2(2)]) (simp add: t4_def)
    moreover have "indexed ?S ?z ?fr (upd_class F fl sl (?b # F fl sl)) {}"
      unfolding indexed_def
    proof (intro allI impI)
      fix i l x assume il: "i < (25::nat)" "l < (32::nat)"
      have "x \<in> set (F i l) \<longleftrightarrow> x \<in> S \<and> fr x \<and> mapping_insert (of_nat (z x)) = (i, l)"
        using F(2) il by (simp add: indexed_def)
      then show "x \<in> set (upd_class F fl sl (?b # F fl sl) i l) \<longleftrightarrow>
          x \<in> ?S \<and> x \<notin> {} \<and> ?fr x \<and> mapping_insert (of_nat (?z x)) = (i, l)"
        using bS eS ne c by auto
    qed
    ultimately show "\<exists>F. index_ok t4 F \<and> indexed ?S ?z ?fr F {}" by blast
  qed
  have "coalesced ?S ?fr ?pf" using co bS eS ne by (auto simp: coalesced_def)
  moreover have "tlsf_used t4 = tlsf_used t"
    using bS eS ne by (auto simp: tlsf_used_heap [OF h4] tlsf_used_heap [OF h] used_blocks_def fun_eq_iff)
  moreover have "tlsf_free_blocks t4 = (tlsf_free_blocks t)(?b \<mapsto> k)"
    using bS eS ne heapD(1) [OF h] by (auto simp: tlsf_free_blocks_def t4 fun_eq_iff)
  ultimately show ?thesis using add tlsf_wfI [OF h4] by (auto simp: k_def)
qed

end
