(* ===== verification/Ring_Buffer.thy ===== *)
theory Ring_Buffer
  imports Tjost_Prelude
begin

text \<open>
  The JACK ring buffer is a library outside the repository. The program uses it through the
  calls collected in \<open>ring_ops\<close>, which the definitions of the development take as an
  argument. The locale \<open>jack_ringbuffer\<close> states the documented behaviour the program
  relies on, over the bytes that wait in the buffer; it is shown to be satisfiable by a
  circular byte array with the two-pointer scheme (one slot is always kept free).
\<close>

section \<open>The operations the program calls\<close>

record 'r ring_ops =
  rb_create :: "nat \<Rightarrow> 'r option"
  rb_write_space :: "'r \<Rightarrow> nat"
  rb_read_space :: "'r \<Rightarrow> nat"
  rb_write :: "'r \<Rightarrow> byte list \<Rightarrow> nat \<times> 'r"
  rb_read :: "'r \<Rightarrow> nat \<Rightarrow> byte list \<times> 'r"
  rb_peek :: "'r \<Rightarrow> nat \<Rightarrow> byte list"
  rb_read_advance :: "'r \<Rightarrow> nat \<Rightarrow> 'r"
  rb_read_vector :: "'r \<Rightarrow> byte list \<times> byte list"

section \<open>The contract\<close>

locale jack_ringbuffer =
  fixes J :: "'r ring_ops"
    and contents :: "'r \<Rightarrow> byte list"
    and cap :: "'r \<Rightarrow> nat"
    and ok :: "'r \<Rightarrow> bool"
  assumes create: "rb_create J n = Some r \<Longrightarrow> ok r \<and> contents r = [] \<and> n \<le> Suc (cap r)"
    and bounded: "ok r \<Longrightarrow> length (contents r) \<le> cap r"
    and read_space: "ok r \<Longrightarrow> rb_read_space J r = length (contents r)"
    and write_space: "ok r \<Longrightarrow> rb_write_space J r = cap r - length (contents r)"
    and write_count: "ok r \<Longrightarrow>
      fst (rb_write J r bs) = min (length bs) (cap r - length (contents r))"
    and write_state: "ok r \<Longrightarrow> ok (snd (rb_write J r bs)) \<and> cap (snd (rb_write J r bs)) = cap r \<and>
      contents (snd (rb_write J r bs)) = contents r @ take (cap r - length (contents r)) bs"
    and read_bytes: "ok r \<Longrightarrow> fst (rb_read J r n) = take n (contents r)"
    and read_state: "ok r \<Longrightarrow> ok (snd (rb_read J r n)) \<and> cap (snd (rb_read J r n)) = cap r \<and>
      contents (snd (rb_read J r n)) = drop n (contents r)"
    and peek: "ok r \<Longrightarrow> rb_peek J r n = take n (contents r)"
    and advance: "ok r \<Longrightarrow> n \<le> length (contents r) \<Longrightarrow>
      ok (rb_read_advance J r n) \<and> cap (rb_read_advance J r n) = cap r \<and>
      contents (rb_read_advance J r n) = drop n (contents r)"
    and vector: "ok r \<Longrightarrow> fst (rb_read_vector J r) @ snd (rb_read_vector J r) = contents r"
begin

lemmas ring_laws = read_space write_space write_count write_state read_bytes read_state peek advance

lemma write_fits:
  "ok r \<Longrightarrow> length bs \<le> rb_write_space J r \<Longrightarrow>
   fst (rb_write J r bs) = length bs \<and> contents (snd (rb_write J r bs)) = contents r @ bs \<and>
   ok (snd (rb_write J r bs)) \<and> cap (snd (rb_write J r bs)) = cap r"
  by (simp add: write_space write_count write_state)

lemma write_space_after:
  "ok r \<Longrightarrow> length bs \<le> rb_write_space J r \<Longrightarrow>
   rb_write_space J (snd (rb_write J r bs)) = rb_write_space J r - length bs"
  using write_fits [of r bs] by (simp add: write_space)

end

section \<open>A circular byte array satisfies the contract\<close>

record circ =
  c_buf :: "byte list"
  c_rp :: nat
  c_wp :: nat

definition circ_ok :: "circ \<Rightarrow> bool" where
  "circ_ok c \<longleftrightarrow> 0 < length (c_buf c) \<and> c_rp c < length (c_buf c) \<and> c_wp c < length (c_buf c)"

definition circ_fill :: "circ \<Rightarrow> nat" where
  "circ_fill c = (if c_rp c \<le> c_wp c then c_wp c - c_rp c
                  else c_wp c + length (c_buf c) - c_rp c)"

definition circ_contents :: "circ \<Rightarrow> byte list" where
  "circ_contents c =
     (if c_rp c \<le> c_wp c then take (c_wp c - c_rp c) (drop (c_rp c) (c_buf c))
      else drop (c_rp c) (c_buf c) @ take (c_wp c) (c_buf c))"

definition circ_cap :: "circ \<Rightarrow> nat" where
  "circ_cap c = length (c_buf c) - 1"

definition circ_advance :: "circ \<Rightarrow> nat \<Rightarrow> circ" where
  "circ_advance c n =
     c\<lparr>c_rp := (if c_rp c + n < length (c_buf c) then c_rp c + n
                 else c_rp c + n - length (c_buf c))\<rparr>"

definition circ_put :: "circ \<Rightarrow> byte \<Rightarrow> circ" where
  "circ_put c b =
     c\<lparr>c_buf := (c_buf c)[c_wp c := b],
       c_wp := (if Suc (c_wp c) < length (c_buf c) then Suc (c_wp c) else 0)\<rparr>"

fun circ_write :: "circ \<Rightarrow> byte list \<Rightarrow> nat \<times> circ" where
  "circ_write c [] = (0, c)"
| "circ_write c (b # bs) =
     (if circ_fill c < circ_cap c
      then (let (n, c') = circ_write (circ_put c b) bs in (Suc n, c')) else (0, c))"

definition circ_read :: "circ \<Rightarrow> nat \<Rightarrow> byte list \<times> circ" where
  "circ_read c n = (take n (circ_contents c), circ_advance c (min n (circ_fill c)))"

definition circ_ops :: "circ ring_ops" where
  "circ_ops = \<lparr>
     rb_create = (\<lambda>n. Some \<lparr>c_buf = replicate (Suc n) 0, c_rp = 0, c_wp = 0\<rparr>),
     rb_write_space = (\<lambda>c. circ_cap c - circ_fill c),
     rb_read_space = circ_fill,
     rb_write = circ_write,
     rb_read = circ_read,
     rb_peek = (\<lambda>c n. take n (circ_contents c)),
     rb_read_advance = circ_advance,
     rb_read_vector = (\<lambda>c. if c_rp c \<le> c_wp c then (circ_contents c, [])
                            else (drop (c_rp c) (c_buf c), take (c_wp c) (c_buf c)))\<rparr>"

lemma circ_length: "circ_ok c \<Longrightarrow> length (circ_contents c) = circ_fill c"
  by (auto simp: circ_ok_def circ_contents_def circ_fill_def)

lemma circ_bounded: "circ_ok c \<Longrightarrow> circ_fill c \<le> circ_cap c"
  by (auto simp: circ_ok_def circ_fill_def circ_cap_def)

lemma circ_advance_ok:
  "circ_ok c \<Longrightarrow> n \<le> circ_fill c \<Longrightarrow> circ_ok (circ_advance c n)"
  by (auto simp: circ_ok_def circ_advance_def circ_fill_def split: if_splits)

lemma circ_advance_cap [simp]: "circ_cap (circ_advance c n) = circ_cap c"
  by (simp add: circ_advance_def circ_cap_def)

lemma circ_advance_contents:
  assumes "circ_ok c" and "n \<le> circ_fill c"
  shows "circ_contents (circ_advance c n) = drop n (circ_contents c)"
proof (cases "c_rp c \<le> c_wp c")
  case True
  with assms show ?thesis
    by (auto simp: circ_ok_def circ_contents_def circ_advance_def circ_fill_def drop_take add.commute)
next
  case False
  with assms show ?thesis
    by (auto simp: circ_ok_def circ_contents_def circ_advance_def circ_fill_def drop_take add.commute)
qed

lemma circ_put_ok: "circ_ok c \<Longrightarrow> circ_ok (circ_put c b)"
  by (auto simp: circ_ok_def circ_put_def)

lemma circ_put_cap [simp]: "circ_cap (circ_put c b) = circ_cap c"
  by (simp add: circ_put_def circ_cap_def)

lemma take_upd_snoc: "i < length xs \<Longrightarrow> take (Suc i) (xs[i := b]) = take i xs @ [b]"
  by (simp add: take_Suc_conv_app_nth)

lemma circ_put_contents:
  assumes ok: "circ_ok c" and space: "circ_fill c < circ_cap c"
  shows "circ_contents (circ_put c b) = circ_contents c @ [b]"
proof (cases "c_rp c \<le> c_wp c")
  case True
  note le = this
  have d: "drop (c_rp c) ((c_buf c)[c_wp c := b]) = (drop (c_rp c) (c_buf c))[c_wp c - c_rp c := b]"
    using le by (simp add: drop_update_swap)
  have len: "c_wp c - c_rp c < length (drop (c_rp c) (c_buf c))"
    using ok le by (auto simp: circ_ok_def)
  show ?thesis
  proof (cases "Suc (c_wp c) < length (c_buf c)")
    case True
    have "Suc (c_wp c) - c_rp c = Suc (c_wp c - c_rp c)" using le by simp
    with True le d take_upd_snoc [OF len] show ?thesis
      by (simp add: circ_contents_def circ_put_def)
  next
    case False
    then have wp: "Suc (c_wp c) = length (c_buf c)" using ok by (auto simp: circ_ok_def)
    from wp le space have rp: "0 < c_rp c" by (auto simp: circ_fill_def circ_cap_def)
    have "Suc (c_wp c - c_rp c) = length (drop (c_rp c) (c_buf c))" using wp le by simp
    then have "take (Suc (c_wp c - c_rp c)) ((drop (c_rp c) (c_buf c))[c_wp c - c_rp c := b]) =
        (drop (c_rp c) (c_buf c))[c_wp c - c_rp c := b]"
      by simp
    with take_upd_snoc [OF len] False le rp d show ?thesis
      by (simp add: circ_contents_def circ_put_def)
  qed
next
  case False
  then have "Suc (c_wp c) < length (c_buf c)" "Suc (c_wp c) < c_rp c"
    using ok space by (auto simp: circ_ok_def circ_fill_def circ_cap_def)
  with False ok show ?thesis
    by (simp add: circ_contents_def circ_put_def circ_ok_def take_upd_snoc)
qed

lemma circ_write_spec:
  "circ_ok c \<Longrightarrow> circ_write c bs = (n, c') \<Longrightarrow>
   circ_ok c' \<and> circ_cap c' = circ_cap c \<and> n = min (length bs) (circ_cap c - circ_fill c) \<and>
   circ_contents c' = circ_contents c @ take (circ_cap c - circ_fill c) bs"
proof (induction c bs arbitrary: n c' rule: circ_write.induct)
  case (1 c)
  then show ?case by simp
next
  case (2 c b bs)
  show ?case
  proof (cases "circ_fill c < circ_cap c")
    case False
    with 2 circ_bounded [of c] show ?thesis by simp
  next
    case True
    obtain n1 c1 where w: "circ_write (circ_put c b) bs = (n1, c1)" by fastforce
    with "2.prems" True have n: "n = Suc n1" and c': "c' = c1" by auto
    have ok: "circ_ok (circ_put c b)" using "2.prems" by (simp add: circ_put_ok)
    have cont: "circ_contents (circ_put c b) = circ_contents c @ [b]"
      using "2.prems" True by (simp add: circ_put_contents)
    then have fill: "circ_fill (circ_put c b) = Suc (circ_fill c)"
      using circ_length [OF ok] circ_length [of c] "2.prems" by simp
    have "circ_cap c - circ_fill c = Suc (circ_cap c - Suc (circ_fill c))" using True by simp
    with "2.IH" [OF True ok w] n c' cont fill show ?thesis by simp
  qed
qed

lemma circ_read_spec:
  assumes "circ_ok c"
  shows "circ_ok (snd (circ_read c n)) \<and> circ_cap (snd (circ_read c n)) = circ_cap c \<and>
    circ_contents (snd (circ_read c n)) = drop n (circ_contents c)"
proof -
  have "drop (min n (circ_fill c)) (circ_contents c) = drop n (circ_contents c)"
    using circ_length [OF assms] by (cases "n \<le> circ_fill c") auto
  with assms show ?thesis
    by (simp add: circ_read_def circ_advance_ok circ_advance_contents)
qed

interpretation circ: jack_ringbuffer circ_ops circ_contents circ_cap circ_ok
proof unfold_locales
  fix n r
  assume "rb_create circ_ops n = Some r"
  then show "circ_ok r \<and> circ_contents r = [] \<and> n \<le> Suc (circ_cap r)"
    by (auto simp: circ_ops_def circ_ok_def circ_contents_def circ_cap_def)
next
  fix r bs assume ok: "circ_ok r"
  show "length (circ_contents r) \<le> circ_cap r"
    using ok circ_bounded circ_length by simp
  show "rb_read_space circ_ops r = length (circ_contents r)"
    using ok by (simp add: circ_ops_def circ_length)
  show "rb_write_space circ_ops r = circ_cap r - length (circ_contents r)"
    using ok by (simp add: circ_ops_def circ_length)
  obtain n c' where w: "circ_write r bs = (n, c')" by fastforce
  show "fst (rb_write circ_ops r bs) = min (length bs) (circ_cap r - length (circ_contents r))"
    using circ_write_spec [OF ok w] w ok by (simp add: circ_ops_def circ_length)
  show "circ_ok (snd (rb_write circ_ops r bs)) \<and> circ_cap (snd (rb_write circ_ops r bs)) = circ_cap r \<and>
      circ_contents (snd (rb_write circ_ops r bs)) =
      circ_contents r @ take (circ_cap r - length (circ_contents r)) bs"
    using circ_write_spec [OF ok w] w ok by (simp add: circ_ops_def circ_length)
  show "fst (rb_read_vector circ_ops r) @ snd (rb_read_vector circ_ops r) = circ_contents r"
    by (simp add: circ_ops_def circ_contents_def)
next
  fix r n assume ok: "circ_ok r"
  show "fst (rb_read circ_ops r n) = take n (circ_contents r)"
    by (simp add: circ_ops_def circ_read_def)
  show "circ_ok (snd (rb_read circ_ops r n)) \<and> circ_cap (snd (rb_read circ_ops r n)) = circ_cap r \<and>
      circ_contents (snd (rb_read circ_ops r n)) = drop n (circ_contents r)"
    using circ_read_spec [OF ok] by (simp add: circ_ops_def)
  show "rb_peek circ_ops r n = take n (circ_contents r)"
    by (simp add: circ_ops_def)
next
  fix r n assume ok: "circ_ok r" and n: "n \<le> length (circ_contents r)"
  then show "circ_ok (rb_read_advance circ_ops r n) \<and>
      circ_cap (rb_read_advance circ_ops r n) = circ_cap r \<and>
      circ_contents (rb_read_advance circ_ops r n) = drop n (circ_contents r)"
    by (simp add: circ_ops_def circ_length circ_advance_ok circ_advance_contents)
qed

end
