(* ===== verification/Pipe.thy ===== *)
theory Pipe
  imports Ring_Buffer
begin

text \<open>
  The event pipe of \<open>tjost_pipe.c\<close>: events are framed into a JACK ring buffer as the memory
  image of a \<open>Tjost_Event\<close> followed by the payload, and are read back by the thread on the
  other side through two callbacks. The theory holds the framing, the two operations, their
  refinement to a queue of events, and the interleavings of one producer with one consumer.
\<close>

section \<open>Frames\<close>

text \<open>
  \<open>sizeof(Tjost_Event)\<close> on an LP64 target: three list pointers (24 bytes), the module
  pointer, the 32-bit time with 4 bytes of padding, the 64-bit size; \<open>buf\<close> is a flexible
  array and adds nothing. The local \<open>tev\<close> of the source is not initialised as a whole, so
  the list pointers and the padding are whatever the stack held (\<open>stk\<close>).
\<close>

abbreviation sizeof_event :: nat where "sizeof_event \<equiv> 48"

definition fill_to :: "nat \<Rightarrow> byte list \<Rightarrow> byte list" where
  "fill_to n bs = take n (bs @ replicate n 0)"

lemma length_fill_to [simp, bytes_simps]: "length (fill_to n bs) = n"
  by (simp add: fill_to_def)

text \<open>A buffer with its first bytes written.\<close>

definition overlay :: "byte list \<Rightarrow> byte list \<Rightarrow> byte list" where
  "overlay old new = new @ drop (length new) old"

lemma overlay_full: "length new = length old \<Longrightarrow> overlay old new = new"
  by (simp add: overlay_def)

record tev_hdr =
  h_module :: "addr option"
  h_time :: nframes
  h_size :: nat

definition event_image :: "byte list \<Rightarrow> tev_hdr \<Rightarrow> byte list" where
  "event_image stk tev =
     fill_to 24 stk @ enc_le 8 (ptr_of (h_module tev)) @ enc_le 4 (unat (h_time tev)) @
     fill_to 4 (drop 24 stk) @ enc_le 8 (h_size tev)"

definition image_event :: "byte list \<Rightarrow> tev_hdr" where
  "image_event bs =
     \<lparr>h_module = of_ptr (dec_le (take 8 (drop 24 bs))),
      h_time = of_nat (dec_le (take 4 (drop 32 bs))),
      h_size = dec_le (take 8 (drop 40 bs))\<rparr>"

lemma length_event_image [simp, bytes_simps]: "length (event_image stk tev) = sizeof_event"
  by (simp add: event_image_def)

lemma image_event_image [bytes_simps]:
  "valid_ptr (h_module tev) \<Longrightarrow> h_size tev < 256 ^ 8 \<Longrightarrow>
   image_event (event_image stk tev) = tev"
  by (simp add: image_event_def event_image_def)

section \<open>Producing and consuming\<close>

text \<open>Sums of sizes are computed in \<open>size_t\<close>, so they wrap at \<open>2 ^ 64\<close>.\<close>

definition size_add :: "nat \<Rightarrow> nat \<Rightarrow> nat" where
  "size_add a b = (a + b) mod 2 ^ 64"

definition tjost_pipe_init :: "'r ring_ops \<Rightarrow> (int \<times> 'r option)" where
  "tjost_pipe_init J =
     (case rb_create J 0x10000 of None \<Rightarrow> (-1, None) | Some r \<Rightarrow> (0, Some r))"

definition tjost_pipe_space :: "'r ring_ops \<Rightarrow> 'r \<Rightarrow> nat" where
  "tjost_pipe_space J r = rb_write_space J r"

definition tjost_pipe_produce ::
  "'r ring_ops \<Rightarrow> byte list \<Rightarrow> 'r \<Rightarrow> addr option \<Rightarrow> nframes \<Rightarrow> byte list \<Rightarrow> int \<times> 'r" where
  "tjost_pipe_produce J stk r module timestamp buf =
     (let tev = \<lparr>h_module = module, h_time = timestamp, h_size = length buf\<rparr>
      in if rb_write_space J r < size_add sizeof_event (h_size tev) then (-1, r)
         else (let (n, r1) = rb_write J r (event_image stk tev)
               in if n \<noteq> sizeof_event then (-1, r1)
                  else (let (k, r2) = rb_write J r1 buf
                        in if k \<noteq> h_size tev then (-1, r2) else (0, r2))))"

text \<open>
  The consumer loop. \<open>alloc_cb\<close> yields the buffer (its address) the payload is read into,
  \<open>store\<close> is the write of the payload there, \<open>sched_cb\<close> tells whether to stop. The
  loop is a \<open>partial_function\<close>: \<open>None\<close> is a run that never returns (or a callback that
  hits undefined behaviour).
\<close>

partial_function (option) tjost_pipe_consume ::
  "'r ring_ops \<Rightarrow> (tev_hdr \<Rightarrow> 's \<Rightarrow> ('p \<times> 's) option) \<Rightarrow> ('p \<Rightarrow> byte list \<Rightarrow> 's \<Rightarrow> 's) \<Rightarrow>
   (tev_hdr \<Rightarrow> 'p \<Rightarrow> 's \<Rightarrow> (bool \<times> 's) option) \<Rightarrow> 'r \<Rightarrow> 's \<Rightarrow> (int \<times> 'r \<times> 's) option" where
  "tjost_pipe_consume J alloc_cb store sched_cb r s =
     (if rb_read_space J r \<ge> sizeof_event then
        if length (rb_peek J r sizeof_event) \<noteq> sizeof_event then Some (-1, r, s)
        else
          let tev = image_event (rb_peek J r sizeof_event) in
          if rb_read_space J r \<ge> size_add sizeof_event (h_size tev) then
            let r1 = rb_read_advance J r sizeof_event in
            Option.bind (alloc_cb tev s) (\<lambda>a.
              let s2 = store (fst a) (fst (rb_read J r1 (h_size tev))) (snd a);
                  r2 = snd (rb_read J r1 (h_size tev)) in
              if length (fst (rb_read J r1 (h_size tev))) \<noteq> h_size tev then Some (-1, r2, s2)
              else Option.bind (sched_cb tev (fst a) s2) (\<lambda>b.
                if fst b then Some (0, r2, snd b)
                else tjost_pipe_consume J alloc_cb store sched_cb r2 (snd b)))
          else tjost_pipe_consume J alloc_cb store sched_cb r s
      else Some (0, r, s))"

section \<open>The abstract queue\<close>

record frame =
  f_stk :: "byte list"
  f_module :: "addr option"
  f_time :: nframes
  f_buf :: "byte list"

definition hdr :: "frame \<Rightarrow> tev_hdr" where
  "hdr f = \<lparr>h_module = f_module f, h_time = f_time f, h_size = length (f_buf f)\<rparr>"

definition frame_bytes :: "frame \<Rightarrow> byte list" where
  "frame_bytes f = event_image (f_stk f) (hdr f) @ f_buf f"

text \<open>A frame the source can produce: a valid pointer, a size that fits with its header.\<close>

definition valid_frame :: "frame \<Rightarrow> bool" where
  "valid_frame f \<longleftrightarrow> valid_ptr (f_module f) \<and> length (f_buf f) + sizeof_event < 2 ^ 64"

definition pipe_bytes :: "frame list \<Rightarrow> byte list" where
  "pipe_bytes fs = concat (map frame_bytes fs)"

fun deliver_all ::
  "(tev_hdr \<Rightarrow> 's \<Rightarrow> ('p \<times> 's) option) \<Rightarrow> ('p \<Rightarrow> byte list \<Rightarrow> 's \<Rightarrow> 's) \<Rightarrow>
   (tev_hdr \<Rightarrow> 'p \<Rightarrow> 's \<Rightarrow> (bool \<times> 's) option) \<Rightarrow> frame list \<Rightarrow> 's \<Rightarrow> (frame list \<times> 's) option" where
  "deliver_all alloc_cb store sched_cb [] s = Some ([], s)"
| "deliver_all alloc_cb store sched_cb (f # fs) s =
     Option.bind (alloc_cb (hdr f) s) (\<lambda>(p, s1).
     Option.bind (sched_cb (hdr f) p (store p (f_buf f) s1)) (\<lambda>(stop, s2).
       if stop then Some (fs, s2) else deliver_all alloc_cb store sched_cb fs s2))"

lemma pipe_bytes_simps [simp]:
  "pipe_bytes [] = []" "pipe_bytes (f # fs) = event_image (f_stk f) (hdr f) @ f_buf f @ pipe_bytes fs"
  "pipe_bytes (fs @ gs) = pipe_bytes fs @ pipe_bytes gs"
  by (simp_all add: pipe_bytes_def frame_bytes_def)

lemma valid_frame_image:
  "valid_frame f \<Longrightarrow> image_event (event_image (f_stk f) (hdr f)) = hdr f"
  by (rule image_event_image) (auto simp: valid_frame_def hdr_def)

lemma valid_frame_size_add:
  "valid_frame f \<Longrightarrow> size_add sizeof_event (length (f_buf f)) = sizeof_event + length (f_buf f)"
  by (simp add: valid_frame_def size_add_def)

lemma h_size_hdr [simp]: "h_size (hdr f) = length (f_buf f)"
  by (simp add: hdr_def)

context jack_ringbuffer
begin

lemma produce_ok:
  assumes ok: "ok r" and v: "valid_frame f"
    and space: "sizeof_event + length (f_buf f) \<le> rb_write_space J r"
  shows "\<exists>r'. tjost_pipe_produce J (f_stk f) r (f_module f) (f_time f) (f_buf f) = (0, r') \<and>
    ok r' \<and> cap r' = cap r \<and> contents r' = contents r @ frame_bytes f"
proof -
  let ?h = "event_image (f_stk f) (hdr f)"
  let ?r1 = "snd (rb_write J r ?h)"
  have w1: "fst (rb_write J r ?h) = sizeof_event" "contents ?r1 = contents r @ ?h" "ok ?r1"
    "cap ?r1 = cap r"
    using write_fits [OF ok, of ?h] space by auto
  have "length (f_buf f) \<le> rb_write_space J ?r1"
    using write_space_after [OF ok, of ?h] space by simp
  then have w2: "fst (rb_write J ?r1 (f_buf f)) = length (f_buf f)"
    "contents (snd (rb_write J ?r1 (f_buf f))) = contents ?r1 @ f_buf f"
    "ok (snd (rb_write J ?r1 (f_buf f)))" "cap (snd (rb_write J ?r1 (f_buf f))) = cap ?r1"
    using write_fits [OF w1(3), of "f_buf f"] by auto
  from w1 w2 space show ?thesis
    by (simp add: tjost_pipe_produce_def valid_frame_size_add [OF v] case_prod_beta
        hdr_def [symmetric] frame_bytes_def Let_def)
qed

lemma produce_full:
  assumes "valid_frame f" and "rb_write_space J r < sizeof_event + length (f_buf f)"
  shows "tjost_pipe_produce J (f_stk f) r (f_module f) (f_time f) (f_buf f) = (-1, r)"
  using assms by (simp add: tjost_pipe_produce_def valid_frame_size_add)

lemma consume_frame:
  assumes ok: "ok r" and v: "valid_frame f" and c: "contents r = frame_bytes f @ rest"
  shows "\<exists>r'. ok r' \<and> cap r' = cap r \<and> contents r' = rest \<and>
    tjost_pipe_consume J alloc_cb store sched_cb r s =
      Option.bind (alloc_cb (hdr f) s) (\<lambda>(p, s1).
      Option.bind (sched_cb (hdr f) p (store p (f_buf f) s1)) (\<lambda>(stop, s2).
        if stop then Some (0, r', s2) else tjost_pipe_consume J alloc_cb store sched_cb r' s2))"
proof -
  let ?h = "event_image (f_stk f) (hdr f)"
  let ?r1 = "rb_read_advance J r sizeof_event"
  let ?r2 = "snd (rb_read J ?r1 (length (f_buf f)))"
  have c': "contents r = ?h @ f_buf f @ rest" using c by (simp add: frame_bytes_def)
  have r1: "ok ?r1" "cap ?r1 = cap r" "contents ?r1 = f_buf f @ rest"
    using advance [OF ok, of sizeof_event] c' by auto
  have r2: "ok ?r2" "cap ?r2 = cap r" "contents ?r2 = rest"
    "fst (rb_read J ?r1 (length (f_buf f))) = f_buf f"
    using read_state [OF r1(1)] read_bytes [OF r1(1)] r1 by auto
  have pk: "rb_peek J r sizeof_event = ?h" using peek [OF ok] c' by simp
  have rs: "rb_read_space J r = sizeof_event + length (f_buf f) + length rest"
    using read_space [OF ok] c' by simp
  show ?thesis
    by (intro exI [of _ ?r2])
      (simp add: tjost_pipe_consume.simps [of J alloc_cb store sched_cb r s] pk rs r2
        valid_frame_image [OF v] valid_frame_size_add [OF v] Let_def case_prod_unfold)
qed

lemma consume_refines:
  assumes "ok r" and "\<forall>f\<in>set fs. valid_frame f" and "contents r = pipe_bytes fs"
  shows "case deliver_all alloc_cb store sched_cb fs s of
      None \<Rightarrow> tjost_pipe_consume J alloc_cb store sched_cb r s = None
    | Some (fs', s') \<Rightarrow> \<exists>r'. tjost_pipe_consume J alloc_cb store sched_cb r s = Some (0, r', s') \<and>
        ok r' \<and> cap r' = cap r \<and> contents r' = pipe_bytes fs'"
  using assms
proof (induction fs arbitrary: r s)
  case Nil
  then show ?case
    by (simp add: tjost_pipe_consume.simps [of J alloc_cb store sched_cb r s] read_space)
next
  case (Cons f fs)
  have v: "valid_frame f" using Cons.prems by simp
  have c: "contents r = frame_bytes f @ pipe_bytes fs"
    using Cons.prems by (simp add: frame_bytes_def)
  obtain r' where r': "ok r'" "cap r' = cap r" "contents r' = pipe_bytes fs"
    and eq: "tjost_pipe_consume J alloc_cb store sched_cb r s =
      Option.bind (alloc_cb (hdr f) s) (\<lambda>(p, s1).
      Option.bind (sched_cb (hdr f) p (store p (f_buf f) s1)) (\<lambda>(stop, s2).
        if stop then Some (0, r', s2) else tjost_pipe_consume J alloc_cb store sched_cb r' s2))"
    using consume_frame [OF Cons.prems(1) v c, of alloc_cb store sched_cb s] by blast
  have vs: "\<forall>f\<in>set fs. valid_frame f" using Cons.prems(2) by simp
  have IH: "case deliver_all alloc_cb store sched_cb fs s2 of
      None \<Rightarrow> tjost_pipe_consume J alloc_cb store sched_cb r' s2 = None
    | Some (fs', s') \<Rightarrow> \<exists>r''. tjost_pipe_consume J alloc_cb store sched_cb r' s2 = Some (0, r'', s') \<and>
        ok r'' \<and> cap r'' = cap r \<and> contents r'' = pipe_bytes fs'" for s2
    using Cons.IH [OF r'(1) vs r'(3), of s2] unfolding r'(2) .
  have IH_None: "deliver_all alloc_cb store sched_cb fs s2 = None \<Longrightarrow>
      tjost_pipe_consume J alloc_cb store sched_cb r' s2 = None" for s2
    using IH [of s2] by simp
  have IH_Some: "deliver_all alloc_cb store sched_cb fs s2 = Some (fs', s') \<Longrightarrow>
      \<exists>r''. tjost_pipe_consume J alloc_cb store sched_cb r' s2 = Some (0, r'', s') \<and>
        ok r'' \<and> cap r'' = cap r \<and> contents r'' = pipe_bytes fs'" for s2 fs' s'
    using IH [of s2] by simp
  show ?case
    using r' unfolding eq by (auto simp: IH_None IH_Some split: Option.bind_splits option.splits)
qed

text \<open>A header whose payload is still missing keeps the loop where it is.\<close>

lemma consume_incomplete:
  assumes ok: "ok r" and v: "valid_frame f"
    and c: "contents r = event_image (f_stk f) (hdr f) @ bs" and short: "length bs < length (f_buf f)"
  shows "tjost_pipe_consume J alloc_cb store sched_cb r s = None"
proof (rule ccontr)
  assume "tjost_pipe_consume J alloc_cb store sched_cb r s \<noteq> None"
  then obtain x where x: "tjost_pipe_consume J alloc_cb store sched_cb r s = Some x" by blast
  have pk: "rb_peek J r sizeof_event = event_image (f_stk f) (hdr f)" using peek [OF ok] c by simp
  have rs: "rb_read_space J r = sizeof_event + length bs" using read_space [OF ok] c by simp
  have "J = J \<longrightarrow> r = r \<longrightarrow> False"
  proof (rule tjost_pipe_consume.raw_induct
      [where P = "\<lambda>J' alloc_cb' store' sched_cb' r' s' y. J' = J \<longrightarrow> r' = r \<longrightarrow> False", OF _ x])
    fix f' J' ac st sc r' s' y
    assume IH: "\<And>J' ac st sc r' s' y. f' J' ac st sc r' s' = Some y \<Longrightarrow> J' = J \<longrightarrow> r' = r \<longrightarrow> False"
      and eq: "(if rb_read_space J' r' \<ge> sizeof_event then
        if length (rb_peek J' r' sizeof_event) \<noteq> sizeof_event then Some (-1, r', s')
        else
          let tev = image_event (rb_peek J' r' sizeof_event) in
          if rb_read_space J' r' \<ge> size_add sizeof_event (h_size tev) then
            let r1 = rb_read_advance J' r' sizeof_event in
            Option.bind (ac tev s') (\<lambda>a.
              let s2 = st (fst a) (fst (rb_read J' r1 (h_size tev))) (snd a);
                  r2 = snd (rb_read J' r1 (h_size tev)) in
              if length (fst (rb_read J' r1 (h_size tev))) \<noteq> h_size tev then Some (-1, r2, s2)
              else Option.bind (sc tev (fst a) s2) (\<lambda>b.
                if fst b then Some (0, r2, snd b) else f' J' ac st sc r2 (snd b)))
          else f' J' ac st sc r' s'
      else Some (0, r', s')) = Some y"
    show "J' = J \<longrightarrow> r' = r \<longrightarrow> False"
    proof (intro impI)
      assume same: "J' = J" "r' = r"
      from eq [unfolded same] short have "f' J ac st sc r s' = Some y"
        by (simp add: pk rs valid_frame_image [OF v] valid_frame_size_add [OF v] Let_def)
      from IH [OF this] show False by simp
    qed
  qed
  then show False by simp
qed

end

end
