(* ===== verification/Host.thy ===== *)
theory Host
  imports Pipe
begin

text \<open>
  The host of \<open>tjost.c\<close>: its state, the message ring, the real-time memory layer
  over the TLSF allocator and the scheduling of events into the sorted queues. What the host
  calls outside \<open>tjost.c\<close> is collected in the record \<open>env\<close>, an argument of every
  definition.
\<close>

section \<open>State\<close>

text \<open>
  A scheduled event (\<open>Tjost_Event\<close>): the address of its allocation, the module it is for
  (\<open>None\<close> is \<open>TJOST_MODULE_BROADCAST\<close>), its time and its payload. The field \<open>size\<close> of the
  source is the length of the payload.
\<close>

record event =
  ev_addr :: addr
  ev_module :: "addr option"
  ev_time :: nframes
  ev_buf :: "byte list"

text \<open>
  A module instance (\<open>Tjost_Module\<close>). \<open>m_children\<close> holds the address of each
  \<open>Tjost_Child\<close> node with the module it names; the last four fields are the serialisation
  buffer of \<open>tjost_lua.c\<close>, with pointers into it as offsets.
\<close>

record tjmod =
  m_type :: "32 word"
  m_queue :: "event list"
  m_children :: "(addr \<times> addr) list"
  has_lua_callback :: bool
  m_buffer :: "byte list"
  m_buf_ptr :: "nat option"
  m_itm :: "nat option"
  m_bndls :: "(addr \<times> nat option) list"

definition TJOST_MODULE_INPUT :: "32 word" where "TJOST_MODULE_INPUT = 1"
definition TJOST_MODULE_OUTPUT :: "32 word" where "TJOST_MODULE_OUTPUT = 2"
definition TJOST_MODULE_IN_OUT :: "32 word" where
  "TJOST_MODULE_IN_OUT = TJOST_MODULE_INPUT OR TJOST_MODULE_OUTPUT"
definition TJOST_MODULE_UPLINK :: "32 word" where "TJOST_MODULE_UPLINK = 6"

record chunk =
  ch_size :: size_t
  ch_area :: addr
  ch_pool :: "addr option"

record ('t, 'r) host =
  tlsf :: 't
  used :: size_t
  rtmem_sum :: size_t
  rtmem_flag :: int
  rtmem_sends :: nat
  rtmem_chunks :: "addr list"
  chunk_at :: "addr \<Rightarrow> chunk"
  rb_rtmem :: 'r
  rb_msg :: 'r
  msg_sends :: nat
  queue :: "event list"
  modules :: "addr list"
  uplinks :: "addr list"
  module_at :: "addr \<Rightarrow> tjmod"
  pipe_uplink_tx_count :: int
  pipe_uplink_tx :: 'r
  pipe_uplink_rx :: 'r
  tx_flushes :: nat
  last_frame :: nframes

text \<open>The interface of \<open>tlsf.h\<close> as the host uses it.\<close>

record 't tlsf_ops =
  ta_malloc :: "'t \<Rightarrow> nat \<Rightarrow> addr option \<times> 't"
  ta_realloc :: "'t \<Rightarrow> addr option \<Rightarrow> nat \<Rightarrow> addr option \<times> 't"
  ta_free :: "'t \<Rightarrow> addr option \<Rightarrow> 't"
  ta_block_size :: "'t \<Rightarrow> addr option \<Rightarrow> nat"
  ta_add_pool :: "'t \<Rightarrow> addr \<Rightarrow> nat \<Rightarrow> addr option \<times> 't"
  ta_remove_pool :: "'t \<Rightarrow> addr option \<Rightarrow> 't"

record ('t, 'r) env =
  ring_api :: "'r ring_ops"
  tlsf_api :: "'t tlsf_ops"
  eina_inlist_sorted_insert :: "event list \<Rightarrow> event \<Rightarrow> (event \<Rightarrow> event \<Rightarrow> int) \<Rightarrow> event list"
  uv_async_send :: "nat \<Rightarrow> int"
  junk :: "byte list"

section \<open>Messages to the non-real-time thread\<close>

text \<open>
  \<open>vsprintf\<close> writes into a static buffer of 1024 bytes: a longer message is a write past
  its end.
\<close>

definition tjost_host_message_push ::
  "('t, 'r) env \<Rightarrow> ('t, 'r) host \<Rightarrow> string \<Rightarrow> ('t, 'r) host option" where
  "tjost_host_message_push E h str =
     (if length str + 1 > 1024 then None
      else let J = ring_api E; size = length str + 1;
               rb = (if rb_write_space J (rb_msg h) < size_add 8 size then rb_msg h
                     else snd (rb_write J (snd (rb_write J (rb_msg h) (enc_le 8 size)))
                                (bytes_of_string str @ [0])))
           in Some (h\<lparr>rb_msg := rb, msg_sends := msg_sends h + 1\<rparr>))"

definition tjost_host_message_pull ::
  "('t, 'r) env \<Rightarrow> ('t, 'r) host \<Rightarrow> (int \<times> byte list) \<times> ('t, 'r) host" where
  "tjost_host_message_pull E h =
     (let J = ring_api E; rb = rb_msg h
      in if rb_read_space J rb \<ge> 8 then
           let size = dec_le (rb_peek J rb 8)
           in if rb_read_space J rb \<ge> size_add 8 size then
                let rb1 = rb_read_advance J rb 8
                in ((1, fst (rb_read J rb1 size)), h\<lparr>rb_msg := snd (rb_read J rb1 size)\<rparr>)
              else ((0, []), h)
         else ((0, []), h))"

text \<open>The handler that prints what waits in the message ring (C string: up to the NUL).\<close>

partial_function (option) msg_handler ::
  "('t, 'r) env \<Rightarrow> ('t, 'r) host \<Rightarrow> string list \<Rightarrow> (string list \<times> ('t, 'r) host) option" where
  "msg_handler E h out =
     (let r = tjost_host_message_pull E h
      in if fst (fst r) \<noteq> 0
         then msg_handler E (snd r)
                (out @ [''MESSAGE: '' @ string_of_bytes (takeWhile (\<lambda>b. b \<noteq> 0) (snd (fst r)))])
         else Some (out, snd r))"

section \<open>Real-time memory\<close>

text \<open>The check both \<open>tjost_alloc\<close> and \<open>tjost_realloc\<close> end with.\<close>

definition request_more :: "('t, 'r) host \<Rightarrow> ('t, 'r) host" where
  "request_more h =
     (if rtmem_flag h = 0 \<and> used h > rtmem_sum h div 2
      then h\<lparr>rtmem_flag := 1, rtmem_sends := rtmem_sends h + 1\<rparr> else h)"

definition tjost_alloc ::
  "('t, 'r) env \<Rightarrow> ('t, 'r) host \<Rightarrow> nat \<Rightarrow> (addr option \<times> ('t, 'r) host) option" where
  "tjost_alloc E h len =
     (let (data, t) = ta_malloc (tlsf_api E) (tlsf h) len
      in do {
        h1 \<leftarrow> (if data = None
               then tjost_host_message_push E (h\<lparr>tlsf := t\<rparr>) ''tjost_alloc: out of memory''
               else Some (h\<lparr>tlsf := t\<rparr>));
        Some (data, request_more
          (h1\<lparr>used := used h1 + of_nat (ta_block_size (tlsf_api E) (tlsf h1) data)\<rparr>))
      })"

definition tjost_realloc ::
  "('t, 'r) env \<Rightarrow> ('t, 'r) host \<Rightarrow> nat \<Rightarrow> addr option \<Rightarrow> (addr option \<times> ('t, 'r) host) option" where
  "tjost_realloc E h len buf =
     (let h0 = h\<lparr>used := used h - of_nat (ta_block_size (tlsf_api E) (tlsf h) buf)\<rparr>;
          (data, t) = ta_realloc (tlsf_api E) (tlsf h0) buf len
      in do {
        h1 \<leftarrow> (if data = None
               then tjost_host_message_push E (h0\<lparr>tlsf := t\<rparr>) ''tjost_realloc: out of memory''
               else Some (h0\<lparr>tlsf := t\<rparr>));
        Some (data, request_more
          (h1\<lparr>used := used h1 + of_nat (ta_block_size (tlsf_api E) (tlsf h1) data)\<rparr>))
      })"

definition tjost_free :: "('t, 'r) env \<Rightarrow> ('t, 'r) host \<Rightarrow> addr option \<Rightarrow> ('t, 'r) host" where
  "tjost_free E h buf =
     h\<lparr>used := used h - of_nat (ta_block_size (tlsf_api E) (tlsf h) buf),
       tlsf := ta_free (tlsf_api E) (tlsf h) buf\<rparr>"

text \<open>The allocator callback handed to Lua (\<open>_alloc\<close>).\<close>

definition lua_alloc ::
  "('t, 'r) env \<Rightarrow> ('t, 'r) host \<Rightarrow> addr option \<Rightarrow> nat \<Rightarrow> nat \<Rightarrow>
   (addr option \<times> ('t, 'r) host) option" where
  "lua_alloc E h ptr osize nsize =
     (if nsize = 0
      then (if ptr \<noteq> None then Some (None, tjost_free E h ptr) else Some (None, h))
      else (if ptr \<noteq> None then tjost_realloc E h nsize ptr else tjost_alloc E h nsize))"

text \<open>
  Extending the memory: the event loop thread maps a chunk (\<open>area\<close> is what \<open>mmap\<close>
  returned, \<open>caddr\<close> the chunk record from \<open>calloc\<close>) and passes its address through
  \<open>rb_rtmem\<close>; the real-time thread adds it to the allocator.
\<close>

definition area_size :: nat where "area_size = 0x1000000"

definition tjost_map_memory_chunk :: "addr \<Rightarrow> addr \<Rightarrow> nat \<Rightarrow> (addr \<times> chunk) option option" where
  "tjost_map_memory_chunk area caddr sz =
     (if area \<noteq> 0
      then (if caddr = 0 then None
            else Some (Some (caddr, \<lparr>ch_size = of_nat sz, ch_area = area, ch_pool = None\<rparr>)))
      else Some None)"

definition tjost_request_memory ::
  "('t, 'r) env \<Rightarrow> addr \<Rightarrow> addr \<Rightarrow> ('t, 'r) host \<Rightarrow> ('t, 'r) host option" where
  "tjost_request_memory E area caddr h =
     do {
       m \<leftarrow> tjost_map_memory_chunk area caddr area_size;
       case m of
         None \<Rightarrow> Some h
       | Some (a, c) \<Rightarrow>
           let h1 = h\<lparr>chunk_at := (chunk_at h)(a := c)\<rparr>; J = ring_api E
           in if rb_write_space J (rb_rtmem h1) < 8 then Some h1
              else Some (h1\<lparr>rb_rtmem := snd (rb_write J (rb_rtmem h1) (enc_le 8 a))\<rparr>)
     }"

fun show_hex :: "nat \<Rightarrow> string" where
  "show_hex n = (let d = (\<lambda>k. char_of (if k < 10 then 48 + k else 87 + k))
                 in if n < 16 then [d n] else show_hex (n div 16) @ [d (n mod 16)])"

declare show_hex.simps [simp del]

definition tjost_add_memory :: "('t, 'r) env \<Rightarrow> ('t, 'r) host \<Rightarrow> ('t, 'r) host option" where
  "tjost_add_memory E h =
     (let J = ring_api E
      in if rb_read_space J (rb_rtmem h) \<ge> 8 then
           let a = dec_le (fst (rb_read J (rb_rtmem h) 8));
               h1 = h\<lparr>rb_rtmem := snd (rb_read J (rb_rtmem h) 8)\<rparr>;
               c = chunk_at h1 a;
               (pool, t) = ta_add_pool (tlsf_api E) (tlsf h1) (ch_area c) (unat (ch_size c));
               h2 = h1\<lparr>tlsf := t, chunk_at := (chunk_at h1)(a := c\<lparr>ch_pool := pool\<rparr>),
                       rtmem_chunks := a # rtmem_chunks h1,
                       rtmem_sum := rtmem_sum h1 + ch_size c, rtmem_flag := 0\<rparr>
           in tjost_host_message_push E h2
                (''Rt memory extended to: 0x'' @ show_hex (unat (rtmem_sum h2) mod 2 ^ 32) @ '' bytes'')
         else Some h)"

fun free_chunks :: "('t, 'r) env \<Rightarrow> addr list \<Rightarrow> ('t, 'r) host \<Rightarrow> ('t, 'r) host" where
  "free_chunks E [] h = h"
| "free_chunks E (a # as) h =
     free_chunks E as (h\<lparr>tlsf := ta_remove_pool (tlsf_api E) (tlsf h) (ch_pool (chunk_at h a)),
                         rtmem_sum := rtmem_sum h - ch_size (chunk_at h a),
                         rtmem_chunks := remove1 a (rtmem_chunks h)\<rparr>)"

definition tjost_free_memory :: "('t, 'r) env \<Rightarrow> ('t, 'r) host \<Rightarrow> ('t, 'r) host" where
  "tjost_free_memory E h = free_chunks E (rtmem_chunks h) h"

section \<open>Scheduling\<close>

definition tjost_schedule_sort :: "event \<Rightarrow> event \<Rightarrow> int" where
  "tjost_schedule_sort ev1 ev2 = (if ev_time ev1 \<le> ev_time ev2 then -1 else 1)"

text \<open>\<open>tev->...\<close> on a failed allocation is a NULL dereference.\<close>

definition tjost_host_schedule ::
  "('t, 'r) env \<Rightarrow> ('t, 'r) host \<Rightarrow> addr option \<Rightarrow> nframes \<Rightarrow> byte list \<Rightarrow> ('t, 'r) host option" where
  "tjost_host_schedule E h module time buf =
     do {
       (p, h1) \<leftarrow> tjost_alloc E h (size_add sizeof_event (length buf));
       tev \<leftarrow> p;
       Some (h1\<lparr>queue := eina_inlist_sorted_insert E (queue h1)
         \<lparr>ev_addr = tev, ev_module = module, ev_time = time, ev_buf = buf\<rparr> tjost_schedule_sort\<rparr>)
     }"

text \<open>
  The inline variant queues the event with an unwritten payload (\<open>junk\<close>) and returns the
  address of the event, whose payload the caller fills with \<open>store_event\<close>.
\<close>

definition tjost_host_schedule_inline ::
  "('t, 'r) env \<Rightarrow> ('t, 'r) host \<Rightarrow> addr option \<Rightarrow> nframes \<Rightarrow> nat \<Rightarrow> (addr \<times> ('t, 'r) host) option" where
  "tjost_host_schedule_inline E h module time len =
     do {
       (p, h1) \<leftarrow> tjost_alloc E h (size_add sizeof_event len);
       tev \<leftarrow> p;
       Some (tev, h1\<lparr>queue := eina_inlist_sorted_insert E (queue h1)
         \<lparr>ev_addr = tev, ev_module = module, ev_time = time, ev_buf = fill_to len (junk E)\<rparr>
         tjost_schedule_sort\<rparr>)
     }"

definition write_event :: "addr \<Rightarrow> byte list \<Rightarrow> event \<Rightarrow> event" where
  "write_event a bs e =
     (if ev_addr e = a then e\<lparr>ev_buf := bs @ drop (length bs) (ev_buf e)\<rparr> else e)"

definition store_event :: "addr \<Rightarrow> byte list \<Rightarrow> ('t, 'r) host \<Rightarrow> ('t, 'r) host" where
  "store_event a bs h = h\<lparr>queue := map (write_event a bs) (queue h)\<rparr>"

definition upd_module :: "addr \<Rightarrow> (tjmod \<Rightarrow> tjmod) \<Rightarrow> ('t, 'r) host \<Rightarrow> ('t, 'r) host" where
  "upd_module m f h = h\<lparr>module_at := (module_at h)(m := f (module_at h m))\<rparr>"

definition tjost_module_schedule ::
  "('t, 'r) env \<Rightarrow> ('t, 'r) host \<Rightarrow> addr \<Rightarrow> nframes \<Rightarrow> byte list \<Rightarrow> ('t, 'r) host option" where
  "tjost_module_schedule E h m time buf =
     do {
       (p, h1) \<leftarrow> tjost_alloc E h (size_add sizeof_event (length buf));
       tev \<leftarrow> p;
       Some (upd_module m (\<lambda>M. M\<lparr>m_queue := eina_inlist_sorted_insert E (m_queue M)
         \<lparr>ev_addr = tev, ev_module = None, ev_time = time, ev_buf = buf\<rparr> tjost_schedule_sort\<rparr>) h1)
     }"

definition ev_remove :: "addr \<Rightarrow> event list \<Rightarrow> event list" where
  "ev_remove a q = filter (\<lambda>e. ev_addr e \<noteq> a) q"

end
