(* ===== verification/Host_Contract.thy ===== *)
theory Host_Contract
  imports Host
begin

text \<open>
  The contracts the host relies on and the lemmas proved once under them: the allocator keeps
  a map of live blocks, Eina inserts into a sorted list at a place its comparator allows. From
  these: how each operation of the host changes the queues, that the queues stay sorted by time
  and own pairwise different live blocks, and that \<open>used\<close> is the sum of the live blocks.
\<close>

section \<open>Contracts\<close>

locale rt_allocator =
  fixes A :: "'t tlsf_ops"
    and live :: "'t \<Rightarrow> addr \<rightharpoonup> nat"
    and aok :: "'t \<Rightarrow> bool"
  assumes live_finite: "aok t \<Longrightarrow> finite (dom (live t))"
    and malloc_None: "aok t \<Longrightarrow> ta_malloc A t n = (None, t') \<Longrightarrow> aok t' \<and> live t' = live t"
    and malloc_Some: "aok t \<Longrightarrow> ta_malloc A t n = (Some a, t') \<Longrightarrow>
      aok t' \<and> a \<noteq> 0 \<and> live t a = None \<and> (\<exists>s\<ge>n. live t' = (live t)(a \<mapsto> s))"
    and realloc_None: "aok t \<Longrightarrow> live t a = Some s \<Longrightarrow> ta_realloc A t (Some a) n = (None, t') \<Longrightarrow>
      aok t' \<and> live t' = (if n = 0 then (live t)(a := None) else live t)"
    and realloc_Some: "aok t \<Longrightarrow> live t a = Some s \<Longrightarrow> ta_realloc A t (Some a) n = (Some b, t') \<Longrightarrow>
      aok t' \<and> b \<noteq> 0 \<and> (b = a \<or> live t b = None) \<and>
      (\<exists>s'\<ge>n. live t' = (live t)(a := None, b \<mapsto> s'))"
    and free: "aok t \<Longrightarrow> live t a = Some s \<Longrightarrow>
      aok (ta_free A t (Some a)) \<and> live (ta_free A t (Some a)) = (live t)(a := None)"
    and block_size: "aok t \<Longrightarrow> live t a = Some s \<Longrightarrow> ta_block_size A t (Some a) = s"
    and block_size_NULL: "ta_block_size A t None = 0"

definition cmp_preorder :: "('a \<Rightarrow> 'a \<Rightarrow> int) \<Rightarrow> bool" where
  "cmp_preorder cmp \<longleftrightarrow> (\<forall>x y z. cmp x y \<le> 0 \<longrightarrow> cmp y z \<le> 0 \<longrightarrow> cmp x z \<le> 0) \<and>
     (\<forall>x y. cmp x y \<le> 0 \<or> cmp y x \<le> 0)"

locale eina_sorted_list =
  fixes si :: "'a list \<Rightarrow> 'a \<Rightarrow> ('a \<Rightarrow> 'a \<Rightarrow> int) \<Rightarrow> 'a list"
  assumes sorted_insert: "cmp_preorder cmp \<Longrightarrow> sorted_wrt (\<lambda>x y. cmp x y \<le> 0) xs \<Longrightarrow>
    \<exists>ys zs. xs = ys @ zs \<and> si xs x cmp = ys @ x # zs \<and>
      (\<forall>y\<in>set ys. cmp y x \<le> 0) \<and> (\<forall>z\<in>set zs. 0 \<le> cmp z x)"

section \<open>The event queue by its order\<close>

abbreviation by_time :: "event list \<Rightarrow> bool" where
  "by_time q \<equiv> sorted_wrt (\<lambda>x y. ev_time x \<le> ev_time y) q"

text \<open>Insertion behind every event that is not later: equal times stay in arrival order.\<close>

definition insert_event :: "event \<Rightarrow> event list \<Rightarrow> event list" where
  "insert_event e q = takeWhile (\<lambda>x. ev_time x \<le> ev_time e) q @ e #
     dropWhile (\<lambda>x. ev_time x \<le> ev_time e) q"

lemma sort_le_iff: "tjost_schedule_sort x y \<le> 0 \<longleftrightarrow> ev_time x \<le> ev_time y"
  by (simp add: tjost_schedule_sort_def)

lemma sort_ge_iff: "0 \<le> tjost_schedule_sort x y \<longleftrightarrow> \<not> ev_time x \<le> ev_time y"
  by (simp add: tjost_schedule_sort_def)

lemma cmp_preorder_sort: "cmp_preorder tjost_schedule_sort"
  unfolding cmp_preorder_def sort_le_iff by auto

lemma insert_event_split:
  assumes "\<forall>y\<in>set ys. ev_time y \<le> ev_time e" and "\<forall>z\<in>set zs. \<not> ev_time z \<le> ev_time e"
  shows "insert_event e (ys @ zs) = ys @ e # zs"
proof -
  have "takeWhile (\<lambda>x. ev_time x \<le> ev_time e) zs = []" "dropWhile (\<lambda>x. ev_time x \<le> ev_time e) zs = zs"
    using assms(2) by (cases zs; simp)+
  with assms(1) show ?thesis by (simp add: insert_event_def takeWhile_append dropWhile_append)
qed

lemma set_insert_event [simp]: "set (insert_event e q) = insert e (set q)"
proof -
  have "set q = set (takeWhile (\<lambda>x. ev_time x \<le> ev_time e) q) \<union>
      set (dropWhile (\<lambda>x. ev_time x \<le> ev_time e) q)"
    by (metis set_append takeWhile_dropWhile_id)
  then show ?thesis by (auto simp: insert_event_def)
qed

lemma by_time_insert_event:
  assumes "by_time q"
  shows "by_time (insert_event e q)"
proof -
  let ?P = "\<lambda>x. ev_time x \<le> ev_time e"
  have "by_time (takeWhile ?P q @ dropWhile ?P q)"
    using assms by (simp only: takeWhile_dropWhile_id)
  then have s: "by_time (takeWhile ?P q)" "by_time (dropWhile ?P q)"
    "\<forall>x\<in>set (takeWhile ?P q). \<forall>y\<in>set (dropWhile ?P q). ev_time x \<le> ev_time y"
    unfolding sorted_wrt_append by blast+
  have "\<forall>y\<in>set (dropWhile ?P q). ev_time e \<le> ev_time y"
  proof (cases "dropWhile ?P q")
    case (Cons d ds)
    then have "\<not> ?P d" by (metis dropWhile_eq_Cons_conv)
    with s(2) Cons show ?thesis by (auto intro: order_trans less_imp_le simp: not_le)
  next
    case Nil
    then show ?thesis by (simp only: Nil list.set ball_empty)
  qed
  with s show ?thesis
    by (auto simp: insert_event_def sorted_wrt_append dest: set_takeWhileD)
qed


section \<open>Queues and the blocks they own\<close>

text \<open>All event queues of the host: its own and the one of each module.\<close>

definition queue_of :: "('t, 'r) host \<Rightarrow> addr option \<Rightarrow> event list" where
  "queue_of h i = (case i of None \<Rightarrow> queue h | Some m \<Rightarrow> m_queue (module_at h m))"

definition owned :: "event list \<Rightarrow> addr set" where
  "owned q = ev_addr ` set q"

definition queues_ok :: "(addr \<rightharpoonup> nat) \<Rightarrow> (addr option \<Rightarrow> event list) \<Rightarrow> bool" where
  "queues_ok lv Q \<longleftrightarrow>
     (\<forall>i. by_time (Q i) \<and> distinct (map ev_addr (Q i)) \<and> owned (Q i) \<subseteq> dom lv) \<and>
     (\<forall>i j. i \<noteq> j \<longrightarrow> owned (Q i) \<inter> owned (Q j) = {})"

definition used_ok :: "(addr \<rightharpoonup> nat) \<Rightarrow> size_t \<Rightarrow> bool" where
  "used_ok lv u \<longleftrightarrow> u = of_nat (\<Sum>a\<in>dom lv. the (lv a))"

lemma owned_simps [simp]:
  "owned [] = {}" "owned (e # q) = insert (ev_addr e) (owned q)"
  "owned (p @ q) = owned p \<union> owned q" "owned (insert_event e q) = insert (ev_addr e) (owned q)"
  by (auto simp: owned_def)

lemma insert_event_ex:
  "\<exists>ys zs. q = ys @ zs \<and> insert_event e q = ys @ e # zs"
  unfolding insert_event_def by (metis takeWhile_dropWhile_id)

lemma distinct_insert_event:
  assumes "distinct (map ev_addr q)" and "ev_addr e \<notin> owned q"
  shows "distinct (map ev_addr (insert_event e q))"
proof -
  obtain ys zs where "q = ys @ zs" "insert_event e q = ys @ e # zs"
    using insert_event_ex by blast
  with assms show ?thesis by (auto simp: owned_def)
qed

lemma by_time_filter: "by_time q \<Longrightarrow> by_time (filter P q)"
  by (rule sorted_wrt_filter)

lemma owned_ev_remove: "owned (ev_remove a q) = owned q - {a}"
  by (auto simp: owned_def ev_remove_def)

lemma ev_remove_head: "distinct (map ev_addr (e # q)) \<Longrightarrow> ev_remove (ev_addr e) (e # q) = q"
  by (auto simp: ev_remove_def filter_id_conv image_iff)

lemma queues_okD:
  assumes "queues_ok lv Q"
  shows "by_time (Q i)" and "distinct (map ev_addr (Q i))" and "owned (Q i) \<subseteq> dom lv"
    and "i \<noteq> j \<Longrightarrow> owned (Q i) \<inter> owned (Q j) = {}"
  using assms unfolding queues_ok_def by blast+

lemma queues_ok_update:
  assumes "queues_ok lv Q" and "by_time q" and "distinct (map ev_addr q)" and "owned q \<subseteq> dom lv'"
    and "\<And>j. j \<noteq> i \<Longrightarrow> owned (Q j) \<subseteq> dom lv' \<and> owned q \<inter> owned (Q j) = {}"
  shows "queues_ok lv' (Q(i := q))"
  unfolding queues_ok_def using assms(2-5) queues_okD [OF assms(1)]
  by (auto simp: Int_commute)

lemma queues_ok_insert:
  assumes ok: "queues_ok lv Q" and fresh: "lv (ev_addr e) = None"
  shows "queues_ok (lv(ev_addr e \<mapsto> s)) (Q(i := insert_event e (Q i)))"
proof (rule queues_ok_update [OF ok])
  have f: "ev_addr e \<notin> owned (Q j)" for j using queues_okD(3) [OF ok, of j] fresh by auto
  show "by_time (insert_event e (Q i))"
    using queues_okD(1) [OF ok] by (rule by_time_insert_event)
  show "distinct (map ev_addr (insert_event e (Q i)))"
    using queues_okD(2) [OF ok] f by (rule distinct_insert_event)
  show "owned (insert_event e (Q i)) \<subseteq> dom (lv(ev_addr e \<mapsto> s))"
    using queues_okD(3) [OF ok, of i] by auto
  show "owned (Q j) \<subseteq> dom (lv(ev_addr e \<mapsto> s)) \<and> owned (insert_event e (Q i)) \<inter> owned (Q j) = {}"
    if "j \<noteq> i" for j
    using queues_okD(3) [OF ok, of j] queues_okD(4) [OF ok, of i j] f [of j] that by auto
qed

lemma queues_ok_remove:
  assumes ok: "queues_ok lv Q" and q: "a \<in> owned (Q i)"
  shows "queues_ok (lv(a := None)) (Q(i := ev_remove a (Q i)))"
proof (rule queues_ok_update [OF ok])
  show "by_time (ev_remove a (Q i))" "distinct (map ev_addr (ev_remove a (Q i)))"
    using queues_okD(1,2) [OF ok, of i] by (simp_all add: ev_remove_def sorted_wrt_filter distinct_map_filter)
  show "owned (ev_remove a (Q i)) \<subseteq> dom (lv(a := None))"
    using queues_okD(3) [OF ok, of i] by (auto simp: owned_ev_remove)
  show "owned (Q j) \<subseteq> dom (lv(a := None)) \<and> owned (ev_remove a (Q i)) \<inter> owned (Q j) = {}"
    if "j \<noteq> i" for j
    using queues_okD(3) [OF ok, of j] queues_okD(4) [OF ok, of i j] q that
    by (auto simp: owned_ev_remove)
qed

lemma queues_ok_mono: "queues_ok lv Q \<Longrightarrow> dom lv \<subseteq> dom lv' \<Longrightarrow> queues_ok lv' Q"
  unfolding queues_ok_def by blast

lemma queues_ok_map:
  assumes ok: "queues_ok lv Q"
    and f: "\<And>e. ev_addr (f e) = ev_addr e" "\<And>e. ev_time (f e) = ev_time e"
  shows "queues_ok lv (Q(i := map f (Q i)))"
proof (rule queues_ok_update [OF ok])
  have m: "map ev_addr (map f (Q i)) = map ev_addr (Q i)" and o: "owned (map f (Q i)) = owned (Q i)"
    using f(1) by (simp_all add: owned_def image_image)
  show "by_time (map f (Q i))" using queues_okD(1) [OF ok] by (simp add: sorted_wrt_map f(2))
  show "distinct (map ev_addr (map f (Q i)))" unfolding m by (rule queues_okD(2) [OF ok])
  show "owned (map f (Q i)) \<subseteq> dom lv" unfolding o by (rule queues_okD(3) [OF ok])
  show "owned (Q j) \<subseteq> dom lv \<and> owned (map f (Q i)) \<inter> owned (Q j) = {}" if "j \<noteq> i" for j
    unfolding o using queues_okD(3) [OF ok, of j] queues_okD(4) [OF ok, of i j] that by auto
qed

lemma used_ok_insert:
  assumes "used_ok lv u" and "finite (dom lv)" and "lv a = None"
  shows "used_ok (lv(a \<mapsto> s)) (u + of_nat s)"
proof -
  have "(\<Sum>x\<in>dom lv. the ((lv(a \<mapsto> s)) x)) = (\<Sum>x\<in>dom lv. the (lv x))"
    using assms(3) by (intro sum.cong) auto
  with assms show ?thesis by (simp add: used_ok_def domIff add.commute)
qed

lemma used_ok_remove:
  assumes "used_ok lv u" and "finite (dom lv)" and "lv a = Some s"
  shows "used_ok (lv(a := None)) (u - of_nat s)"
proof -
  have "(\<Sum>x\<in>dom lv. the (lv x)) = s + (\<Sum>x\<in>dom lv - {a}. the (lv x))"
    using assms by (simp add: sum.remove [of "dom lv" a] domI)
  moreover have "(\<Sum>x\<in>dom lv - {a}. the ((lv(a := None)) x)) = (\<Sum>x\<in>dom lv - {a}. the (lv x))"
    by (intro sum.cong) auto
  ultimately show ?thesis using assms(1) by (simp add: used_ok_def)
qed

end
