(* ===== verification/Host_Lemmas.thy ===== *)
theory Host_Lemmas
  imports Host_Contract
begin

text \<open>
  The behaviour of the host's operations under the contracts of their callees: every operation
  is described by the fields it leaves alone (\<open>mem_frame\<close>), by what it does to the queues and
  to the live blocks, and by the invariant \<open>host_ok\<close> it keeps.
\<close>

section \<open>Frames\<close>

definition mem_frame :: "('t, 'r) host \<Rightarrow> ('t, 'r) host \<Rightarrow> bool" where
  "mem_frame h h' \<longleftrightarrow>
     queue h' = queue h \<and> modules h' = modules h \<and> uplinks h' = uplinks h \<and>
     module_at h' = module_at h \<and> pipe_uplink_tx_count h' = pipe_uplink_tx_count h \<and>
     pipe_uplink_tx h' = pipe_uplink_tx h \<and> pipe_uplink_rx h' = pipe_uplink_rx h \<and>
     tx_flushes h' = tx_flushes h \<and> last_frame h' = last_frame h \<and> rtmem_sum h' = rtmem_sum h \<and>
     rtmem_chunks h' = rtmem_chunks h \<and> chunk_at h' = chunk_at h \<and> rb_rtmem h' = rb_rtmem h"

lemma mem_frameD [host_simps]:
  assumes "mem_frame h h'"
  shows "queue h' = queue h" "modules h' = modules h" "uplinks h' = uplinks h"
    "module_at h' = module_at h" "pipe_uplink_tx_count h' = pipe_uplink_tx_count h"
    "pipe_uplink_tx h' = pipe_uplink_tx h" "pipe_uplink_rx h' = pipe_uplink_rx h"
    "tx_flushes h' = tx_flushes h" "last_frame h' = last_frame h" "rtmem_sum h' = rtmem_sum h"
    "rtmem_chunks h' = rtmem_chunks h" "chunk_at h' = chunk_at h" "rb_rtmem h' = rb_rtmem h"
  using assms by (simp_all add: mem_frame_def)

lemma mem_frame_refl [simp]: "mem_frame h h"
  by (simp add: mem_frame_def)

lemma mem_frame_trans: "mem_frame h h' \<Longrightarrow> mem_frame h' h'' \<Longrightarrow> mem_frame h h''"
  by (simp add: mem_frame_def)

lemma queue_of_frame: "mem_frame h h' \<Longrightarrow> queue_of h' = queue_of h"
  by (rule ext) (simp add: queue_of_def mem_frameD split: option.splits)

lemma queue_of_queue: "queue_of (h\<lparr>queue := q\<rparr>) = (queue_of h)(None := q)"
  by (rule ext) (simp add: queue_of_def split: option.splits)

lemma queue_of_module:
  "queue_of (upd_module m (\<lambda>M. M\<lparr>m_queue := f M\<rparr>) h) =
   (queue_of h)(Some m := f (module_at h m))"
  by (rule ext) (auto simp: queue_of_def upd_module_def split: option.splits)

lemma queue_of_simps [simp]: "queue_of h None = queue h" "queue_of h (Some m) = m_queue (module_at h m)"
  by (simp_all add: queue_of_def)

section \<open>Messages\<close>

lemma message_push_cases:
  "tjost_host_message_push E h s =
   (if length s < 1024
    then Some (h\<lparr>rb_msg := rb_msg (the (tjost_host_message_push E h s)),
                 msg_sends := msg_sends h + 1\<rparr>)
    else None)"
  by (simp add: tjost_host_message_push_def Let_def)

lemma message_push_Some [simp]: "(\<exists>h'. tjost_host_message_push E h s = Some h') \<longleftrightarrow> length s < 1024"
  by (simp add: tjost_host_message_push_def Let_def)

lemma message_push_frame:
  assumes "tjost_host_message_push E h s = Some h'"
  shows "mem_frame h h'" "tlsf h' = tlsf h" "used h' = used h" "rtmem_flag h' = rtmem_flag h"
    "rtmem_sends h' = rtmem_sends h" "msg_sends h' = msg_sends h + 1"
  using assms by (auto simp: tjost_host_message_push_def mem_frame_def Let_def split: if_splits)

section \<open>Operations under the contracts\<close>

text \<open>
  The invariant of the host: the allocator and the message ring are sound, every queue is
  sorted by time and its events live in different live blocks. \<open>used_exact\<close>: the counter
  \<open>used\<close> is the sum of the live blocks.
\<close>

definition host_wf ::
  "('r \<Rightarrow> bool) \<Rightarrow> ('t \<Rightarrow> addr \<rightharpoonup> nat) \<Rightarrow> ('t \<Rightarrow> bool) \<Rightarrow> ('t, 'r) host \<Rightarrow> bool" where
  "host_wf rok live aok h \<longleftrightarrow> aok (tlsf h) \<and> rok (rb_msg h) \<and> queues_ok (live (tlsf h)) (queue_of h)"

definition used_exact :: "('t \<Rightarrow> addr \<rightharpoonup> nat) \<Rightarrow> ('t, 'r) host \<Rightarrow> bool" where
  "used_exact live h \<longleftrightarrow> used_ok (live (tlsf h)) (used h)"

locale tjost_env =
  ring: jack_ringbuffer "ring_api E" contents cap rok +
  mem: rt_allocator "tlsf_api E" live aok +
  lst: eina_sorted_list "eina_inlist_sorted_insert E"
  for E :: "('t, 'r) env" and contents cap rok live aok
begin

abbreviation host_ok :: "('t, 'r) host \<Rightarrow> bool" where
  "host_ok \<equiv> host_wf rok live aok"

abbreviation used_inv :: "('t, 'r) host \<Rightarrow> bool" where
  "used_inv \<equiv> used_exact live"

lemma message_push_rok:
  "rok (rb_msg h) \<Longrightarrow> tjost_host_message_push E h s = Some h' \<Longrightarrow> rok (rb_msg h')"
  by (auto simp: tjost_host_message_push_def Let_def ring.write_state split: if_splits)

lemma message_push_ok:
  "host_ok h \<Longrightarrow> tjost_host_message_push E h s = Some h' \<Longrightarrow> host_ok h'"
  using message_push_frame [of E h s h'] queue_of_frame [of h h']
  by (auto simp: host_wf_def intro: message_push_rok)

lemma message_push_used:
  "tjost_host_message_push E h s = Some h' \<Longrightarrow> used_inv h' = used_inv h"
  using message_push_frame [of E h s h'] by (simp add: used_exact_def)

lemma eina_insert:
  assumes "by_time q"
  shows "eina_inlist_sorted_insert E q e tjost_schedule_sort = insert_event e q"
proof -
  have "sorted_wrt (\<lambda>x y. tjost_schedule_sort x y \<le> 0) q"
    using assms by (simp add: sort_le_iff)
  from lst.sorted_insert [OF cmp_preorder_sort this, of e] obtain ys zs where
    "q = ys @ zs" "eina_inlist_sorted_insert E q e tjost_schedule_sort = ys @ e # zs"
    "\<forall>y\<in>set ys. ev_time y \<le> ev_time e" "\<forall>z\<in>set zs. \<not> ev_time z \<le> ev_time e"
    by (auto simp: sort_le_iff sort_ge_iff)
  then show ?thesis by (simp add: insert_event_split)
qed

lemma request_more_simps [simp]:
  "tlsf (request_more h) = tlsf h" "used (request_more h) = used h" "rb_msg (request_more h) = rb_msg h"
  by (simp_all add: request_more_def)

lemma request_more_frame: "mem_frame h (request_more h)"
  by (simp add: request_more_def mem_frame_def)

lemma alloc_total: "\<exists>p h'. tjost_alloc E h n = Some (p, h')"
  by (auto simp: tjost_alloc_def tjost_host_message_push_def Let_def split: prod.splits)

lemma alloc_spec:
  assumes ok: "aok (tlsf h)" "rok (rb_msg h)" and a: "tjost_alloc E h n = Some (p, h')"
  shows "mem_frame h h'" "aok (tlsf h')" "rok (rb_msg h')"
    "p = None \<Longrightarrow> live (tlsf h') = live (tlsf h)"
    "p = Some b \<Longrightarrow> b \<noteq> 0 \<and> live (tlsf h) b = None \<and> (\<exists>s\<ge>n. live (tlsf h') = (live (tlsf h))(b \<mapsto> s))"
    "used_inv h \<Longrightarrow> used_inv h'"
proof -
  obtain d t where m: "ta_malloc (tlsf_api E) (tlsf h) n = (d, t)" by fastforce
  obtain h1 where h1: "(if d = None then tjost_host_message_push E (h\<lparr>tlsf := t\<rparr>) ''tjost_alloc: out of memory''
      else Some (h\<lparr>tlsf := t\<rparr>)) = Some h1"
    and p: "p = d" and h': "h' = request_more
      (h1\<lparr>used := used h1 + of_nat (ta_block_size (tlsf_api E) (tlsf h1) d)\<rparr>)"
    using a m by (auto simp: tjost_alloc_def split: Option.bind_splits)
  have f1: "mem_frame h h1" "tlsf h1 = t" "used h1 = used h" "rok (rb_msg h1)"
    using h1 ok message_push_frame [of E "h\<lparr>tlsf := t\<rparr>" _ h1] message_push_rok [of "h\<lparr>tlsf := t\<rparr>" _ h1]
    by (auto simp: mem_frame_def split: if_splits)
  have f2: "mem_frame h1 (h1\<lparr>used := used h1 + of_nat (ta_block_size (tlsf_api E) (tlsf h1) d)\<rparr>)"
    by (simp add: mem_frame_def)
  show "mem_frame h h'"
    unfolding h' by (rule mem_frame_trans [OF mem_frame_trans [OF f1(1) f2] request_more_frame])
  show "rok (rb_msg h')" using f1 by (simp add: h')
  have t': "tlsf h' = t" using f1 by (simp add: h')
  show "aok (tlsf h')"
    using m mem.malloc_None [OF ok(1)] mem.malloc_Some [OF ok(1)] by (cases d) (auto simp: t')
  show n: "p = None \<Longrightarrow> live (tlsf h') = live (tlsf h)"
    using m mem.malloc_None [OF ok(1)] by (auto simp: t' p)
  show s: "p = Some b \<Longrightarrow> b \<noteq> 0 \<and> live (tlsf h) b = None \<and> (\<exists>s\<ge>n. live (tlsf h') = (live (tlsf h))(b \<mapsto> s))" for b
    using m mem.malloc_Some [OF ok(1)] by (auto simp: t' p)
  show "used_inv h'" if u: "used_inv h"
  proof (cases d)
    case None
    with n p u f1 show ?thesis by (simp add: used_exact_def h' mem.block_size_NULL)
  next
    case (Some b)
    with s p obtain sz where sz: "live (tlsf h) b = None" "live t = (live (tlsf h))(b \<mapsto> sz)"
      by (auto simp: t')
    have "aok t" using \<open>aok (tlsf h')\<close> by (simp add: t')
    then have "ta_block_size (tlsf_api E) t (Some b) = sz"
      using mem.block_size [of t b sz] sz by simp
    then show ?thesis
      using used_ok_insert [OF _ mem.live_finite [OF ok(1)] sz(1), of "used h" sz] u Some f1 sz
      by (simp add: used_exact_def h')
  qed
qed

lemma free_spec:
  assumes ok: "aok (tlsf h)" and a: "live (tlsf h) a = Some s"
  shows "mem_frame h (tjost_free E h (Some a))" "aok (tlsf (tjost_free E h (Some a)))"
    "rb_msg (tjost_free E h (Some a)) = rb_msg h"
    "live (tlsf (tjost_free E h (Some a))) = (live (tlsf h))(a := None)"
    "used_inv h \<Longrightarrow> used_inv (tjost_free E h (Some a))"
  using mem.free [OF ok a] mem.block_size [OF ok a]
    used_ok_remove [OF _ mem.live_finite [OF ok] a, of "used h"]
  by (auto simp: tjost_free_def mem_frame_def used_exact_def)

end

section \<open>Scheduling\<close>

text \<open>The event an operation queued, with the address it was given.\<close>

abbreviation mk_event :: "addr \<Rightarrow> addr option \<Rightarrow> nframes \<Rightarrow> byte list \<Rightarrow> event" where
  "mk_event a m t buf \<equiv> \<lparr>ev_addr = a, ev_module = m, ev_time = t, ev_buf = buf\<rparr>"

definition queue_frame :: "('t, 'r) host \<Rightarrow> ('t, 'r) host \<Rightarrow> bool" where
  "queue_frame h h' \<longleftrightarrow> mem_frame h (h'\<lparr>queue := queue h, module_at := module_at h\<rparr>) \<and>
     (\<forall>m. (module_at h' m)\<lparr>m_queue := m_queue (module_at h m)\<rparr> = module_at h m)"

lemma queue_frame_refl [simp]: "queue_frame h h"
  by (simp add: queue_frame_def)

lemma queue_frame_mem: "mem_frame h h' \<Longrightarrow> queue_frame h h'"
  by (simp add: queue_frame_def mem_frame_def)

lemma queue_frame_trans: "queue_frame h h' \<Longrightarrow> queue_frame h' h'' \<Longrightarrow> queue_frame h h''"
  unfolding queue_frame_def mem_frame_def
  by (clarsimp, metis (no_types, lifting) tjmod.surjective tjmod.update_convs(2))

lemma queue_frame_queue: "queue_frame h (h\<lparr>queue := q\<rparr>)"
  by (simp add: queue_frame_def mem_frame_def)

lemma queue_frame_module: "queue_frame h (upd_module m (\<lambda>M. M\<lparr>m_queue := f M\<rparr>) h)"
  by (simp add: queue_frame_def mem_frame_def upd_module_def)

context tjost_env
begin

lemma schedule_at_spec:
  assumes ok: "host_ok h" and a: "tjost_alloc E h n = Some (Some a, h1)"
    and q: "queue_of h' = (queue_of h1)(i := insert_event e (queue_of h1 i))"
    and e: "ev_addr e = a" and same: "tlsf h' = tlsf h1" "rb_msg h' = rb_msg h1" "used h' = used h1"
  shows "host_ok h'" "queue_of h' = (queue_of h)(i := insert_event e (queue_of h i))"
    "a \<noteq> 0" "live (tlsf h) a = None" "\<exists>s\<ge>n. live (tlsf h') = (live (tlsf h))(a \<mapsto> s)"
    "used_inv h \<Longrightarrow> used_inv h'"
proof -
  have h: "aok (tlsf h)" "rok (rb_msg h)" "queues_ok (live (tlsf h)) (queue_of h)"
    using ok by (simp_all add: host_wf_def)
  note sp = alloc_spec [OF h(1,2) a]
  have q1: "queue_of h1 = queue_of h" using sp(1) by (rule queue_of_frame)
  show "queue_of h' = (queue_of h)(i := insert_event e (queue_of h i))" unfolding q q1 by simp
  show "a \<noteq> 0" "live (tlsf h) a = None" using sp(5) [of a] by simp_all
  from sp(5) [of a] obtain s where s: "s \<ge> n" "live (tlsf h1) = (live (tlsf h))(a \<mapsto> s)"
    "live (tlsf h) a = None" by auto
  then show "\<exists>s\<ge>n. live (tlsf h') = (live (tlsf h))(a \<mapsto> s)" by (auto simp: same)
  show "host_ok h'"
    unfolding host_wf_def q q1 same s(2)
    using sp(2,3) queues_ok_insert [OF h(3), of e s i] s(3) e by simp
  show "used_inv h \<Longrightarrow> used_inv h'" using sp(6) by (simp add: used_exact_def same)
qed

lemma host_schedule_spec:
  assumes ok: "host_ok h" and r: "tjost_host_schedule E h m t buf = Some h'"
  shows "\<exists>a. a \<noteq> 0 \<and> live (tlsf h) a = None \<and>
    (\<exists>s\<ge>size_add sizeof_event (length buf). live (tlsf h') = (live (tlsf h))(a \<mapsto> s)) \<and>
    queue_of h' = (queue_of h)(None := insert_event (mk_event a m t buf) (queue h)) \<and>
    host_ok h' \<and> queue_frame h h' \<and> (used_inv h \<longrightarrow> used_inv h')"
proof -
  from r obtain a h1 where a: "tjost_alloc E h (size_add sizeof_event (length buf)) = Some (Some a, h1)"
    and h': "h' = h1\<lparr>queue := eina_inlist_sorted_insert E (queue h1) (mk_event a m t buf)
      tjost_schedule_sort\<rparr>"
    by (auto simp: tjost_host_schedule_def split: Option.bind_splits)
  have h: "aok (tlsf h)" "rok (rb_msg h)" "queues_ok (live (tlsf h)) (queue_of h)"
    using ok by (simp_all add: host_wf_def)
  have f: "mem_frame h h1" using alloc_spec [OF h(1,2) a] by simp
  have "by_time (queue h1)" using queues_okD(1) [OF h(3), of None] f by (simp add: mem_frameD)
  then have q: "queue_of h' = (queue_of h1)(None := insert_event (mk_event a m t buf) (queue_of h1 None))"
    by (simp add: h' eina_insert queue_of_queue)
  have "queue_frame h h'"
    unfolding h' by (rule queue_frame_trans [OF queue_frame_mem [OF f] queue_frame_queue])
  with schedule_at_spec [OF ok a q] show ?thesis by (intro exI [of _ a]) (simp add: h')
qed

lemma host_schedule_inline_spec:
  assumes ok: "host_ok h" and r: "tjost_host_schedule_inline E h m t len = Some (a, h')"
  shows "a \<noteq> 0 \<and> live (tlsf h) a = None \<and>
    (\<exists>s\<ge>size_add sizeof_event len. live (tlsf h') = (live (tlsf h))(a \<mapsto> s)) \<and>
    queue_of h' = (queue_of h)(None := insert_event (mk_event a m t (fill_to len (junk E))) (queue h)) \<and>
    host_ok h' \<and> queue_frame h h' \<and> (used_inv h \<longrightarrow> used_inv h')"
proof -
  from r obtain h1 where a: "tjost_alloc E h (size_add sizeof_event len) = Some (Some a, h1)"
    and h': "h' = h1\<lparr>queue := eina_inlist_sorted_insert E (queue h1)
      (mk_event a m t (fill_to len (junk E))) tjost_schedule_sort\<rparr>"
    by (auto simp: tjost_host_schedule_inline_def split: Option.bind_splits)
  have h: "aok (tlsf h)" "rok (rb_msg h)" "queues_ok (live (tlsf h)) (queue_of h)"
    using ok by (simp_all add: host_wf_def)
  have f: "mem_frame h h1" using alloc_spec [OF h(1,2) a] by simp
  have "by_time (queue h1)" using queues_okD(1) [OF h(3), of None] f by (simp add: mem_frameD)
  then have q: "queue_of h' = (queue_of h1)(None := insert_event
      (mk_event a m t (fill_to len (junk E))) (queue_of h1 None))"
    by (simp add: h' eina_insert queue_of_queue)
  have "queue_frame h h'"
    unfolding h' by (rule queue_frame_trans [OF queue_frame_mem [OF f] queue_frame_queue])
  with schedule_at_spec [OF ok a q] show ?thesis by (simp add: h')
qed

lemma module_schedule_spec:
  assumes ok: "host_ok h" and r: "tjost_module_schedule E h m t buf = Some h'"
  shows "\<exists>a. a \<noteq> 0 \<and> live (tlsf h) a = None \<and>
    (\<exists>s\<ge>size_add sizeof_event (length buf). live (tlsf h') = (live (tlsf h))(a \<mapsto> s)) \<and>
    queue_of h' = (queue_of h)(Some m := insert_event (mk_event a None t buf) (queue_of h (Some m))) \<and>
    host_ok h' \<and> queue_frame h h' \<and> (used_inv h \<longrightarrow> used_inv h')"
proof -
  from r obtain a h1 where a: "tjost_alloc E h (size_add sizeof_event (length buf)) = Some (Some a, h1)"
    and h': "h' = upd_module m (\<lambda>M. M\<lparr>m_queue := eina_inlist_sorted_insert E (m_queue M)
      (mk_event a None t buf) tjost_schedule_sort\<rparr>) h1"
    by (auto simp: tjost_module_schedule_def split: Option.bind_splits)
  have h: "aok (tlsf h)" "rok (rb_msg h)" "queues_ok (live (tlsf h)) (queue_of h)"
    using ok by (simp_all add: host_wf_def)
  have f: "mem_frame h h1" using alloc_spec [OF h(1,2) a] by simp
  have "by_time (m_queue (module_at h1 m))"
    using queues_okD(1) [OF h(3), of "Some m"] f by (simp add: mem_frameD)
  then have q: "queue_of h' = (queue_of h1)(Some m := insert_event (mk_event a None t buf)
      (queue_of h1 (Some m)))"
    by (simp add: h' queue_of_module eina_insert)
  have "queue_frame h h'"
    unfolding h' by (rule queue_frame_trans [OF queue_frame_mem [OF f] queue_frame_module])
  with schedule_at_spec [OF ok a q] show ?thesis
    by (intro exI [of _ a]) (simp add: h' upd_module_def)
qed

text \<open>Scheduling fails (a NULL dereference) exactly when the allocator is out of memory.\<close>

lemma schedule_None_iff:
  "tjost_host_schedule E h m t buf = None \<longleftrightarrow>
   fst (ta_malloc (tlsf_api E) (tlsf h) (size_add sizeof_event (length buf))) = None"
  "tjost_module_schedule E h k t buf = None \<longleftrightarrow>
   fst (ta_malloc (tlsf_api E) (tlsf h) (size_add sizeof_event (length buf))) = None"
  by (auto simp: tjost_host_schedule_def tjost_module_schedule_def tjost_alloc_def
      tjost_host_message_push_def Let_def split: Option.bind_splits prod.splits if_splits)

lemma store_event_ok: "host_ok h \<Longrightarrow> host_ok (store_event a bs h)"
proof -
  assume ok: "host_ok h"
  have "queues_ok (live (tlsf h)) ((queue_of h)(None := map (write_event a bs) (queue_of h None)))"
    using ok by (intro queues_ok_map) (auto simp: host_wf_def write_event_def)
  with ok show ?thesis by (simp add: host_wf_def store_event_def queue_of_queue)
qed

text \<open>Dropping a processed event: it leaves its queue and its block is freed.\<close>

lemma release_spec:
  assumes ok: "host_ok h" and a: "a \<in> owned (queue_of h i)"
    and q: "queue_of h1 = (queue_of h)(i := ev_remove a (queue_of h i))"
    and same: "tlsf h1 = tlsf h" "rb_msg h1 = rb_msg h" "used h1 = used h"
  shows "host_ok (tjost_free E h1 (Some a))"
    "queue_of (tjost_free E h1 (Some a)) = (queue_of h)(i := ev_remove a (queue_of h i))"
    "live (tlsf (tjost_free E h1 (Some a))) = (live (tlsf h))(a := None)"
    "used_inv h \<Longrightarrow> used_inv (tjost_free E h1 (Some a))"
proof -
  have h: "aok (tlsf h)" "rok (rb_msg h)" "queues_ok (live (tlsf h)) (queue_of h)"
    using ok by (simp_all add: host_wf_def)
  from queues_okD(3) [OF h(3), of i] a obtain s where s: "live (tlsf h) a = Some s" by blast
  have s1: "aok (tlsf h1)" "live (tlsf h1) a = Some s" using h s by (simp_all add: same)
  note f = free_spec [OF s1]
  have q': "queue_of (tjost_free E h1 (Some a)) = queue_of h1" using f(1) by (rule queue_of_frame)
  then show "queue_of (tjost_free E h1 (Some a)) = (queue_of h)(i := ev_remove a (queue_of h i))"
    by (simp add: q)
  show "live (tlsf (tjost_free E h1 (Some a))) = (live (tlsf h))(a := None)" using f by (simp add: same)
  show "host_ok (tjost_free E h1 (Some a))"
    unfolding host_wf_def q' q f(4) same(1)
    using f(2,3) queues_ok_remove [OF h(3) a] h(2) by (simp add: same)
  show "used_inv h \<Longrightarrow> used_inv (tjost_free E h1 (Some a))"
    using f(5) by (simp add: used_exact_def same)
qed

end

end
