(* ===== verification/Event_Loop.thy ===== *)
theory Event_Loop
  imports Host_Lemmas
begin

text \<open>
  The event loop that the main callback and every output module of Tjost contain: walk the
  queue while events are due in this period, repair the time of immediate and late events,
  hand each to the module's code, remove it from the queue and free it. The loop is stated once,
  with the module's code as an argument, and its properties are proved once in the locale
  \<open>event_handler\<close>, the contract between the loop and the code it calls.
\<close>

section \<open>The loop\<close>

definition late_message :: "string \<Rightarrow> nframes \<Rightarrow> string" where
  "late_message name d = name @ '': late event '' @ show_int (sint d)"

text \<open>
  The first lines of the loop body. \<open>late_to\<close> is the time a late event gets: \<open>last_t\<close>
  everywhere but in \<open>mod_loopback.c\<close>.
\<close>

definition stamp ::
  "('t, 'r) env \<Rightarrow> string \<Rightarrow> nframes \<Rightarrow> nframes \<Rightarrow> event \<Rightarrow> ('t, 'r) host \<Rightarrow> (event \<times> ('t, 'r) host) option" where
  "stamp E name late_to last_t tev h =
     (if ev_time tev = 0 then Some (tev\<lparr>ev_time := last_t\<rparr>, h)
      else if ev_time tev < last_t
      then do { h1 \<leftarrow> tjost_host_message_push E h (late_message name (ev_time tev - last_t));
                Some (tev\<lparr>ev_time := late_to\<rparr>, h1) }
      else Some (tev, h))"

definition dequeue :: "addr option \<Rightarrow> addr \<Rightarrow> ('t, 'r) host \<Rightarrow> ('t, 'r) host" where
  "dequeue i a h =
     (case i of None \<Rightarrow> h\<lparr>queue := ev_remove a (queue h)\<rparr>
      | Some m \<Rightarrow> upd_module m (\<lambda>M. M\<lparr>m_queue := ev_remove a (m_queue M)\<rparr>) h)"

text \<open>
  The loop over the nodes of the queue of \<open>i\<close> (\<open>None\<close>: the host's). The list argument is
  what \<open>EINA_INLIST_FOREACH_SAFE\<close> still has to visit.
\<close>

fun drain ::
  "('t, 'r) env \<Rightarrow> string \<Rightarrow> nframes \<Rightarrow> nframes \<Rightarrow> nframes \<Rightarrow> addr option \<Rightarrow>
   (event \<Rightarrow> 's \<times> ('t, 'r) host \<Rightarrow> ('s \<times> ('t, 'r) host) option) \<Rightarrow>
   event list \<Rightarrow> 's \<times> ('t, 'r) host \<Rightarrow> ('s \<times> ('t, 'r) host) option" where
  "drain E name late_to last_t nframes i body [] S = Some S"
| "drain E name late_to last_t nframes i body (tev # l) S =
     (if ev_time tev \<ge> last_t + nframes then Some S
      else do {
        (tev1, h1) \<leftarrow> stamp E name late_to last_t tev (snd S);
        (s2, h2) \<leftarrow> body tev1 (fst S, h1);
        drain E name late_to last_t nframes i body l
          (s2, tjost_free E (dequeue i (ev_addr tev) h2) (Some (ev_addr tev)))
      })"

section \<open>What the loop is meant to do\<close>

definition due :: "nframes \<Rightarrow> nframes \<Rightarrow> event \<Rightarrow> bool" where
  "due last_t nframes e \<longleftrightarrow> ev_time e < last_t + nframes"

definition stamped :: "nframes \<Rightarrow> nframes \<Rightarrow> event \<Rightarrow> event" where
  "stamped late_to last_t e =
     (if ev_time e = 0 then e\<lparr>ev_time := last_t\<rparr>
      else if ev_time e < last_t then e\<lparr>ev_time := late_to\<rparr> else e)"

lemma stamped_simps [simp]:
  "ev_addr (stamped l t e) = ev_addr e" "ev_module (stamped l t e) = ev_module e"
  "ev_buf (stamped l t e) = ev_buf e"
  by (simp_all add: stamped_def)

text \<open>With \<open>late_to = last_t\<close> every handled event lies in the current period.\<close>

lemma stamped_in_period:
  assumes "due last_t n e" and "last_t \<le> last_t + n"
  shows "last_t \<le> ev_time (stamped last_t last_t e) \<and>
    (0 < n \<longrightarrow> ev_time (stamped last_t last_t e) < last_t + n)"
proof -
  have "0 < n \<Longrightarrow> last_t < last_t + n"
    using assms(2) by (metis add.right_neutral add_left_cancel order_le_less word_neq_0_conv)
  with assms show ?thesis by (auto simp: stamped_def due_def)
qed

lemma late_message_short: "length name \<le> 900 \<Longrightarrow> length (late_message name d) < 1024"
  using length_show_sint [of d] by (simp add: late_message_def)

lemma stamp_total:
  assumes "length name \<le> 900"
  obtains h1 where "stamp E name late_to last_t e h = Some (stamped late_to last_t e, h1)"
proof -
  obtain h1 where "tjost_host_message_push E h (late_message name (ev_time e - last_t)) = Some h1"
    using message_push_Some [of E h "late_message name (ev_time e - last_t)"]
      late_message_short [OF assms] by blast
  with that show thesis by (cases "ev_time e = 0 \<or> \<not> ev_time e < last_t") (auto simp: stamp_def stamped_def)
qed

text \<open>The loop itself never faults: it returns whenever the module's code does.\<close>

lemma drain_total:
  assumes "length name \<le> 900" and "\<And>e S. body e S \<noteq> None"
  shows "drain E name late_to last_t n i body q S \<noteq> None"
proof (induction q arbitrary: S)
  case Nil
  then show ?case by simp
next
  case (Cons e q)
  obtain h1 where st: "stamp E name late_to last_t e (snd S) = Some (stamped late_to last_t e, h1)"
    using assms(1) by (rule stamp_total)
  obtain s2 h2 where "body (stamped late_to last_t e) (fst S, h1) = Some (s2, h2)"
    using assms(2) [of "stamped late_to last_t e" "(fst S, h1)"] by auto
  with st Cons.IH show ?case by simp
qed

lemma stamp_frame:
  assumes "stamp E name late_to last_t e h = Some (e1, h1)"
  shows "e1 = stamped late_to last_t e" "mem_frame h h1" "tlsf h1 = tlsf h" "used h1 = used h"
  using assms message_push_frame [of E h _ h1]
  by (auto simp: stamp_def stamped_def split: if_splits Option.bind_splits)

lemma takeWhile_due_filter:
  "by_time q \<Longrightarrow> takeWhile (due last_t n) q = filter (due last_t n) q \<and>
   dropWhile (due last_t n) q = filter (\<lambda>e. \<not> due last_t n e) q"
proof (induction q)
  case (Cons e q)
  show ?case
  proof (cases "due last_t n e")
    case False
    with Cons.prems have "\<forall>x\<in>set q. \<not> due last_t n x" by (auto simp: due_def)
    with False show ?thesis by (simp add: filter_empty_conv filter_id_conv)
  qed (use Cons in simp)
qed simp

section \<open>Events without their addresses\<close>

text \<open>
  The address an event was allocated at is of no interest to what is played when. The view
  of a queue forgets it; the operations act on views as on the queues.
\<close>

definition strip :: "event \<Rightarrow> event" where
  "strip e = e\<lparr>ev_addr := 0\<rparr>"

abbreviation mk_view :: "addr option \<Rightarrow> nframes \<Rightarrow> byte list \<Rightarrow> event" where
  "mk_view m t buf \<equiv> mk_event 0 m t buf"

definition view :: "('t, 'r) host \<Rightarrow> addr option \<Rightarrow> event list" where
  "view h i = map strip (queue_of h i)"

lemma strip_simps [simp]:
  "ev_time (strip e) = ev_time e" "ev_module (strip e) = ev_module e" "ev_buf (strip e) = ev_buf e"
  "ev_addr (strip e) = 0" "strip (mk_event a m t buf) = mk_view m t buf" "strip (strip e) = strip e"
  by (simp_all add: strip_def)

lemma map_strip_insert: "map strip (insert_event e q) = insert_event (strip e) (map strip q)"
  by (simp add: insert_event_def takeWhile_map dropWhile_map o_def)

lemma stamped_strip: "stamped l t (strip e) = strip (stamped l t e)"
  by (simp add: stamped_def strip_def)

lemma due_strip [simp]: "due l n (strip e) = due l n e"
  by (simp add: due_def)

lemma view_frame: "mem_frame h h' \<Longrightarrow> view h' = view h"
  by (rule ext) (simp add: view_def queue_of_frame)

lemma view_upd: "queue_of h' = (queue_of h)(i := q) \<Longrightarrow> view h' = (view h)(i := map strip q)"
  by (rule ext) (simp add: view_def)

lemma queue_of_dequeue:
  "queue_of (dequeue i a h) = (queue_of h)(i := ev_remove a (queue_of h i))"
  by (rule ext) (auto simp: dequeue_def queue_of_def upd_module_def split: option.splits)

lemma dequeue_simps [simp]:
  "tlsf (dequeue i a h) = tlsf h" "used (dequeue i a h) = used h" "rb_msg (dequeue i a h) = rb_msg h"
  by (simp_all add: dequeue_def upd_module_def split: option.splits)

lemma queue_frame_dequeue: "queue_frame h (dequeue i a h)"
  by (auto simp: dequeue_def queue_frame_queue queue_frame_module split: option.splits)

section \<open>The contract of a handler and what the loop gives\<close>

text \<open>
  A handler may allocate and queue events elsewhere, but it leaves the queue it is called from
  alone and keeps the host's invariant; its effect on the module's own state \<open>s\<close> is the
  function \<open>act\<close>.
\<close>

locale event_handler = tjost_env E contents cap rok live aok
  for E :: "('t, 'r) env" and contents cap rok live aok +
  fixes i :: "addr option"
    and body :: "event \<Rightarrow> 's \<times> ('t, 'r) host \<Rightarrow> ('s \<times> ('t, 'r) host) option"
    and act :: "event \<Rightarrow> 's \<Rightarrow> 's"
  assumes body_ok: "host_ok h \<Longrightarrow> body e (s, h) = Some (s', h') \<Longrightarrow>
      host_ok h' \<and> (used_inv h \<longrightarrow> used_inv h') \<and> queue_of h' i = queue_of h i \<and> s' = act e s"
begin

lemma drain_step:
  assumes ok: "host_ok h" and q: "queue_of h i = e # l"
    and st: "stamp E name late_to last_t e h = Some (e1, h1)"
    and b: "body e1 (s, h1) = Some (s2, h2)"
    and h3: "h3 = tjost_free E (dequeue i (ev_addr e) h2) (Some (ev_addr e))"
  shows "host_ok h3" "queue_of h3 i = l" "used_inv h \<Longrightarrow> used_inv h3" "s2 = act (stamped late_to last_t e) s"
proof -
  note f = stamp_frame [OF st]
  have "rok (rb_msg h1)"
    using ok st message_push_rok [of h _ h1]
    by (auto simp: stamp_def host_wf_def split: if_splits Option.bind_splits)
  then have ok1: "host_ok h1" using ok f by (simp add: host_wf_def queue_of_frame)
  have u1: "used_inv h \<Longrightarrow> used_inv h1" using f by (simp add: used_exact_def)
  note b = body_ok [OF ok1 b]
  then show "s2 = act (stamped late_to last_t e) s" using f by simp
  have q2: "queue_of h2 i = e # l" using b f q by (simp add: queue_of_frame)
  have d: "distinct (map ev_addr (e # l))"
    using ok queues_okD(2) [of _ "queue_of h" i] q by (auto simp: host_wf_def)
  have own: "ev_addr e \<in> owned (queue_of h2 i)" using q2 by simp
  have "host_ok h2" using b by simp
  note r = release_spec [OF this own queue_of_dequeue dequeue_simps(1,3,2)]
  show "host_ok h3" unfolding h3 by (rule r(1))
  show "queue_of h3 i = l" unfolding h3 r(2) using q2 d by (simp add: ev_remove_head del: distinct.simps)
  show "used_inv h \<Longrightarrow> used_inv h3" unfolding h3 using b u1 r(4) by simp
qed

lemma drain_ok:
  "host_ok h \<Longrightarrow> queue_of h i = q \<Longrightarrow>
   drain E name late_to last_t n i body q (s, h) = Some (s', h') \<Longrightarrow>
   host_ok h' \<and> (used_inv h \<longrightarrow> used_inv h') \<and>
   queue_of h' i = dropWhile (due last_t n) q \<and>
   s' = fold (\<lambda>e. act (stamped late_to last_t e)) (takeWhile (due last_t n) q) s"
proof (induction q arbitrary: s h)
  case Nil
  then show ?case by simp
next
  case (Cons e l)
  show ?case
  proof (cases "due last_t n e")
    case False
    then have "ev_time e \<ge> last_t + n" by (simp add: due_def not_less)
    with Cons.prems have "s' = s" "h' = h" by auto
    with Cons.prems(1,2) False show ?thesis by simp
  next
    case True
    then have nd: "\<not> ev_time e \<ge> last_t + n" by (simp add: due_def not_le)
    with Cons.prems(3) obtain e1 h1 s2 h2 where st: "stamp E name late_to last_t e h = Some (e1, h1)"
      and b: "body e1 (s, h1) = Some (s2, h2)"
      and r: "drain E name late_to last_t n i body l
        (s2, tjost_free E (dequeue i (ev_addr e) h2) (Some (ev_addr e))) = Some (s', h')"
      by (auto split: Option.bind_splits)
    note step = drain_step [OF Cons.prems(1,2) st b refl]
    from Cons.IH [OF step(1,2) r] step(3,4) True show ?thesis by auto
  qed
qed

text \<open>In terms of the times alone: the loop takes exactly the due events, in queue order.\<close>

lemma drain_partition:
  assumes "host_ok h" and "drain E name late_to last_t n i body (queue_of h i) (s, h) = Some (s', h')"
  shows "host_ok h'" "used_inv h \<Longrightarrow> used_inv h'"
    "queue_of h' i = filter (\<lambda>e. \<not> due last_t n e) (queue_of h i)"
    "s' = fold (\<lambda>e. act (stamped late_to last_t e)) (filter (due last_t n) (queue_of h i)) s"
proof -
  have "by_time (queue_of h i)" using assms(1) queues_okD(1) by (auto simp: host_wf_def)
  note t = takeWhile_due_filter [OF this, of last_t n]
  note d = drain_ok [OF assms(1) refl assms(2)]
  show "host_ok h'" "used_inv h \<Longrightarrow> used_inv h'" using d by simp_all
  show "queue_of h' i = filter (\<lambda>e. \<not> due last_t n e) (queue_of h i)" using d t by simp
  show "s' = fold (\<lambda>e. act (stamped late_to last_t e)) (filter (due last_t n) (queue_of h i)) s"
    using d t by simp
qed

end

end
