(* ===== verification/Uplink.thy ===== *)
theory Uplink
  imports Event_Loop
begin

text \<open>
  The pipes between the real-time thread and the event loop thread: how a module (or the host,
  for the uplink) turns what waits in its receive pipe into host events, and the transmit side
  of the uplink (\<open>tjost_uplink.c\<close>, \<open>mod_uplink.c\<close>).
\<close>

section \<open>Receiving: from a pipe into the host queue\<close>

text \<open>
  \<open>_tjost_uplink_rx_drain_alloc\<close> and the identical \<open>_alloc\<close>/\<open>_rx_alloc\<close> of the input
  modules; \<open>offset\<close> is 0 but in \<open>mod_read.c\<close>.
\<close>

definition rx_alloc ::
  "('t, 'r) env \<Rightarrow> nframes \<Rightarrow> tev_hdr \<Rightarrow> ('t, 'r) host \<Rightarrow> (addr \<times> ('t, 'r) host) option" where
  "rx_alloc E offset tev h =
     tjost_host_schedule_inline E h (h_module tev) (h_time tev + offset) (h_size tev)"

definition rx_sched :: "tev_hdr \<Rightarrow> addr \<Rightarrow> ('t, 'r) host \<Rightarrow> (bool \<times> ('t, 'r) host) option" where
  "rx_sched tev buf h = Some (False, h)"

definition rx_drain ::
  "('t, 'r) env \<Rightarrow> nframes \<Rightarrow> 'r \<Rightarrow> ('t, 'r) host \<Rightarrow> (int \<times> 'r \<times> ('t, 'r) host) option" where
  "rx_drain E offset r h =
     tjost_pipe_consume (ring_api E) (rx_alloc E offset) store_event rx_sched r h"

definition tjost_uplink_rx_drain ::
  "('t, 'r) env \<Rightarrow> ('t, 'r) host \<Rightarrow> ('t, 'r) host option" where
  "tjost_uplink_rx_drain E h =
     do {
       (err, r, h1) \<leftarrow> rx_drain E 0 (pipe_uplink_rx h) h;
       let h2 = h1\<lparr>pipe_uplink_rx := r\<rparr>
       in if err \<noteq> 0 then tjost_host_message_push E h2
               ''tjost_uplink_rx_drain: tjost_pipe_consume failed''
          else Some h2
     }"

lemma bind_rx_sched: "Option.bind (rx_sched tev p h) f = f (False, h)"
  by (simp add: rx_sched_def)

text \<open>What it is meant to do: each frame becomes an event of the host queue, in order.\<close>

definition rx_view :: "nframes \<Rightarrow> frame list \<Rightarrow> event list \<Rightarrow> event list" where
  "rx_view offset fs q =
     fold (\<lambda>f. insert_event (mk_view (f_module f) (f_time f + offset) (f_buf f))) fs q"

lemma map_write_other: "a \<notin> owned q \<Longrightarrow> map (write_event a bs) q = q"
  by (induction q) (auto simp: write_event_def)

lemma map_write_insert:
  assumes "a \<notin> owned q" and "length old = length bs"
  shows "map (write_event a bs) (insert_event (mk_event a m t old) q) =
    insert_event (mk_event a m t bs) q"
proof -
  let ?P = "\<lambda>x. ev_time x \<le> t"
  have "owned (takeWhile ?P q) \<subseteq> owned q" "owned (dropWhile ?P q) \<subseteq> owned q"
    by (auto simp: owned_def dest: set_takeWhileD set_dropWhileD)
  with assms(1) have "map (write_event a bs) (takeWhile ?P q) = takeWhile ?P q"
    "map (write_event a bs) (dropWhile ?P q) = dropWhile ?P q"
    by (intro map_write_other; blast)+
  with assms(2) show ?thesis by (simp add: insert_event_def write_event_def)
qed

context tjost_env
begin

text \<open>An event queued inline and then written: in the queue it is the event with that payload.\<close>

lemma inline_event:
  assumes ok: "host_ok h" and a: "tjost_host_schedule_inline E h m t len = Some (p, h1)"
    and len: "length bs = len"
  defines "h2 \<equiv> store_event p bs h1"
  shows "host_ok h2" "queue_frame h h2" "used_inv h \<Longrightarrow> used_inv h2"
    "view h2 = (view h)(None := insert_event (mk_view m t bs) (view h None))"
proof -
  let ?j = "fill_to len (junk E)"
  have s: "host_ok h1" "queue_frame h h1" "used_inv h \<longrightarrow> used_inv h1" "live (tlsf h) p = None"
    "queue_of h1 = (queue_of h)(None := insert_event (mk_event p m t ?j) (queue h))"
    using host_schedule_inline_spec [OF ok a] by auto
  have fresh: "p \<notin> owned (queue h)"
    using ok s(4) queues_okD(3) [of _ "queue_of h" None] by (fastforce simp: host_wf_def)
  show "host_ok h2" unfolding h2_def using s(1) by (rule store_event_ok)
  show "used_inv h \<Longrightarrow> used_inv h2" using s(3) by (simp add: h2_def store_event_def used_exact_def)
  show "queue_frame h h2" unfolding h2_def store_event_def
    by (rule queue_frame_trans [OF s(2) queue_frame_queue])
  have q1: "queue h1 = insert_event (mk_event p m t ?j) (queue h)" using fun_cong [OF s(5), of None] by simp
  have "length ?j = length bs" using len by simp
  then have "queue_of h2 = (queue_of h)(None := insert_event (mk_event p m t bs) (queue h))"
    by (simp add: h2_def store_event_def queue_of_queue q1 s(5) map_write_insert [OF fresh])
  then have v: "view h2 = (view h)(None := map strip (insert_event (mk_event p m t bs) (queue h)))"
    by (rule view_upd)
  show "view h2 = (view h)(None := insert_event (mk_view m t bs) (view h None))"
    unfolding v map_strip_insert by (simp add: view_def)
qed

lemma rx_one:
  assumes "host_ok h" and "rx_alloc E offset (hdr f) h = Some (p, h1)"
  defines "h2 \<equiv> store_event p (f_buf f) h1"
  shows "host_ok h2" "queue_frame h h2" "used_inv h \<Longrightarrow> used_inv h2"
    "view h2 = (view h)(None := insert_event (mk_view (f_module f) (f_time f + offset) (f_buf f)) (view h None))"
  using inline_event [OF assms(1), of "f_module f" "f_time f + offset" "length (f_buf f)" p h1 "f_buf f"] assms(2)
  by (simp_all add: h2_def rx_alloc_def hdr_def)

lemma rx_deliver:
  "host_ok h \<Longrightarrow> deliver_all (rx_alloc E offset) store_event rx_sched fs h = Some (rest, h') \<Longrightarrow>
   rest = [] \<and> host_ok h' \<and> queue_frame h h' \<and> (used_inv h \<longrightarrow> used_inv h') \<and>
   view h' = (view h)(None := rx_view offset fs (view h None))"
proof (induction fs arbitrary: h)
  case Nil
  then show ?case by (simp add: rx_view_def)
next
  case (Cons f fs)
  from Cons.prems(2) obtain p h1 where a: "rx_alloc E offset (hdr f) h = Some (p, h1)"
    and d: "deliver_all (rx_alloc E offset) store_event rx_sched fs (store_event p (f_buf f) h1) =
      Some (rest, h')"
    by (cases "rx_alloc E offset (hdr f) h") (auto simp: bind_rx_sched)
  note one = rx_one [OF Cons.prems(1) a]
  have "queue_frame h h'"
    using Cons.IH [OF one(1) d] queue_frame_trans [OF one(2)] by blast
  moreover have "view h' = (view h)(None := rx_view offset (f # fs) (view h None))"
    using Cons.IH [OF one(1) d] one(4) by (auto simp: rx_view_def)
  ultimately show ?case using Cons.IH [OF one(1) d] one(1,3) by blast
qed

text \<open>
  Draining a receive pipe that holds whole frames: it returns 0, empties the pipe and queues
  every event, unless an allocation fails (then the run is the NULL dereference of
  \<open>tjost_host_schedule_inline\<close>).
\<close>

lemma rx_drain_spec:
  assumes ok: "host_ok h" and r: "rok r" "\<forall>f\<in>set fs. valid_frame f" "contents r = pipe_bytes fs"
    and d: "rx_drain E offset r h = Some (err, r', h')"
  shows "err = 0 \<and> rok r' \<and> cap r' = cap r \<and> contents r' = [] \<and> host_ok h' \<and> queue_frame h h' \<and>
    (used_inv h \<longrightarrow> used_inv h') \<and> view h' = (view h)(None := rx_view offset fs (view h None))"
proof (cases "deliver_all (rx_alloc E offset) store_event rx_sched fs h")
  case None
  with ring.consume_refines [OF r, of "rx_alloc E offset" store_event rx_sched h] d
  show ?thesis by (simp add: rx_drain_def)
next
  case (Some x)
  obtain rest h1 where x: "x = (rest, h1)" by fastforce
  note dl = rx_deliver [OF ok Some [unfolded x]]
  from ring.consume_refines [OF r, of "rx_alloc E offset" store_event rx_sched h] Some x d
  have "err = 0" "rok r'" "cap r' = cap r" "contents r' = pipe_bytes rest" "h' = h1"
    by (auto simp: rx_drain_def)
  with dl show ?thesis by simp
qed

lemma uplink_rx_drain_spec:
  assumes ok: "host_ok h" and r: "rok (pipe_uplink_rx h)" "\<forall>f\<in>set fs. valid_frame f"
      "contents (pipe_uplink_rx h) = pipe_bytes fs"
    and d: "tjost_uplink_rx_drain E h = Some h'"
  shows "host_ok h' \<and> (used_inv h \<longrightarrow> used_inv h') \<and> contents (pipe_uplink_rx h') = [] \<and>
    rok (pipe_uplink_rx h') \<and> view h' = (view h)(None := rx_view 0 fs (view h None))"
proof -
  from d obtain err r' h1 where x: "rx_drain E 0 (pipe_uplink_rx h) h = Some (err, r', h1)"
    and h': "(if err \<noteq> 0 then tjost_host_message_push E (h1\<lparr>pipe_uplink_rx := r'\<rparr>)
      ''tjost_uplink_rx_drain: tjost_pipe_consume failed'' else Some (h1\<lparr>pipe_uplink_rx := r'\<rparr>)) = Some h'"
    by (auto simp: tjost_uplink_rx_drain_def Let_def split: Option.bind_splits)
  note s = rx_drain_spec [OF ok r x]
  with h' have e: "h' = h1\<lparr>pipe_uplink_rx := r'\<rparr>" by simp
  have q: "queue_of h' = queue_of h1" by (rule ext) (simp add: e queue_of_def split: option.splits)
  then have "view h' = view h1" by (simp add: view_def fun_eq_iff)
  moreover have "host_ok h' = host_ok h1" "used_inv h' = used_inv h1"
    unfolding host_wf_def used_exact_def q by (simp_all add: e)
  moreover have "pipe_uplink_rx h' = r'" by (simp add: e)
  ultimately show ?thesis using s by simp
qed

end

section \<open>Transmitting\<close>

definition tjost_uplink_tx_push ::
  "('t, 'r) env \<Rightarrow> ('t, 'r) host \<Rightarrow> event \<Rightarrow> ('t, 'r) host option" where
  "tjost_uplink_tx_push E h tev =
     (let h1 = h\<lparr>pipe_uplink_tx_count := pipe_uplink_tx_count h + 1\<rparr>;
          (err, r) = tjost_pipe_produce (ring_api E) (junk E) (pipe_uplink_tx h1)
                       (ev_module tev) (ev_time tev) (ev_buf tev);
          h2 = h1\<lparr>pipe_uplink_tx := r\<rparr>
      in if err \<noteq> 0 then tjost_host_message_push E h2 ''tjost_uplink_tx_push: tjost_pipe_produce failed''
         else Some h2)"

text \<open>\<open>process_out\<close> of \<open>mod_uplink.c\<close>: every due event goes to the event loop thread, as unicast.\<close>

definition uplink_body ::
  "('t, 'r) env \<Rightarrow> addr \<Rightarrow> event \<Rightarrow> unit \<times> ('t, 'r) host \<Rightarrow> (unit \<times> ('t, 'r) host) option" where
  "uplink_body E m tev S =
     do { h \<leftarrow> tjost_uplink_tx_push E (snd S) (tev\<lparr>ev_module := Some m\<rparr>); Some ((), h) }"

definition uplink_process_out ::
  "('t, 'r) env \<Rightarrow> nframes \<Rightarrow> addr \<Rightarrow> ('t, 'r) host \<Rightarrow> (int \<times> ('t, 'r) host) option" where
  "uplink_process_out E nframes m h =
     do { (u, h1) \<leftarrow> drain E ''uplink'' (last_frame h) (last_frame h) nframes (Some m)
            (uplink_body E m) (m_queue (module_at h m)) ((), h);
          Some (0, h1) }"

definition uplink_add :: "tjmod \<Rightarrow> int \<times> tjmod" where
  "uplink_add M = (0, M\<lparr>m_type := TJOST_MODULE_UPLINK\<rparr>)"

context tjost_env
begin

lemma uplink_tx_push_ok:
  assumes ok: "host_ok h" and p: "tjost_uplink_tx_push E h tev = Some h'"
  shows "host_ok h' \<and> (used_inv h \<longrightarrow> used_inv h') \<and> queue_of h' = queue_of h \<and>
    pipe_uplink_tx_count h' = pipe_uplink_tx_count h + 1"
proof -
  obtain err r where pr: "tjost_pipe_produce (ring_api E) (junk E) (pipe_uplink_tx h)
      (ev_module tev) (ev_time tev) (ev_buf tev) = (err, r)" by fastforce
  let ?h2 = "h\<lparr>pipe_uplink_tx_count := pipe_uplink_tx_count h + 1, pipe_uplink_tx := r\<rparr>"
  have q: "queue_of ?h2 = queue_of h" by (rule ext) (simp add: queue_of_def split: option.splits)
  have ok2: "host_ok ?h2" "used_inv ?h2 = used_inv h"
    using ok q by (simp_all add: host_wf_def used_exact_def)
  show ?thesis
  proof (cases "err = 0")
    case True
    with p pr have "h' = ?h2" by (simp add: tjost_uplink_tx_push_def Let_def)
    with ok2 q show ?thesis by simp
  next
    case False
    with p pr have m: "tjost_host_message_push E ?h2
        ''tjost_uplink_tx_push: tjost_pipe_produce failed'' = Some h'"
      by (simp add: tjost_uplink_tx_push_def Let_def)
    from message_push_ok [OF ok2(1) m] message_push_used [OF m] message_push_frame [OF m] ok2 q
    show ?thesis by (simp add: queue_of_frame mem_frameD)
  qed
qed

lemma uplink_handler:
  "event_handler E contents cap rok live aok (Some m) (uplink_body E m) (\<lambda>e s. s)"
proof unfold_locales
  show "host_ok h' \<and> (used_inv h \<longrightarrow> used_inv h') \<and> queue_of h' (Some m) = queue_of h (Some m) \<and> s' = s"
    if "host_ok h" "uplink_body E m e (s, h) = Some (s', h')" for h :: "('t, 'r) host" and e s s' h'
  proof -
    from that(2) have p: "tjost_uplink_tx_push E h (e\<lparr>ev_module := Some m\<rparr>) = Some h'"
      by (auto simp: uplink_body_def split: Option.bind_splits)
    note x = uplink_tx_push_ok [OF that(1) p]
    then have "queue_of h' = queue_of h" by blast
    then show ?thesis using x by (metis old.unit.exhaust)
  qed
qed

end

end
