(* ===== verification/Process.thy ===== *)
theory Process
  imports Uplink
begin

text \<open>
  The JACK process callback \<open>_process\<close> of \<open>tjost.c\<close>: memory, the uplink's receive pipe, the
  inputs, the main queue, the outputs, the uplinks. The callbacks of the plugins and of Lua are a
  record of functions; \<open>process_contract\<close> is what the callback relies on, and under it every
  run keeps the host's invariant and the main queue is delivered as \<open>deliveries\<close> says.
\<close>

section \<open>The callback\<close>

record ('t, 'r) callbacks =
  process_in :: "nframes \<Rightarrow> addr \<Rightarrow> ('t, 'r) host \<Rightarrow> ('t, 'r) host option"
  process_out :: "nframes \<Rightarrow> addr \<Rightarrow> ('t, 'r) host \<Rightarrow> ('t, 'r) host option"
  tjost_lua_deserialize :: "event \<Rightarrow> ('t, 'r) host \<Rightarrow> ('t, 'r) host option"
  lua_gc :: "('t, 'r) host \<Rightarrow> ('t, 'r) host option"

fun to_children ::
  "('t, 'r) env \<Rightarrow> event \<Rightarrow> (addr \<times> addr) list \<Rightarrow> ('t, 'r) host \<Rightarrow> ('t, 'r) host option" where
  "to_children E tev [] h = Some h"
| "to_children E tev (c # cs) h =
     do { h1 \<leftarrow> tjost_module_schedule E h (snd c) (ev_time tev) (ev_buf tev);
          to_children E tev cs h1 }"

definition to_module ::
  "('t, 'r) env \<Rightarrow> ('t, 'r) callbacks \<Rightarrow> addr \<Rightarrow> event \<Rightarrow> ('t, 'r) host \<Rightarrow> ('t, 'r) host option" where
  "to_module E C m tev h =
     do { h1 \<leftarrow> to_children E tev (m_children (module_at h m)) h;
          if has_lua_callback (module_at h1 m)
          then tjost_lua_deserialize C (tev\<lparr>ev_module := Some m\<rparr>) h1 else Some h1 }"

fun to_modules ::
  "('t, 'r) env \<Rightarrow> ('t, 'r) callbacks \<Rightarrow> addr list \<Rightarrow> event \<Rightarrow> ('t, 'r) host \<Rightarrow> ('t, 'r) host option" where
  "to_modules E C [] tev h = Some h"
| "to_modules E C (m # ms) tev h = do { h1 \<leftarrow> to_module E C m tev h; to_modules E C ms tev h1 }"

definition main_body ::
  "('t, 'r) env \<Rightarrow> ('t, 'r) callbacks \<Rightarrow> event \<Rightarrow> unit \<times> ('t, 'r) host \<Rightarrow> (unit \<times> ('t, 'r) host) option" where
  "main_body E C tev S =
     do { h \<leftarrow> (case ev_module tev of
                None \<Rightarrow> to_modules E C (uplinks (snd S)) tev (snd S)
              | Some m \<Rightarrow> to_module E C m tev (snd S));
          Some ((), h) }"

fun run_modules ::
  "(addr \<Rightarrow> ('t, 'r) host \<Rightarrow> ('t, 'r) host option) \<Rightarrow> addr list \<Rightarrow> ('t, 'r) host \<Rightarrow> ('t, 'r) host option" where
  "run_modules f [] h = Some h"
| "run_modules f (m # ms) h = do { h1 \<leftarrow> f m h; run_modules f ms h1 }"

definition run_if ::
  "32 word \<Rightarrow> (addr \<Rightarrow> ('t, 'r) host \<Rightarrow> ('t, 'r) host option) \<Rightarrow> addr \<Rightarrow> ('t, 'r) host \<Rightarrow> ('t, 'r) host option" where
  "run_if bits f m h = (if m_type (module_at h m) AND bits \<noteq> 0 then f m h else Some h)"

definition main_loop ::
  "('t, 'r) env \<Rightarrow> ('t, 'r) callbacks \<Rightarrow> nframes \<Rightarrow> ('t, 'r) host \<Rightarrow> ('t, 'r) host option" where
  "main_loop E C nframes h =
     do { (u, h1) \<leftarrow> drain E ''main loop'' (last_frame h) (last_frame h) nframes None
            (main_body E C) (queue h) ((), h);
          Some h1 }"

text \<open>\<open>tjost_pipe_flush\<close> is \<open>uv_async_send\<close> on the pipe's handle.\<close>

definition flush_uplink :: "('t, 'r) env \<Rightarrow> ('t, 'r) host \<Rightarrow> ('t, 'r) host option" where
  "flush_uplink E h =
     (if pipe_uplink_tx_count h > 0
      then let h1 = h\<lparr>tx_flushes := tx_flushes h + 1\<rparr>
           in if uv_async_send E (tx_flushes h) \<noteq> 0
              then tjost_host_message_push E h1 ''tjost_pipe_flush failed'' else Some h1
      else Some h)"

definition tjost_process ::
  "('t, 'r) env \<Rightarrow> ('t, 'r) callbacks \<Rightarrow> nframes \<Rightarrow> ('t, 'r) host \<Rightarrow> (int \<times> ('t, 'r) host) option" where
  "tjost_process E C nframes h =
     do {
       h1 \<leftarrow> tjost_add_memory E h;
       h2 \<leftarrow> tjost_uplink_rx_drain E h1;
       h3 \<leftarrow> run_modules (run_if TJOST_MODULE_INPUT (process_in C nframes)) (modules h2)
              (h2\<lparr>pipe_uplink_tx_count := 0\<rparr>);
       h4 \<leftarrow> main_loop E C nframes h3;
       h5 \<leftarrow> run_modules (run_if TJOST_MODULE_OUTPUT (process_out C nframes)) (modules h4) h4;
       h6 \<leftarrow> run_modules (process_out C nframes) (uplinks h5) h5;
       h7 \<leftarrow> flush_uplink E h6;
       h8 \<leftarrow> lua_gc C h7;
       Some (0, h8)
     }"

section \<open>What the main loop is meant to do\<close>

text \<open>
  A delivery is a module with the time and the payload queued for it. \<open>lact\<close> says which
  deliveries the Lua logic behind a module makes of an event.
\<close>

type_synonym delivery = "addr \<times> nframes \<times> byte list"

definition deliver :: "delivery \<Rightarrow> (addr option \<Rightarrow> event list) \<Rightarrow> addr option \<Rightarrow> event list" where
  "deliver d V = (case d of (m, t, buf) \<Rightarrow> V(Some m := insert_event (mk_view None t buf) (V (Some m))))"

definition module_deliveries ::
  "(addr \<Rightarrow> tjmod) \<Rightarrow> (addr \<Rightarrow> nframes \<Rightarrow> byte list \<Rightarrow> delivery list) \<Rightarrow> event \<Rightarrow> addr \<Rightarrow> delivery list" where
  "module_deliveries M lact e m =
     map (\<lambda>c. (snd c, ev_time e, ev_buf e)) (m_children (M m)) @
     (if has_lua_callback (M m) then lact m (ev_time e) (ev_buf e) else [])"

definition deliveries ::
  "(addr \<Rightarrow> tjmod) \<Rightarrow> addr list \<Rightarrow> (addr \<Rightarrow> nframes \<Rightarrow> byte list \<Rightarrow> delivery list) \<Rightarrow> event \<Rightarrow> delivery list" where
  "deliveries M ups lact e =
     (case ev_module e of None \<Rightarrow> concat (map (module_deliveries M lact e) ups)
      | Some m \<Rightarrow> module_deliveries M lact e m)"

text \<open>What the operations of the main loop never change.\<close>

definition config :: "('t, 'r) host \<Rightarrow> addr list \<times> addr list \<times> nframes \<times> (addr \<Rightarrow> (addr \<times> addr) list \<times> bool \<times> 32 word)" where
  "config h = (modules h, uplinks h, last_frame h,
     \<lambda>m. (m_children (module_at h m), has_lua_callback (module_at h m), m_type (module_at h m)))"

lemma configD:
  assumes "config h' = config h"
  shows "modules h' = modules h" "uplinks h' = uplinks h" "last_frame h' = last_frame h"
    "m_children (module_at h' m) = m_children (module_at h m)"
    "has_lua_callback (module_at h' m) = has_lua_callback (module_at h m)"
    "m_type (module_at h' m) = m_type (module_at h m)"
  using assms by (auto simp: config_def fun_eq_iff)

lemma config_queue_frame: "queue_frame h h' \<Longrightarrow> config h' = config h"
  by (auto simp: queue_frame_def mem_frame_def config_def fun_eq_iff)
    (metis tjmod.select_convs tjmod.update_convs(2) tjmod.surjective)+


lemma config_simps [simp]:
  "config (h\<lparr>queue := q\<rparr>) = config h" "config (h\<lparr>pipe_uplink_tx_count := n\<rparr>) = config h"
  "config (h\<lparr>tx_flushes := k\<rparr>) = config h" "config (h\<lparr>pipe_uplink_rx := r\<rparr>) = config h"
  "config (h\<lparr>pipe_uplink_tx := r\<rparr>) = config h"
  by (simp_all add: config_def)

lemma config_mem_frame: "mem_frame h h' \<Longrightarrow> config h' = config h"
  by (simp add: config_def mem_frame_def)

lemma config_dequeue [simp]: "config (dequeue i a h) = config h"
  by (rule config_queue_frame) (rule queue_frame_dequeue)

lemma module_deliveries_config:
  assumes "config h' = config h"
  shows "module_deliveries (module_at h') lact = module_deliveries (module_at h) lact"
  by (intro ext) (simp add: module_deliveries_def configD [OF assms])

lemma deliveries_config:
  assumes "config h' = config h"
  shows "deliveries (module_at h') (uplinks h') lact = deliveries (module_at h) (uplinks h) lact"
  by (rule ext)
    (simp add: deliveries_def module_deliveries_config [OF assms] configD [OF assms] split: option.splits)

section \<open>The contract of the callbacks\<close>

text \<open>The relation every stage of the callback keeps.\<close>

definition preserves ::
  "('r \<Rightarrow> bool) \<Rightarrow> ('t \<Rightarrow> addr \<rightharpoonup> nat) \<Rightarrow> ('t \<Rightarrow> bool) \<Rightarrow> ('t, 'r) host \<Rightarrow> ('t, 'r) host \<Rightarrow> bool" where
  "preserves rok live aok h h' \<longleftrightarrow> host_wf rok live aok h' \<and>
     (used_exact live h \<longrightarrow> used_exact live h') \<and> config h' = config h"

text \<open>What the event loop thread left for \<open>tjost_add_memory\<close>: nothing, or a chunk fit for the allocator.\<close>

definition chunk_waiting_ok ::
  "('r \<Rightarrow> bool) \<Rightarrow> ('r \<Rightarrow> byte list) \<Rightarrow> ('t \<Rightarrow> addr \<Rightarrow> nat \<Rightarrow> bool) \<Rightarrow> ('t, 'r) host \<Rightarrow> bool" where
  "chunk_waiting_ok rok contents pool_ok h \<longleftrightarrow> rok (rb_rtmem h) \<and>
     (let c = chunk_at h (dec_le (take 8 (contents (rb_rtmem h))))
      in 8 \<le> length (contents (rb_rtmem h)) \<longrightarrow> pool_ok (tlsf h) (ch_area c) (unat (ch_size c)))"

context tjost_env
begin

lemma schedule_delivers:
  assumes ok: "host_ok h" and r: "tjost_module_schedule E h m t buf = Some h'"
  shows "preserves rok live aok h h' \<and> queue h' = queue h \<and> view h' = deliver (m, t, buf) (view h)"
proof -
  from module_schedule_spec [OF ok r] obtain a where
    q: "queue_of h' = (queue_of h)(Some m := insert_event (mk_event a None t buf) (queue_of h (Some m)))"
    and k: "host_ok h'" "queue_frame h h'" "used_inv h \<longrightarrow> used_inv h'"
    by auto
  from view_upd [OF q] have "view h' = deliver (m, t, buf) (view h)"
    by (simp add: deliver_def map_strip_insert view_def del: queue_of_simps)
  moreover have "queue h' = queue h" using fun_cong [OF q, of None] by simp
  ultimately show ?thesis using k config_queue_frame [OF k(2)] by (simp add: preserves_def)
qed

end

text \<open>Pools that may be handed to the allocator.\<close>

locale rt_pool_allocator = rt_allocator A live aok
  for A :: "'t tlsf_ops" and live aok +
  fixes pool_ok :: "'t \<Rightarrow> addr \<Rightarrow> nat \<Rightarrow> bool"
  assumes add_pool: "aok t \<Longrightarrow> pool_ok t area n \<Longrightarrow> ta_add_pool A t area n = (p, t') \<Longrightarrow>
    aok t' \<and> live t' = live t"

locale process_contract = tjost_env E contents cap rok live aok +
  rt_pool_allocator "tlsf_api E" live aok pool_ok
  for E :: "('t, 'r) env" and contents cap rok live aok pool_ok +
  fixes C :: "('t, 'r) callbacks"
    and lact :: "addr \<Rightarrow> nframes \<Rightarrow> byte list \<Rightarrow> delivery list"
  assumes process_in_ok: "host_ok h \<Longrightarrow> process_in C n m h = Some h' \<Longrightarrow>
      host_ok h' \<and> (used_inv h \<longrightarrow> used_inv h') \<and> config h' = config h"
    and process_out_ok: "host_ok h \<Longrightarrow> process_out C n m h = Some h' \<Longrightarrow>
      host_ok h' \<and> (used_inv h \<longrightarrow> used_inv h') \<and> config h' = config h"
    and lua_ok: "host_ok h \<Longrightarrow> ev_module e = Some m \<Longrightarrow> tjost_lua_deserialize C e h = Some h' \<Longrightarrow>
      host_ok h' \<and> (used_inv h \<longrightarrow> used_inv h') \<and> config h' = config h \<and>
      queue h' = queue h \<and> view h' = fold deliver (lact m (ev_time e) (ev_buf e)) (view h)"
    and gc_ok: "host_ok h \<Longrightarrow> lua_gc C h = Some h' \<Longrightarrow>
      host_ok h' \<and> (used_inv h \<longrightarrow> used_inv h') \<and> config h' = config h"
begin

abbreviation keeps :: "('t, 'r) host \<Rightarrow> ('t, 'r) host \<Rightarrow> bool" where
  "keeps \<equiv> preserves rok live aok"

lemma keeps_refl: "host_ok h \<Longrightarrow> keeps h h"
  by (simp add: preserves_def)

lemma keeps_trans: "keeps h h1 \<Longrightarrow> keeps h1 h2 \<Longrightarrow> keeps h h2"
  by (simp add: preserves_def)

lemma keeps_ok: "keeps h h' \<Longrightarrow> host_ok h'"
  by (simp add: preserves_def)

lemma run_modules_keeps:
  assumes "\<And>m h h'. host_ok h \<Longrightarrow> f m h = Some h' \<Longrightarrow> keeps h h'"
  shows "host_ok h \<Longrightarrow> run_modules f ms h = Some h' \<Longrightarrow> keeps h h'"
proof (induction ms arbitrary: h)
  case Nil
  then show ?case by (simp add: keeps_refl)
next
  case (Cons m ms)
  then obtain h1 where h1: "f m h = Some h1" and r: "run_modules f ms h1 = Some h'"
    by (auto split: Option.bind_splits)
  from assms [OF Cons.prems(1) h1] have k: "keeps h h1" .
  from Cons.IH [OF keeps_ok [OF k] r] k show ?case by (blast intro: keeps_trans)
qed

lemma run_if_keeps:
  assumes "\<And>m h h'. host_ok h \<Longrightarrow> f m h = Some h' \<Longrightarrow> keeps h h'"
  shows "host_ok h \<Longrightarrow> run_if bits f m h = Some h' \<Longrightarrow> keeps h h'"
  using assms [of h m h'] by (auto simp: run_if_def keeps_refl split: if_splits)

lemma to_children_ok:
  "host_ok h \<Longrightarrow> to_children E tev cs h = Some h' \<Longrightarrow>
   keeps h h' \<and> queue h' = queue h \<and>
   view h' = fold deliver (map (\<lambda>c. (snd c, ev_time tev, ev_buf tev)) cs) (view h)"
proof (induction cs arbitrary: h)
  case Nil
  then show ?case by (simp add: keeps_refl)
next
  case (Cons c cs)
  then obtain h1 where h1: "tjost_module_schedule E h (snd c) (ev_time tev) (ev_buf tev) = Some h1"
    and r: "to_children E tev cs h1 = Some h'"
    by (auto split: Option.bind_splits)
  note d = schedule_delivers [OF Cons.prems(1) h1]
  then have "host_ok h1" by (simp add: preserves_def)
  from Cons.IH [OF this r] d show ?case by (auto intro: keeps_trans)
qed

lemma to_module_ok:
  assumes ok: "host_ok h" and r: "to_module E C m tev h = Some h'"
  shows "keeps h h' \<and> queue h' = queue h \<and>
    view h' = fold deliver (module_deliveries (module_at h) lact tev m) (view h)"
proof -
  obtain h1 where h1: "to_children E tev (m_children (module_at h m)) h = Some h1"
    and r1: "(if has_lua_callback (module_at h1 m)
      then tjost_lua_deserialize C (tev\<lparr>ev_module := Some m\<rparr>) h1 else Some h1) = Some h'"
    using r by (auto simp: to_module_def split: Option.bind_splits)
  note c = to_children_ok [OF ok h1]
  have l: "has_lua_callback (module_at h1 m) = has_lua_callback (module_at h m)"
    using c configD(5) [of h1 h] by (simp add: preserves_def)
  show ?thesis
  proof (cases "has_lua_callback (module_at h m)")
    case True
    with r1 l have "tjost_lua_deserialize C (tev\<lparr>ev_module := Some m\<rparr>) h1 = Some h'" by simp
    from lua_ok [OF _ _ this, of m] c True show ?thesis
      by (auto simp: preserves_def module_deliveries_def)
  next
    case False
    with r1 l c show ?thesis by (simp add: module_deliveries_def)
  qed
qed

lemma to_modules_ok:
  "host_ok h \<Longrightarrow> to_modules E C ms tev h = Some h' \<Longrightarrow>
   keeps h h' \<and> queue h' = queue h \<and>
   view h' = fold deliver (concat (map (module_deliveries (module_at h) lact tev) ms)) (view h)"
proof (induction ms arbitrary: h)
  case Nil
  then show ?case by (simp add: keeps_refl)
next
  case (Cons m ms)
  then obtain h1 where h1: "to_module E C m tev h = Some h1" and r: "to_modules E C ms tev h1 = Some h'"
    by (auto split: Option.bind_splits)
  note d = to_module_ok [OF Cons.prems(1) h1]
  then have "host_ok h1" "config h1 = config h" by (simp_all add: preserves_def)
  from Cons.IH [OF this(1) r] d module_deliveries_config [OF this(2)] show ?case
    by (auto intro: keeps_trans)
qed

lemma main_body_ok:
  assumes ok: "host_ok h" and r: "main_body E C tev (s, h) = Some (s', h')"
  shows "keeps h h' \<and> queue h' = queue h \<and>
    view h' = fold deliver (deliveries (module_at h) (uplinks h) lact tev) (view h)"
proof (cases "ev_module tev")
  case None
  with r have "to_modules E C (uplinks h) tev h = Some h'"
    by (auto simp: main_body_def split: Option.bind_splits)
  from to_modules_ok [OF ok this] None show ?thesis by (simp add: deliveries_def)
next
  case (Some m)
  with r have "to_module E C m tev h = Some h'"
    by (auto simp: main_body_def split: Option.bind_splits)
  from to_module_ok [OF ok this] Some show ?thesis by (simp add: deliveries_def)
qed

end

sublocale process_contract \<subseteq> main: event_handler E contents cap rok live aok None "main_body E C" "\<lambda>e s. s"
proof unfold_locales
  show "host_ok h' \<and> (used_inv h \<longrightarrow> used_inv h') \<and> queue_of h' None = queue_of h None \<and> s' = s"
    if "host_ok h" "main_body E C e (s, h) = Some (s', h')" for h e s s' h'
    using main_body_ok [OF that] by (simp add: preserves_def)
qed


section \<open>The main loop delivers what is due\<close>

lemma deliver_None [simp]: "deliver d V None = V None"
  by (cases d) (simp add: deliver_def)

lemma deliver_upd_None: "deliver d (V(None := q)) = (deliver d V)(None := q)"
  by (cases d) (auto simp: deliver_def)

lemma fold_deliver_None [simp]: "fold deliver ds V None = V None"
  by (induction ds arbitrary: V) simp_all

lemma fold_deliver_upd_None: "fold deliver ds (V(None := q)) = (fold deliver ds V)(None := q)"
  by (induction ds arbitrary: V) (simp_all add: deliver_upd_None)

lemma tjost_free_frame: "mem_frame h (tjost_free E h a)"
  by (simp add: tjost_free_def mem_frame_def)

lemma deliveries_strip [simp]: "deliveries M ups lact (strip e) = deliveries M ups lact e"
proof -
  have "module_deliveries M lact (strip e) = module_deliveries M lact e"
    by (rule ext) (simp add: module_deliveries_def)
  then show ?thesis by (simp add: deliveries_def split: option.splits)
qed

text \<open>Everything the loop queues while it handles the due events of \<open>q\<close>, in order.\<close>

definition main_deliveries ::
  "('t, 'r) host \<Rightarrow> (addr \<Rightarrow> nframes \<Rightarrow> byte list \<Rightarrow> delivery list) \<Rightarrow> nframes \<Rightarrow> event list \<Rightarrow> delivery list" where
  "main_deliveries h lact n q =
     concat (map (\<lambda>e. deliveries (module_at h) (uplinks h) lact (stamped (last_frame h) (last_frame h) e))
       (takeWhile (due (last_frame h) n) q))"

lemma main_deliveries_config:
  assumes "config h' = config h"
  shows "main_deliveries h' lact n q = main_deliveries h lact n q"
  unfolding main_deliveries_def deliveries_config [OF assms] configD(3) [OF assms] ..

context process_contract
begin

lemma main_step:
  assumes ok: "host_ok h" and q: "queue h = e # l"
    and st: "stamp E name (last_frame h) (last_frame h) e h = Some (e1, h1)"
    and b: "main_body E C e1 ((), h1) = Some (u, h2)"
  defines "h3 \<equiv> tjost_free E (dequeue None (ev_addr e) h2) (Some (ev_addr e))"
  shows "keeps h h3" "queue h3 = l"
    "view h3 = (fold deliver (deliveries (module_at h) (uplinks h) lact
       (stamped (last_frame h) (last_frame h) e)) (view h))(None := map strip l)"
proof -
  note f = stamp_frame [OF st]
  have q': "queue_of h None = e # l" using q by simp
  note d = main.drain_step [OF ok q' st b, of h3]
  have h3: "h3 = tjost_free E (dequeue None (ev_addr e) h2) (Some (ev_addr e))" by (simp add: h3_def)
  have "rok (rb_msg h1)"
    using ok st message_push_rok [of h _ h1]
    by (auto simp: stamp_def host_wf_def split: if_splits Option.bind_splits)
  then have ok1: "host_ok h1" using ok f by (simp add: host_wf_def queue_of_frame)
  note c1 = config_mem_frame [OF f(2)]
  note m = main_body_ok [OF ok1 b]
  have c3: "config h3 = config h2"
    unfolding h3
    using config_mem_frame [OF tjost_free_frame, of E "dequeue None (ev_addr e) h2" "Some (ev_addr e)"]
    by simp
  show "keeps h h3" using d(1,3) [OF h3] c3 m c1 by (simp add: preserves_def)
  show "queue h3 = l" using d(2) [OF h3] by simp
  have v2: "view h2 = fold deliver (deliveries (module_at h) (uplinks h) lact
      (stamped (last_frame h) (last_frame h) e)) (view h)"
    using m deliveries_config [OF c1] view_frame [OF f(2)] f(1) by simp
  have "view h3 = view (dequeue None (ev_addr e) h2)"
    unfolding h3 by (rule view_frame) (rule tjost_free_frame)
  also have "... = (view h2)(None := map strip l)"
    using d(2) [OF h3] queue_of_frame [OF tjost_free_frame, of E "dequeue None (ev_addr e) h2"]
    by (intro ext) (simp add: view_def h3 queue_of_dequeue)
  finally show "view h3 = (fold deliver (deliveries (module_at h) (uplinks h) lact
      (stamped (last_frame h) (last_frame h) e)) (view h))(None := map strip l)"
    by (simp add: v2)
qed

lemma main_drain:
  "host_ok h \<Longrightarrow> queue h = q \<Longrightarrow> last_t = last_frame h \<Longrightarrow>
   drain E name last_t last_t n None (main_body E C) q ((), h) = Some (u, h') \<Longrightarrow>
   keeps h h' \<and> view h' = (fold deliver (main_deliveries h lact n q) (view h))
     (None := map strip (dropWhile (due last_t n) q))"
proof (induction q arbitrary: h)
  case Nil
  then have "h' = h" by simp
  with Nil show ?case by (simp add: keeps_refl main_deliveries_def view_def fun_eq_iff)
next
  case (Cons e l)
  show ?case
  proof (cases "due last_t n e")
    case False
    then have "ev_time e \<ge> last_t + n" by (simp add: due_def not_less)
    with Cons.prems have "h' = h" by auto
    moreover have "view h None = map strip (e # l)" using Cons.prems(2) by (simp add: view_def)
    ultimately show ?thesis
      using False Cons.prems(1,3) by (auto simp: keeps_refl main_deliveries_def)
  next
    case True
    then have nd: "\<not> ev_time e \<ge> last_t + n" by (simp add: due_def not_le)
    with Cons.prems(3,4) obtain e1 h1 u2 h2 where
      st: "stamp E name (last_frame h) (last_frame h) e h = Some (e1, h1)"
      and b: "main_body E C e1 ((), h1) = Some (u2, h2)"
      and r: "drain E name last_t last_t n None (main_body E C) l
        ((), tjost_free E (dequeue None (ev_addr e) h2) (Some (ev_addr e))) = Some (u, h')"
      by (auto split: Option.bind_splits)
    note s = main_step [OF Cons.prems(1,2) st b]
    have c: "config (tjost_free E (dequeue None (ev_addr e) h2) (Some (ev_addr e))) = config h"
      using s(1) by (simp add: preserves_def)
    have "last_t = last_frame (tjost_free E (dequeue None (ev_addr e) h2) (Some (ev_addr e)))"
      using Cons.prems(3) configD(3) [OF c] by simp
    note IH = Cons.IH [OF keeps_ok [OF s(1)] s(2) this r]
    have "main_deliveries h lact n (e # l) =
        deliveries (module_at h) (uplinks h) lact (stamped (last_frame h) (last_frame h) e) @
        main_deliveries h lact n l"
      using True Cons.prems(3) by (simp add: main_deliveries_def)
    then have "view h' = (fold deliver (main_deliveries h lact n (e # l)) (view h))
        (None := map strip (dropWhile (due last_t n) l))"
      using IH s(3) by (simp only: main_deliveries_config [OF c] fold_deliver_upd_None fun_upd_upd
          fold_append o_apply)
    moreover have "keeps h h'" using s(1) IH by (blast intro: keeps_trans)
    ultimately show ?thesis using True by simp
  qed
qed

text \<open>
  The main loop, by times alone: exactly the due events are delivered, in order, with their
  time moved into the period; what is not due stays.
\<close>

lemma main_loop_spec:
  assumes ok: "host_ok h" and r: "main_loop E C n h = Some h'"
  shows "keeps h h' \<and> view h' = (fold deliver (main_deliveries h lact n (queue h)) (view h))
    (None := filter (\<lambda>e. \<not> due (last_frame h) n e) (view h None))"
proof -
  from r obtain u where d: "drain E ''main loop'' (last_frame h) (last_frame h) n None
      (main_body E C) (queue h) ((), h) = Some (u, h')"
    by (auto simp: main_loop_def split: Option.bind_splits)
  have "by_time (queue_of h None)" using ok unfolding host_wf_def by (blast intro: queues_okD(1))
  then have "by_time (queue h)" by simp
  note t = takeWhile_due_filter [OF this, of "last_frame h" n]
  have "map strip (dropWhile (due (last_frame h) n) (queue h)) =
      filter (\<lambda>e. \<not> due (last_frame h) n e) (view h None)"
    using t by (simp add: view_def filter_map o_def)
  with main_drain [OF ok refl refl d] show ?thesis by simp
qed

end


section \<open>The whole callback\<close>

context process_contract
begin

abbreviation chunk_ready :: "('t, 'r) host \<Rightarrow> bool" where
  "chunk_ready \<equiv> chunk_waiting_ok rok contents pool_ok"

lemma add_memory_ok:
  assumes ok: "host_ok h" and c: "chunk_ready h" and r: "tjost_add_memory E h = Some h'"
  shows "keeps h h' \<and> view h' = view h \<and> pipe_uplink_rx h' = pipe_uplink_rx h \<and>
    contents (rb_rtmem h') = drop 8 (contents (rb_rtmem h)) \<or> length (contents (rb_rtmem h)) < 8 \<and> h' = h"
proof (cases "8 \<le> length (contents (rb_rtmem h))")
  case False
  with r c show ?thesis
    by (auto simp: tjost_add_memory_def chunk_waiting_ok_def ring.read_space Let_def)
next
  case True
  let ?a = "dec_le (take 8 (contents (rb_rtmem h)))"
  let ?c = "chunk_at h ?a"
  have rr: "rok (rb_rtmem h)" using c by (simp add: chunk_waiting_ok_def)
  obtain pool t where p: "ta_add_pool (tlsf_api E) (tlsf h) (ch_area ?c) (unat (ch_size ?c)) = (pool, t)"
    by fastforce
  have t: "aok t" "live t = live (tlsf h)"
    using add_pool [OF _ _ p] ok c True by (simp_all add: chunk_waiting_ok_def host_wf_def Let_def)
  define h2 where "h2 = h\<lparr>rb_rtmem := snd (rb_read (ring_api E) (rb_rtmem h) 8), tlsf := t,
    chunk_at := (chunk_at h)(?a := ?c\<lparr>ch_pool := pool\<rparr>),
    rtmem_chunks := ?a # rtmem_chunks h, rtmem_sum := rtmem_sum h + ch_size ?c, rtmem_flag := 0\<rparr>"
  have q: "queue_of h2 = queue_of h"
    by (rule ext) (simp add: h2_def queue_of_def split: option.splits)
  have h2: "host_ok h2" "used_inv h2 = used_inv h" "config h2 = config h"
    using ok t unfolding host_wf_def used_exact_def q by (simp_all add: h2_def config_def)
  obtain str where r': "tjost_host_message_push E h2 str = Some h'"
    using r True p
    by (simp add: tjost_add_memory_def Let_def ring.read_space [OF rr] ring.read_bytes [OF rr] h2_def)
  note f = message_push_frame [OF r']
  have "keeps h h'"
    using message_push_ok [OF h2(1) r'] message_push_used [OF r'] h2 config_mem_frame [OF f(1)]
    by (simp add: preserves_def)
  moreover have "view h' = view h"
    using view_frame [OF f(1)] q by (simp add: view_def fun_eq_iff)
  moreover have "pipe_uplink_rx h' = pipe_uplink_rx h" "rb_rtmem h' = rb_rtmem h2"
    using f(1) by (simp_all add: mem_frameD) (simp add: h2_def)
  ultimately show ?thesis using ring.read_state [OF rr] by (simp add: h2_def)
qed

lemma add_memory_keeps:
  assumes "host_ok h" and "chunk_ready h" and "tjost_add_memory E h = Some h'"
  shows "keeps h h'" "pipe_uplink_rx h' = pipe_uplink_rx h"
  using add_memory_ok [OF assms] assms(1) by (auto simp: keeps_refl)

lemma rx_keeps:
  assumes ok: "host_ok h" and r: "rok (pipe_uplink_rx h)" "\<forall>f\<in>set fs. valid_frame f"
      "contents (pipe_uplink_rx h) = pipe_bytes fs"
    and d: "tjost_uplink_rx_drain E h = Some h'"
  shows "keeps h h'"
proof -
  from d obtain err r' h1 where x: "rx_drain E 0 (pipe_uplink_rx h) h = Some (err, r', h1)"
    and h': "(if err \<noteq> 0 then tjost_host_message_push E (h1\<lparr>pipe_uplink_rx := r'\<rparr>)
      ''tjost_uplink_rx_drain: tjost_pipe_consume failed'' else Some (h1\<lparr>pipe_uplink_rx := r'\<rparr>)) = Some h'"
    by (auto simp: tjost_uplink_rx_drain_def Let_def split: Option.bind_splits)
  from rx_drain_spec [OF ok r x] h' config_queue_frame [of h h1] have "config h' = config h" by auto
  with uplink_rx_drain_spec [OF ok r d] show ?thesis by (simp add: preserves_def)
qed

lemma flush_keeps:
  assumes ok: "host_ok h" and r: "flush_uplink E h = Some h'"
  shows "keeps h h'"
proof -
  let ?h1 = "h\<lparr>tx_flushes := tx_flushes h + 1\<rparr>"
  have q: "queue_of ?h1 = queue_of h" by (rule ext) (simp add: queue_of_def split: option.splits)
  have k: "keeps h ?h1" using ok unfolding preserves_def host_wf_def used_exact_def q by simp
  have "keeps ?h1 h'" if "tjost_host_message_push E ?h1 s = Some h'" for s
    using message_push_ok [OF keeps_ok [OF k] that] message_push_used [OF that]
      config_mem_frame [OF message_push_frame(1) [OF that]] by (simp add: preserves_def)
  with k ok r show ?thesis
    by (auto simp: flush_uplink_def Let_def keeps_refl split: if_splits intro: keeps_trans)
qed

lemma process_spec:
  assumes ok: "host_ok h" "chunk_ready h"
    and rx: "rok (pipe_uplink_rx h)" "\<forall>f\<in>set fs. valid_frame f" "contents (pipe_uplink_rx h) = pipe_bytes fs"
    and p: "tjost_process E C n h = Some (ret, h')"
  shows "ret = 0 \<and> keeps h h'"
proof -
  from p obtain h1 h2 h3 h4 h5 h6 h7 where s: "tjost_add_memory E h = Some h1"
    "tjost_uplink_rx_drain E h1 = Some h2"
    "run_modules (run_if TJOST_MODULE_INPUT (process_in C n)) (modules h2) (h2\<lparr>pipe_uplink_tx_count := 0\<rparr>) = Some h3"
    "main_loop E C n h3 = Some h4"
    "run_modules (run_if TJOST_MODULE_OUTPUT (process_out C n)) (modules h4) h4 = Some h5"
    "run_modules (process_out C n) (uplinks h5) h5 = Some h6" "flush_uplink E h6 = Some h7"
    "lua_gc C h7 = Some h'" "ret = 0"
    by (auto simp: tjost_process_def split: Option.bind_splits)
  note k1 = add_memory_keeps [OF ok s(1)]
  note k2 = rx_keeps [OF keeps_ok [OF k1(1)] rx [folded k1(2)] s(2)]
  have q: "queue_of (h2\<lparr>pipe_uplink_tx_count := 0\<rparr>) = queue_of h2"
    by (rule ext) (simp add: queue_of_def split: option.splits)
  have k2': "keeps h2 (h2\<lparr>pipe_uplink_tx_count := 0\<rparr>)"
    using keeps_ok [OF k2] unfolding preserves_def host_wf_def used_exact_def q by simp
  have i: "keeps h h'" if "host_ok h" "process_in C n m h = Some h'" for m h h'
    using process_in_ok [OF that] by (simp add: preserves_def)
  have o: "keeps h h'" if "host_ok h" "process_out C n m h = Some h'" for m h h'
    using process_out_ok [OF that] by (simp add: preserves_def)
  have k3: "keeps (h2\<lparr>pipe_uplink_tx_count := 0\<rparr>) h3"
    by (rule run_modules_keeps [OF run_if_keeps [OF i] keeps_ok [OF k2'] s(3)])
  have k4: "keeps h3 h4" using main_loop_spec [OF keeps_ok [OF k3] s(4)] by simp
  have k5: "keeps h4 h5" by (rule run_modules_keeps [OF run_if_keeps [OF o] keeps_ok [OF k4] s(5)])
  have k6: "keeps h5 h6" by (rule run_modules_keeps [OF o keeps_ok [OF k5] s(6)])
  have k7: "keeps h6 h7" by (rule flush_keeps [OF keeps_ok [OF k6] s(7)])
  have k8: "keeps h7 h'" using gc_ok [OF keeps_ok [OF k7] s(8)] by (simp add: preserves_def)
  note k = keeps_trans [OF keeps_trans [OF keeps_trans [OF k1(1) k2] k2'] k3]
  show ?thesis
    using keeps_trans [OF keeps_trans [OF keeps_trans [OF keeps_trans [OF keeps_trans [OF k k4] k5] k6] k7] k8]
      s(9) by blast
qed

end

end
