(* ===== verification/Tlsf_Provider.thy ===== *)
theory Tlsf_Provider
  imports Tlsf_Correct Process
begin

text \<open>
  TLSF provides what the host asks of its allocator: the contract \<open>rt_pool_allocator\<close>
  interpreted on the model of \<open>tlsf.c\<close>. Requests above \<open>tlsf_limit\<close> are answered with NULL here;
  the source itself leaves its arrays on some of them (\<open>malloc_out_of_bounds\<close>) and grants others
  without the memory (\<open>realloc_huge\<close>).
\<close>

section \<open>Creation\<close>

lemma control_construct_wf:
  assumes "mem \<noteq> 0"
  shows "tlsf_wf (control_construct mem m)" "tlsf_used (control_construct mem m) = Map.empty"
proof -
  let ?t = "control_construct mem m"
  have "index_ok ?t (\<lambda>_ _. [])"
    using assms by (auto simp: index_ok_def index_shape_def class_ok_def control_construct_def list_head_def)
  then have h: "heap ?t {} (\<lambda>_. 0) (\<lambda>_. False) (\<lambda>_. False) {}"
    by (auto simp: heap_def indexed_def layout_def outside_def control_construct_def intro!: exI [of _ "\<lambda>_ _. []"])
  show "tlsf_wf ?t" by (rule tlsf_wfI [OF h]) (simp add: coalesced_def)
  show "tlsf_used ?t = Map.empty" by (auto simp: tlsf_used_heap [OF h] used_blocks_def fun_eq_iff)
qed

text \<open>The memory the host starts with: control structure and pool in one area.\<close>

lemma tlsf_create_with_pool_ok:
  assumes m: "8 dvd mem" "0 < mem" and n: "6576 \<le> unat bytes" "mem + unat bytes \<le> 2 ^ 32"
  shows "\<exists>t. tlsf_create_with_pool mem bytes m = Some t \<and> tlsf_wf t \<and> tlsf_used t = Map.empty \<and>
    tlsf_free_blocks t = [mem + 6528 \<mapsto> (unat bytes - 6552) div 8 * 8]"
proof -
  let ?t = "control_construct mem m"
  have b: "unat (bytes - tlsf_size) = unat bytes - 6536"
    using n(1) by (simp add: tlsf_size_def unat_sub word_le_nat_alt)
  have "tlsf_pool_fresh ?t (mem + 6536) (unat (bytes - tlsf_size))"
    unfolding b using m n by (simp add: tlsf_pool_fresh_def control_construct_def)
  from tlsf_add_pool_ok [OF control_construct_wf(1) this] m(2) obtain t where
    t: "tlsf_add_pool (mem + 6536) (bytes - tlsf_size) ?t = Some (mem + 6536, t)" "tlsf_wf t"
      "tlsf_used t = tlsf_used ?t"
      "tlsf_free_blocks t = (tlsf_free_blocks ?t)(mem + 6536 - 8 \<mapsto> (unat (bytes - tlsf_size) - 16) div 8 * 8)"
    by blast
  have "tlsf_free_blocks ?t = Map.empty" by (simp add: tlsf_free_blocks_def control_construct_def fun_eq_iff)
  with t(4) b have fb: "tlsf_free_blocks t = [mem + 6528 \<mapsto> (unat bytes - 6552) div 8 * 8]" by (simp add: add.commute)
  have "tlsf_create_with_pool mem bytes m = Some t"
    using m(1) t(1) by (simp add: tlsf_create_with_pool_def tlsf_create_def tlsf_size_def)
  with t fb control_construct_wf(2) [of mem m] m(2) show ?thesis by simp
qed

section \<open>The contract\<close>

definition tlsf_live :: "control \<Rightarrow> addr \<rightharpoonup> nat" where
  "tlsf_live t p = (if p < 16 then None else tlsf_used t (p - 16))"

definition tlsf_host_ops :: "control tlsf_ops" where
  "tlsf_host_ops = \<lparr>
     ta_malloc = (\<lambda>t n. if n > tlsf_limit then (None, t)
       else case tlsf_malloc t (of_nat n) of None \<Rightarrow> (None, t) | Some (p, t') \<Rightarrow> (of_ptr p, t')),
     ta_realloc = (\<lambda>t p n. if n > tlsf_limit then (None, t)
       else case tlsf_realloc t (ptr_of p) (of_nat n) of None \<Rightarrow> (None, t) | Some (q, t') \<Rightarrow> (of_ptr q, t')),
     ta_free = (\<lambda>t p. case tlsf_free t (ptr_of p) of None \<Rightarrow> t | Some t' \<Rightarrow> t'),
     ta_block_size = (\<lambda>t p. unat (tlsf_block_size t (ptr_of p))),
     ta_add_pool = (\<lambda>t area n. case tlsf_add_pool area (of_nat n) t of None \<Rightarrow> (None, t)
       | Some (p, t') \<Rightarrow> (of_ptr p, t')),
     ta_remove_pool = (\<lambda>t p. case tlsf_remove_pool (ptr_of p) t of None \<Rightarrow> t | Some t' \<Rightarrow> t')\<rparr>"

lemma tlsf_live_shift:
  "tlsf_used t' = (tlsf_used t)(b := v) \<Longrightarrow> tlsf_live t' = (tlsf_live t)(b + 16 := v)"
  by (rule ext) (auto simp: tlsf_live_def)

lemma tlsf_live_SomeD:
  assumes "tlsf_live t p = Some s"
  obtains b where "p = b + 16" "tlsf_used t b = Some s"
  using assms that [of "p - 16"] by (auto simp: tlsf_live_def split: if_splits)

lemma tlsf_live_16 [simp]: "tlsf_live t (b + 16) = tlsf_used t b"
  by (simp add: tlsf_live_def)

lemma unat_limit: "n \<le> tlsf_limit \<Longrightarrow> unat (of_nat n :: size_t) = n"
  by (simp add: tlsf_limit_def unat_of_nat)

lemma tlsf_live_finite: "tlsf_wf t \<Longrightarrow> finite (dom (tlsf_live t))"
proof -
  assume "tlsf_wf t"
  then obtain S z fr pf where h: "heap t S z fr pf {}" unfolding tlsf_wf_def by blast
  have "dom (tlsf_live t) \<subseteq> (\<lambda>b. b + 16) ` S"
  proof
    fix p assume "p \<in> dom (tlsf_live t)"
    then obtain s where "tlsf_live t p = Some s" by blast
    then obtain b where "p = b + 16" "tlsf_used t b = Some s" by (rule tlsf_live_SomeD)
    then show "p \<in> (\<lambda>b. b + 16) ` S"
      by (auto simp: tlsf_used_heap [OF h] used_blocks_def split: if_splits)
  qed
  then show ?thesis using layout_finite [OF heapD(5) [OF h]] finite_subset by blast
qed

lemma of_ptr_cases: "of_ptr p = None \<longleftrightarrow> p = 0" "of_ptr p = Some a \<longleftrightarrow> p = a \<and> a \<noteq> 0"
  by (auto simp: of_ptr_def)

lemma tlsf_host_malloc:
  assumes "tlsf_wf t" and "ta_malloc tlsf_host_ops t n = (r, t')"
  shows "tlsf_wf t' \<and> (case r of None \<Rightarrow> tlsf_live t' = tlsf_live t
    | Some a \<Rightarrow> a \<noteq> 0 \<and> tlsf_live t a = None \<and> (\<exists>s\<ge>n. tlsf_live t' = (tlsf_live t)(a \<mapsto> s)))"
proof (cases "n > tlsf_limit")
  case True
  with assms show ?thesis by (auto simp: tlsf_host_ops_def)
next
  case False
  then have n: "n \<le> tlsf_limit" by simp
  note u = unat_limit [OF n]
  obtain p t1 where m: "tlsf_malloc t (of_nat n) = Some (p, t1)" "tlsf_wf t1"
    "p = 0 \<and> t1 = t \<or> (\<exists>b s. p = b + 16 \<and> tlsf_used t b = None \<and> n \<le> s \<and>
      tlsf_used t1 = (tlsf_used t)(b \<mapsto> s))"
    using tlsf_malloc_ok [OF assms(1), of "of_nat n"] n unfolding u by metis
  have r: "r = of_ptr p" "t' = t1" using assms(2) n m(1) by (simp_all add: tlsf_host_ops_def)
  from m(3) show ?thesis
  proof (elim disjE exE conjE)
    fix b s assume "p = b + 16" "tlsf_used t b = None" "n \<le> s" "tlsf_used t1 = (tlsf_used t)(b \<mapsto> s)"
    with tlsf_live_shift [OF this(4)] m(2) show ?thesis by (auto simp: r of_ptr_def)
  qed (use m(2) in \<open>simp add: r of_ptr_def\<close>)
qed

lemma tlsf_host_realloc:
  assumes wf: "tlsf_wf t" and a: "tlsf_live t a = Some s"
    and r: "ta_realloc tlsf_host_ops t (Some a) n = (q, t')"
  shows "tlsf_wf t' \<and> (case q of None \<Rightarrow> tlsf_live t' = (if n = 0 then (tlsf_live t)(a := None) else tlsf_live t)
    | Some b \<Rightarrow> b \<noteq> 0 \<and> (b = a \<or> tlsf_live t b = None) \<and>
        (\<exists>s'\<ge>n. tlsf_live t' = (tlsf_live t)(a := None, b \<mapsto> s')))"
proof -
  obtain b where b: "a = b + 16" "tlsf_used t b = Some s" using a by (rule tlsf_live_SomeD)
  have pa: "ptr_of (Some a) = b + 16" using b(1) by (simp add: ptr_of_def)
  consider (big) "n > tlsf_limit" | (zero) "n = 0" | (fits) "0 < n" "n \<le> tlsf_limit" by linarith
  then show ?thesis
  proof cases
    case big
    then have "q = None" "t' = t" "n \<noteq> 0" using r by (auto simp: tlsf_host_ops_def)
    then show ?thesis using wf by simp
  next
    case zero
    obtain t1 where t1: "tlsf_free t (b + 16) = Some t1" "tlsf_wf t1" "tlsf_used t1 = (tlsf_used t)(b := None)"
      using tlsf_free_ok [OF wf b(2)] by blast
    then have "q = None" "t' = t1"
      using r zero by (auto simp: tlsf_host_ops_def pa tlsf_realloc_def of_ptr_def)
    then show ?thesis using zero t1 tlsf_live_shift [OF t1(3)] b(1) by simp
  next
    case fits
    note u = unat_limit [OF fits(2)]
    obtain p t1 where m: "tlsf_realloc t (b + 16) (of_nat n) = Some (p, t1)" "tlsf_wf t1"
      "p = 0 \<and> tlsf_used t1 = tlsf_used t \<or> (\<exists>c s'. p = c + 16 \<and> (c = b \<or> tlsf_used t c = None) \<and> n \<le> s' \<and>
        tlsf_used t1 = (tlsf_used t)(b := None, c \<mapsto> s'))"
      using tlsf_realloc_ok [OF wf b(2), of "of_nat n"] fits unfolding u by blast
    have q: "q = of_ptr p" "t' = t1" using r fits m(1) by (simp_all add: tlsf_host_ops_def pa)
    from m(3) consider "p = 0" "tlsf_used t1 = tlsf_used t"
      | c s' where "p = c + 16" "c = b \<or> tlsf_used t c = None" "n \<le> s'"
        "tlsf_used t1 = (tlsf_used t)(b := None, c \<mapsto> s')" by blast
    then show ?thesis
    proof cases
      case 1
      then show ?thesis using m(2) fits(1) by (simp add: q of_ptr_def tlsf_live_def fun_eq_iff)
    next
      case (2 c s')
      have "tlsf_live t1 = (tlsf_live t)(b + 16 := None, c + 16 \<mapsto> s')"
        by (rule ext) (auto simp: tlsf_live_def 2(4))
      with 2(1-3) m(2) show ?thesis by (auto simp: q of_ptr_def b(1))
    qed
  qed
qed

interpretation tlsf: rt_pool_allocator tlsf_host_ops tlsf_live tlsf_wf tlsf_pool_fresh
proof unfold_locales
  show "finite (dom (tlsf_live t))" if "tlsf_wf t" for t by (rule tlsf_live_finite [OF that])
  show "tlsf_wf t' \<and> tlsf_live t' = tlsf_live t"
    if "tlsf_wf t" "ta_malloc tlsf_host_ops t n = (None, t')" for t n t'
    using tlsf_host_malloc [OF that] by simp
  show "tlsf_wf t' \<and> a \<noteq> 0 \<and> tlsf_live t a = None \<and> (\<exists>s\<ge>n. tlsf_live t' = (tlsf_live t)(a \<mapsto> s))"
    if "tlsf_wf t" "ta_malloc tlsf_host_ops t n = (Some a, t')" for t n a t'
    using tlsf_host_malloc [OF that] by simp
  show "tlsf_wf t' \<and> tlsf_live t' = (if n = 0 then (tlsf_live t)(a := None) else tlsf_live t)"
    if "tlsf_wf t" "tlsf_live t a = Some s" "ta_realloc tlsf_host_ops t (Some a) n = (None, t')" for t a s n t'
    using tlsf_host_realloc [OF that] by simp
  show "tlsf_wf t' \<and> b \<noteq> 0 \<and> (b = a \<or> tlsf_live t b = None) \<and>
      (\<exists>s'\<ge>n. tlsf_live t' = (tlsf_live t)(a := None, b \<mapsto> s'))"
    if "tlsf_wf t" "tlsf_live t a = Some s" "ta_realloc tlsf_host_ops t (Some a) n = (Some b, t')"
    for t a s n b t'
    using tlsf_host_realloc [OF that] by simp
  show "tlsf_wf (ta_free tlsf_host_ops t (Some a)) \<and>
      tlsf_live (ta_free tlsf_host_ops t (Some a)) = (tlsf_live t)(a := None)"
    if wf: "tlsf_wf t" and a: "tlsf_live t a = Some s" for t a s
  proof -
    obtain b where b: "a = b + 16" "tlsf_used t b = Some s" using a by (rule tlsf_live_SomeD)
    obtain t1 where t1: "tlsf_free t (b + 16) = Some t1" "tlsf_wf t1" "tlsf_used t1 = (tlsf_used t)(b := None)"
      using tlsf_free_ok [OF wf b(2)] by blast
    then show ?thesis using tlsf_live_shift [OF t1(3)] b(1) by (simp add: tlsf_host_ops_def ptr_of_def)
  qed
  show "ta_block_size tlsf_host_ops t (Some a) = s" if l: "tlsf_live t a = Some s" for t a s
  proof -
    obtain b where b: "a = b + 16" "tlsf_used t b = Some s" using l by (rule tlsf_live_SomeD)
    then show ?thesis using tlsf_block_size_ok [OF b(2)] by (simp add: tlsf_host_ops_def ptr_of_def)
  qed
  show "ta_block_size tlsf_host_ops t None = 0" for t
    by (simp add: tlsf_host_ops_def ptr_of_def tlsf_block_size_def)
  show "tlsf_wf t' \<and> tlsf_live t' = tlsf_live t"
    if wf: "tlsf_wf t" and f: "tlsf_pool_fresh t area n" and r: "ta_add_pool tlsf_host_ops t area n = (p, t')"
    for t area n p t'
  proof -
    have n: "unat (of_nat n :: size_t) = n" using f by (simp add: tlsf_pool_fresh_def unat_of_nat)
    obtain t1 where "tlsf_add_pool area (of_nat n) t = Some (area, t1)" "tlsf_wf t1" "tlsf_used t1 = tlsf_used t"
      using tlsf_add_pool_ok [OF wf, of area "of_nat n"] f unfolding n by blast
    then show ?thesis using r by (auto simp: tlsf_host_ops_def tlsf_live_def fun_eq_iff)
  qed
qed

end
