(* ===== verification/Tlsf_Check.thy ===== *)
theory Tlsf_Check
  imports Tlsf_Correct
begin

text \<open>
  The consistency checks of \<open>tlsf.c\<close>: \<open>tlsf_check\<close> over the free lists and their bitmaps,
  \<open>tlsf_walk_pool\<close> with the walker of \<open>tlsf_check_pool\<close> over the blocks of a pool, and the self-test of
  the bit searches. Both loops follow links of the heap and need not end on a damaged one.
\<close>

section \<open>The free lists\<close>

definition tlsf_insist :: "bool \<Rightarrow> int \<Rightarrow> int option" where
  "tlsf_insist x status = do { tlsf_assert x; Some (if x then status else status - 1) }"

definition check_block :: "control \<Rightarrow> nat \<Rightarrow> nat \<Rightarrow> addr \<Rightarrow> int \<Rightarrow> int option" where
  "check_block t i j b s0 =
     do { s1 \<leftarrow> tlsf_insist (block_is_free t b) s0;
          s2 \<leftarrow> tlsf_insist (\<not> block_is_prev_free t b) s1;
          nxt \<leftarrow> block_next t b;
          s3 \<leftarrow> tlsf_insist (\<not> block_is_free t nxt) s2;
          s4 \<leftarrow> tlsf_insist (block_is_prev_free t nxt) s3;
          s5 \<leftarrow> tlsf_insist (block_size t b \<ge> block_size_min) s4;
          case mapping_insert (block_size t b) of (fli, sli) \<Rightarrow> tlsf_insist (fli = i \<and> sli = j) s5 }"

partial_function (option) check_list :: "control \<Rightarrow> nat \<Rightarrow> nat \<Rightarrow> addr \<Rightarrow> int \<Rightarrow> int option" where
  "check_list t i j b s =
     (if b \<noteq> block_null t then do { s1 \<leftarrow> check_block t i j b s; check_list t i j (next_free (hdr_at t b)) s1 }
      else Some s)"

definition check_class :: "control \<Rightarrow> nat \<Rightarrow> nat \<Rightarrow> int \<Rightarrow> int option" where
  "check_class t i j s0 =
     (let fl_map = fl_bitmap t AND push_bit i 1; sl_list = sl_bitmap t ! i; sl_map = sl_list AND push_bit j 1;
          b = list_head t i j in
      do { s1 \<leftarrow> (if fl_map = 0 then tlsf_insist (sl_map = 0) s0 else Some s0);
           if sl_map = 0 then tlsf_insist (b = block_null t) s1
           else do { s2 \<leftarrow> tlsf_insist (sl_list \<noteq> 0) s1;
                     s3 \<leftarrow> tlsf_insist (b \<noteq> block_null t) s2;
                     check_list t i j b s3 } })"

fun check_classes :: "control \<Rightarrow> (nat \<times> nat) list \<Rightarrow> int \<Rightarrow> int option" where
  "check_classes t [] s = Some s"
| "check_classes t ((i, j) # cs) s = do { s1 \<leftarrow> check_class t i j s; check_classes t cs s1 }"

definition tlsf_check :: "control \<Rightarrow> int option" where
  "tlsf_check t = check_classes t (List.product [0..<25] [0..<32]) 0"

section \<open>The blocks of a pool\<close>

partial_function (option) walk_blocks ::
  "control \<Rightarrow> (addr \<Rightarrow> size_t \<Rightarrow> bool \<Rightarrow> 'u \<Rightarrow> 'u option) \<Rightarrow> addr \<Rightarrow> 'u \<Rightarrow> 'u option" where
  "walk_blocks t walker b user =
     (if b \<noteq> 0 \<and> \<not> block_is_last t b then
        do { user1 \<leftarrow> walker (block_to_ptr b) (block_size t b) (\<not> block_is_free t b) user;
             nxt \<leftarrow> block_next t b;
             walk_blocks t walker nxt user1 }
      else Some user)"

definition tlsf_walk_pool ::
  "control \<Rightarrow> addr \<Rightarrow> (addr \<Rightarrow> size_t \<Rightarrow> bool \<Rightarrow> 'u \<Rightarrow> 'u option) \<Rightarrow> 'u \<Rightarrow> 'u option" where
  "tlsf_walk_pool t pool walker = walk_blocks t walker (offset_to_block pool (- block_header_overhead))"

record integrity =
  prev_status :: int
  status :: int

definition integrity_walker :: "control \<Rightarrow> addr \<Rightarrow> size_t \<Rightarrow> bool \<Rightarrow> integrity \<Rightarrow> integrity option" where
  "integrity_walker t ptr sz used integ =
     (let b = block_from_ptr ptr;
          this_prev_status = (if block_is_prev_free t b then 1 else 0);
          this_status = (if block_is_free t b then 1 else 0) in
      do { s1 \<leftarrow> tlsf_insist (prev_status integ = this_prev_status) 0;
           s2 \<leftarrow> tlsf_insist (sz = block_size t b) s1;
           Some \<lparr>prev_status = this_status, status = status integ + s2\<rparr> })"

definition tlsf_check_pool :: "control \<Rightarrow> addr \<Rightarrow> int option" where
  "tlsf_check_pool t pool =
     map_option status (tlsf_walk_pool t pool (integrity_walker t) \<lparr>prev_status = 0, status = 0\<rparr>)"

section \<open>The self-test of the bit searches\<close>

definition test_ffs_fls :: int where
  "test_ffs_fls =
     (if tlsf_ffs 0 = - 1 then 0 else 0x1) + (if tlsf_fls 0 = - 1 then 0 else 0x2) +
     (if tlsf_ffs 1 = 0 then 0 else 0x4) + (if tlsf_fls 1 = 0 then 0 else 0x8) +
     (if tlsf_ffs 0x80000000 = 31 then 0 else 0x10) + (if tlsf_ffs 0x80008000 = 15 then 0 else 0x20) +
     (if tlsf_fls 0x80000008 = 31 then 0 else 0x40) + (if tlsf_fls 0x7FFFFFFF = 30 then 0 else 0x80) +
     (if tlsf_fls_sizet 0x80000000 = 31 then 0 else 0x100) + (if tlsf_fls_sizet 0x100000000 = 32 then 0 else 0x200) +
     (if tlsf_fls_sizet 0xffffffffffffffff = 63 then 0 else 0x400)"

definition tlsf_align_size :: size_t where "tlsf_align_size = 8"
definition tlsf_alloc_overhead :: size_t where "tlsf_alloc_overhead = block_header_overhead"
definition tlsf_block_size_min :: size_t where "tlsf_block_size_min = block_size_min"
definition tlsf_block_size_max :: size_t where "tlsf_block_size_max = block_size_max"

section \<open>What a passed check says\<close>

lemma tlsf_insist_Some [simp]: "tlsf_insist x s = Some s' \<longleftrightarrow> x \<and> s' = s"
  by (auto simp: tlsf_insist_def tlsf_assert_def)

definition block_sound :: "control \<Rightarrow> nat \<Rightarrow> nat \<Rightarrow> addr \<Rightarrow> bool" where
  "block_sound t i j b \<longleftrightarrow> block_is_free t b \<and> \<not> block_is_prev_free t b \<and>
     (\<exists>n. block_next t b = Some n \<and> \<not> block_is_free t n \<and> block_is_prev_free t n) \<and>
     block_size_min \<le> block_size t b \<and> mapping_insert (block_size t b) = (i, j)"

text \<open>\<open>bs\<close> are the blocks from \<open>b\<close> to the null block along \<open>next_free\<close>.\<close>

fun linked :: "control \<Rightarrow> addr \<Rightarrow> addr list \<Rightarrow> bool" where
  "linked t b [] \<longleftrightarrow> b = block_null t"
| "linked t b (x # bs) \<longleftrightarrow> b = x \<and> x \<noteq> block_null t \<and> linked t (next_free (hdr_at t x)) bs"

definition class_sound :: "control \<Rightarrow> nat \<Rightarrow> nat \<Rightarrow> bool" where
  "class_sound t i j \<longleftrightarrow>
     (if bit (sl_bitmap t ! i) j
      then bit (fl_bitmap t) i \<and> (\<exists>bs. bs \<noteq> [] \<and> linked t (list_head t i j) bs \<and> (\<forall>b\<in>set bs. block_sound t i j b))
      else list_head t i j = block_null t)"

lemma check_block_Some: "check_block t i j b s = Some s' \<longleftrightarrow> s' = s \<and> block_sound t i j b"
  by (auto simp: check_block_def block_sound_def bind_eq_Some_conv split: prod.splits)

lemma check_list_linked:
  "linked t b bs \<Longrightarrow> \<forall>x\<in>set bs. block_sound t i j x \<Longrightarrow> check_list t i j b s = Some s"
proof (induction bs arbitrary: b)
  case Nil
  then show ?case by (subst check_list.simps) simp
next
  case (Cons x bs)
  then show ?case by (subst check_list.simps) (simp add: check_block_Some [THEN iffD2])
qed

lemma check_list_sound:
  assumes "check_list t i j b s = Some s'"
  shows "s' = s \<and> (\<exists>bs. linked t b bs \<and> (\<forall>x\<in>set bs. block_sound t i j x))"
proof (rule check_list.raw_induct [OF _ assms, where P = "\<lambda>t i j b s s'. s' = s \<and> (\<exists>bs. linked t b bs \<and> (\<forall>x\<in>set bs. block_sound t i j x))"])
  fix f t i j b s s'
  assume IH: "\<And>t i j b s s'. f t i j b s = Some s' \<Longrightarrow> s' = s \<and> (\<exists>bs. linked t b bs \<and> (\<forall>x\<in>set bs. block_sound t i j x))"
    and r: "(if b \<noteq> block_null t then do { s1 \<leftarrow> check_block t i j b s; f t i j (next_free (hdr_at t b)) s1 } else Some s) = Some s'"
  show "s' = s \<and> (\<exists>bs. linked t b bs \<and> (\<forall>x\<in>set bs. block_sound t i j x))"
  proof (cases "b = block_null t")
    case True
    with r show ?thesis by (auto intro: exI [of _ "[]"])
  next
    case False
    with r obtain s1 where c: "check_block t i j b s = Some s1" "f t i j (next_free (hdr_at t b)) s1 = Some s'"
      by (auto simp: bind_eq_Some_conv)
    from IH [OF c(2)] obtain bs where "s' = s1" "linked t (next_free (hdr_at t b)) bs"
      "\<forall>x\<in>set bs. block_sound t i j x" by blast
    with c(1) False show ?thesis by (auto simp: check_block_Some intro!: exI [of _ "b # bs"])
  qed
qed

lemma check_class_Some:
  assumes "i < 25" and "j < 32"
  shows "check_class t i j s = Some s' \<longleftrightarrow> s' = s \<and> class_sound t i j"
proof (cases "bit (sl_bitmap t ! i) j")
  case False
  with assms show ?thesis
    by (auto simp: check_class_def Let_def and_exp_eq_0_iff_not_bit class_sound_def bind_eq_Some_conv split: if_splits)
next
  case True
  then have "sl_bitmap t ! i \<noteq> 0" by auto
  with True assms have "check_class t i j s = Some s' \<longleftrightarrow>
      bit (fl_bitmap t) i \<and> list_head t i j \<noteq> block_null t \<and> check_list t i j (list_head t i j) s = Some s'"
    by (auto simp: check_class_def Let_def and_exp_eq_0_iff_not_bit bind_eq_Some_conv split: if_splits)
  moreover have "list_head t i j \<noteq> block_null t \<and> linked t (list_head t i j) bs \<longleftrightarrow>
      bs \<noteq> [] \<and> linked t (list_head t i j) bs" for bs
    by (cases bs) auto
  ultimately show ?thesis
    using True check_list_linked [of t "list_head t i j" _ i j s] check_list_sound [of t i j "list_head t i j" s s']
    unfolding class_sound_def by auto
qed

lemma check_classes_Some:
  "\<forall>(i, j)\<in>set cs. i < 25 \<and> j < 32 \<Longrightarrow>
   check_classes t cs s = Some s' \<longleftrightarrow> s' = s \<and> (\<forall>(i, j)\<in>set cs. class_sound t i j)"
  by (induction t cs s rule: check_classes.induct) (auto simp: bind_eq_Some_conv check_class_Some)

lemma tlsf_check_Some: "tlsf_check t = Some s \<longleftrightarrow> s = 0 \<and> (\<forall>i<25. \<forall>j<32. class_sound t i j)"
proof -
  have "set (List.product [0..<25] [0..<32]) = {0..<25} \<times> {0..<(32 :: nat)}" by simp
  then show ?thesis
    unfolding tlsf_check_def by (subst check_classes_Some) auto
qed

section \<open>Well-formed heaps pass\<close>

lemma lseg_linked:
  "lseg (hdr_at t) p bs (block_null t) \<Longrightarrow> block_null t \<notin> set bs \<Longrightarrow> linked t (head_or bs (block_null t)) bs"
  by (induction bs arbitrary: p) (auto simp: head_or_def)

lemma free_block_sound:
  assumes h: "heap t S z fr pf {}" and co: "coalesced S fr pf" and b: "b \<in> S" "fr b"
    and c: "mapping_insert (of_nat (z b)) = (i, j)"
  shows "block_sound t i j b"
proof -
  note l = layoutD [OF heapD(5) [OF h] b(1)]
  have z: "z b \<noteq> 0" using l(4) b(2) by blast
  let ?n = "b + 8 + z b"
  have n: "?n \<in> S" "pf ?n" using l(7,8) z b(2) by blast+
  then have "\<not> fr ?n" using co by (auto simp: coalesced_def)
  moreover have "\<not> pf b" using co b by (auto simp: coalesced_def)
  moreover have "24 \<le> zs t b" using l(5) z heapD(2) [OF h b(1)] by simp
  then have "block_size_min \<le> block_size t b" by (simp add: block_size_min_def word_le_nat_alt)
  ultimately show ?thesis
    using heapD(3,4) [OF h b(1)] heapD(3,4) [OF h n(1)] block_next_heap [OF h b(1) z] n(2) b(2) c size_word [OF h b(1)]
    by (simp add: block_sound_def)
qed

lemma tlsf_check_wf:
  assumes "tlsf_wf t"
  shows "tlsf_check t = Some 0"
proof -
  obtain S z fr pf where h: "heap t S z fr pf {}" "coalesced S fr pf" using assms by (auto simp: tlsf_wf_def)
  obtain F where F: "index_ok t F" "indexed S z fr F {}" using h(1) by (rule heap_index)
  have "class_sound t i j" if c: "i < 25" "j < 32" for i j
  proof -
    have k: "class_ok t i j (F i j)" using index_okD(2) [OF F(1) c] .
    have "block_sound t i j b" if "b \<in> set (F i j)" for b
      using that F(2) c free_block_sound [OF h] by (auto simp: indexed_def)
    moreover have "bit (fl_bitmap t) i" if "bit (sl_bitmap t ! i) j"
      using that index_okD(3) [OF F(1) c(1)] by auto
    moreover have "linked t (list_head t i j) (F i j)"
      using k lseg_linked [of t "block_null t" "F i j"] by (simp add: class_ok_def)
    ultimately show ?thesis using k by (auto simp: class_sound_def class_ok_def head_or_def)
  qed
  then show ?thesis by (simp add: tlsf_check_Some)
qed

lemma walk_ok:
  assumes h: "heap t S z fr pf X"
  shows "b \<in> S \<Longrightarrow> prev_status g = (if pf b then 1 else 0) \<Longrightarrow> status g = 0 \<Longrightarrow>
    \<exists>g'. walk_blocks t (integrity_walker t) b g = Some g' \<and> status g' = 0"
proof (induction "2 ^ 32 - b" arbitrary: b g rule: less_induct)
  case less
  note l = layoutD [OF heapD(5) [OF h] less.prems(1)]
  note f = heapD(2-4) [OF h less.prems(1)]
  show ?case
  proof (cases "z b = 0")
    case True
    then have "block_is_last t b" using f(1) by (simp add: block_is_last_def unat_eq_0)
    then show ?thesis using less.prems(3) by (subst walk_blocks.simps) simp
  next
    case False
    let ?n = "b + 8 + z b" and ?g = "\<lparr>prev_status = if fr b then 1 else 0, status = 0\<rparr>"
    have w: "integrity_walker t (block_to_ptr b) (block_size t b) (\<not> block_is_free t b) g = Some ?g"
      using less.prems f by (simp add: integrity_walker_def block_from_ptr_def block_to_ptr_def
          tlsf_insist_Some [THEN iffD2] Let_def)
    have n: "?n \<in> S" "pf ?n = fr b" using l(7,8) False by blast+
    have lt: "2 ^ 32 - ?n < 2 ^ 32 - b" using l(3) by simp
    have "\<exists>g'. walk_blocks t (integrity_walker t) ?n ?g = Some g' \<and> status g' = 0"
      by (rule less.hyps [OF lt n(1)]) (simp_all add: n(2))
    then show ?thesis
      using l(1) block_next_heap [OF h less.prems(1) False] w by (subst walk_blocks.simps) simp
  qed
qed

lemma tlsf_check_pool_wf:
  assumes "tlsf_wf t" and "b \<in> blks t" and "\<not> block_is_prev_free t b"
  shows "tlsf_check_pool t (b + 8) = Some 0"
proof -
  obtain S z fr pf where h: "heap t S z fr pf {}" using assms(1) by (auto simp: tlsf_wf_def)
  have b: "b \<in> S" "\<not> pf b" using assms(2,3) heapD(1) [OF h] heapD(4) [OF h] by auto
  have "b + 16 \<le> 2 ^ 32" using layoutD(3) [OF heapD(5) [OF h] b(1)] by simp
  then have "offset_to_block (b + 8) (- block_header_overhead) = b"
    by (simp add: offset_to_block_def block_header_overhead_def unat_of_nat)
  then show ?thesis
    using walk_ok [OF h b(1), of "\<lparr>prev_status = 0, status = 0\<rparr>"] b(2)
    by (auto simp: tlsf_check_pool_def tlsf_walk_pool_def)
qed

end
