(* ===== verification/Tlsf_Properties.thy ===== *)
theory Tlsf_Properties
  imports Tlsf_Provider Tlsf_Check
begin

text \<open>
  The properties of the allocator: what its interface guarantees on every well-formed heap, the
  bit searches it rests on, and the requests it mishandles.
\<close>

section \<open>Requests near the limit\<close>

lemma adjust_large:
  assumes "tlsf_limit < unat sz" "unat sz < 2 ^ 32"
  shows "tlsf_limit < unat (adjust_request_size sz 8)" "unat (adjust_request_size sz 8) \<le> 2 ^ 32"
    "24 \<le> unat (adjust_request_size sz 8)"
proof -
  have "0 < unat sz" using assms(1) by simp
  note a = adjust_request_size_spec [OF this assms(2)]
  show "tlsf_limit < unat (adjust_request_size sz 8)" using a(3) assms(1) by simp
  show "unat (adjust_request_size sz 8) \<le> 2 ^ 32" "24 \<le> unat (adjust_request_size sz 8)" using a by simp_all
qed

lemma mapping_search_large:
  assumes s: "tlsf_limit < unat s" "unat s \<le> 2 ^ 32"
  shows "fst (mapping_search s) = 25"
proof -
  have "s \<noteq> 0" using s(1) by auto
  then obtain i where i: "tlsf_fls_sizet s = int i" "2 ^ i \<le> unat s" "unat s < 2 ^ Suc i"
    using tlsf_fls_sizet_spec by blast
  have "i = 31 \<or> i = 32"
  proof -
    have "(2 :: nat) ^ i < 2 ^ 33" "(2 :: nat) ^ 31 < 2 ^ Suc i" using i s by (simp_all add: tlsf_limit_def)
    then have "i < 33" "31 < Suc i" by (metis one_less_numeral_iff power_less_imp_less_exp semiring_norm(76))+
    then show ?thesis by auto
  qed
  define r where "r = (2 ^ (i - 5) - 1 :: nat)"
  have r: "2 ^ 26 - 1 \<le> r" "r < 2 ^ 27" using \<open>i = 31 \<or> i = 32\<close> by (auto simp: r_def)
  then have u: "unat (s + of_nat r) = unat s + r" using s(2) by (simp add: unat_word_ariths unat_of_nat)
  have m: "mapping_search s = mapping_insert (s + of_nat r)"
    using i(1) s(1) by (simp add: mapping_search_def r_def word_le_nat_alt tlsf_limit_def)
  have "256 \<le> unat (s + of_nat r)" "2 ^ 32 \<le> unat (s + of_nat r)" "unat (s + of_nat r) < 2 ^ Suc 32"
    unfolding u using s r by (simp_all add: tlsf_limit_def)
  from mapping_insert_large(1) [OF this] show ?thesis unfolding m by simp
qed

lemma locate_out_of_bounds:
  assumes "tlsf_limit < unat k" "unat k \<le> 2 ^ 32"
  shows "block_locate_free k t = None"
proof -
  obtain fl sl where m: "mapping_search k = (fl, sl)" by fastforce
  then have "fl = 25" using mapping_search_large [OF assms] by simp
  moreover have "k \<noteq> 0" using assms(1) by auto
  ultimately show ?thesis using m by (simp add: block_locate_free_def search_suitable_block_def)
qed

section \<open>The heap the host starts with\<close>

definition blank_memory :: "addr \<Rightarrow> bhdr" where
  "blank_memory a = \<lparr>prev_phys_block = 0, size_field = 0, next_free = 0, prev_free = 0\<rparr>"

lemma start_heap:
  obtains t where "tlsf_create_with_pool 65536 0x1000000 blank_memory = Some t" "tlsf_wf t"
    "tlsf_used t = Map.empty" "tlsf_free_blocks t = [72064 \<mapsto> 16770664]"
  using tlsf_create_with_pool_ok [of 65536 "0x1000000" blank_memory] by auto

lemma start_block:
  obtains t b s t' where "tlsf_create_with_pool 65536 0x1000000 blank_memory = Some t"
    "tlsf_malloc t 100 = Some (b + 16, t')" "tlsf_wf t'" "tlsf_used t' = [b \<mapsto> s]" "100 \<le> s"
proof -
  obtain t where t: "tlsf_create_with_pool 65536 0x1000000 blank_memory = Some t" "tlsf_wf t"
    "tlsf_used t = Map.empty" "tlsf_free_blocks t = [72064 \<mapsto> 16770664]"
    by (rule start_heap)
  have "unat (adjust_request_size 100 8) < 108" using adjust_request_size_spec(4) [of 100] by simp
  then have small: "\<not> (16770664 :: nat) < (let k = unat (adjust_request_size 100 8) in k + k div 32)"
    by (simp add: Let_def)
  have l: "unat (100 :: size_t) \<le> tlsf_limit" by (simp add: tlsf_limit_def)
  obtain p t' where m: "tlsf_malloc t 100 = Some (p, t')" "tlsf_wf t'"
    and "p = 0 \<and> t' = t \<and> (\<forall>b s. tlsf_free_blocks t b = Some s \<longrightarrow>
        s < (let k = unat (adjust_request_size 100 8) in k + k div 32)) \<or>
      (\<exists>b s. p = b + 16 \<and> 100 \<le> s \<and> tlsf_used t' = (tlsf_used t)(b \<mapsto> s))"
    using tlsf_malloc_ok [OF t(2) l] by (auto simp: Let_def)
  with small t(4) obtain b s where "p = b + 16" "100 \<le> s" "tlsf_used t' = (tlsf_used t)(b \<mapsto> s)" by auto
  with t(1,3) m that show thesis by simp
qed

section \<open>Shape of a heap\<close>

lemma used_shape:
  assumes wf: "tlsf_wf t" and b: "tlsf_used t b = Some s"
  shows "8 dvd b" "24 \<le> s" "b + 16 + s \<le> 2 ^ 32"
    "tlsf_used t c = Some s' \<or> tlsf_free_blocks t c = Some s' \<Longrightarrow> b \<noteq> c \<Longrightarrow>
      b + 16 + s \<le> c + 8 \<or> c + 16 + s' \<le> b + 8"
proof -
  obtain S z fr pf where h: "heap t S z fr pf {}" "b \<in> S" "z b \<noteq> 0" "z b = s"
    using wf b by (rule tlsf_used_SomeD)
  note l = layoutD [OF heapD(5) [OF h(1)]]
  show "8 dvd b" "24 \<le> s" "b + 16 + s \<le> 2 ^ 32" using l(2,3,5) [OF h(2)] h(3,4) by simp_all
  assume "tlsf_used t c = Some s' \<or> tlsf_free_blocks t c = Some s'" and ne: "b \<noteq> c"
  then have c: "c \<in> S" "z c = s'"
    by (auto simp: tlsf_used_heap [OF h(1)] tlsf_free_blocks_heap [OF h(1)] used_blocks_def split: if_splits)
  show "b + 16 + s \<le> c + 8 \<or> c + 16 + s' \<le> b + 8"
    using l(11) [OF h(2) c(1)] l(11) [OF c(1) h(2)] ne c(2) h(4) by (cases b c rule: linorder_cases) simp_all
qed

section \<open>Properties\<close>

text \<open>C1. Allocation. On a well-formed heap \<open>tlsf_malloc\<close> runs into no failing assertion for any
  request up to \<open>tlsf_limit\<close>. It returns the user area of a block that was not in use, at least as
  long as asked and with less than a header to spare over the rounded request, 8-byte aligned, and
  the heap is well formed with just this block added to the used ones. It returns null only when
  every free block is shorter than the rounded request plus a thirty-second of it (the good-fit
  guarantee), and then changes nothing.\<close>
theorem tlsf_malloc_correct:
  assumes "tlsf_wf t" and "unat sz \<le> tlsf_limit"
  shows "\<exists>p t'. tlsf_malloc t sz = Some (p, t') \<and> tlsf_wf t' \<and>
    (p = 0 \<and> t' = t \<and> (sz \<noteq> 0 \<longrightarrow> (\<forall>b s. tlsf_free_blocks t b = Some s \<longrightarrow>
       (let k = unat (adjust_request_size sz 8) in s < k + k div 32))) \<or>
     (\<exists>b s. p = b + 16 \<and> 8 dvd p \<and> tlsf_used t b = None \<and> unat sz \<le> s \<and>
       s < unat (adjust_request_size sz 8) + 32 \<and> tlsf_used t' = (tlsf_used t)(b \<mapsto> s)))"
proof -
  from tlsf_malloc_ok [OF assms] obtain p t' where m: "tlsf_malloc t sz = Some (p, t')" "tlsf_wf t'"
    and d: "p = 0 \<and> t' = t \<and> (sz \<noteq> 0 \<longrightarrow> (\<forall>b s. tlsf_free_blocks t b = Some s \<longrightarrow>
       (let k = unat (adjust_request_size sz 8) in s < k + k div 32))) \<or>
     (\<exists>b s. p = b + 16 \<and> tlsf_used t b = None \<and> unat sz \<le> s \<and>
       s < unat (adjust_request_size sz 8) + 32 \<and> tlsf_used t' = (tlsf_used t)(b \<mapsto> s))" by blast
  have "8 dvd b + 16" if "tlsf_used t' = (tlsf_used t)(b \<mapsto> s)" for b s
    using used_shape(1) [OF m(2), of b s] that by (simp add: dvd_add)
  with m d show ?thesis by blast
qed

theorem tlsf_malloc_correct_witness:
  "\<exists>t. tlsf_create_with_pool 65536 0x1000000 blank_memory = Some t \<and>
    (\<exists>b s t'. tlsf_malloc t 100 = Some (b + 16, t') \<and> 100 \<le> s \<and> tlsf_used t' = [b \<mapsto> s])"
proof -
  obtain t where t: "tlsf_create_with_pool 65536 0x1000000 blank_memory = Some t" "tlsf_wf t"
    "tlsf_used t = Map.empty" "tlsf_free_blocks t = [72064 \<mapsto> 16770664]"
    by (rule start_heap)
  have "unat (adjust_request_size 100 8) < 108" using adjust_request_size_spec(4) [of 100] by simp
  then have small: "\<not> (16770664 :: nat) < (let k = unat (adjust_request_size 100 8) in k + k div 32)"
    by (simp add: Let_def)
  have l: "unat (100 :: size_t) \<le> tlsf_limit" by (simp add: tlsf_limit_def)
  obtain p t' where m: "tlsf_malloc t 100 = Some (p, t')"
    and "p = 0 \<and> t' = t \<and> (\<forall>b s. tlsf_free_blocks t b = Some s \<longrightarrow>
        s < (let k = unat (adjust_request_size 100 8) in k + k div 32)) \<or>
      (\<exists>b s. p = b + 16 \<and> 100 \<le> s \<and> tlsf_used t' = (tlsf_used t)(b \<mapsto> s))"
    using tlsf_malloc_correct [OF t(2) l] by (auto simp: Let_def)
  with small t(4) obtain b s where "p = b + 16" "100 \<le> s" "tlsf_used t' = (tlsf_used t)(b \<mapsto> s)" by auto
  with m t(3) have "\<exists>b s t'. tlsf_malloc t 100 = Some (b + 16, t') \<and> 100 \<le> s \<and> tlsf_used t' = [b \<mapsto> s]"
    by auto
  with t(1) show ?thesis by blast
qed

text \<open>C2. Release. \<open>tlsf_free\<close> on the user area of a used block runs into no failing assertion,
  merges the block with its free neighbours so that the heap stays well formed (no two free blocks
  touch), and takes exactly that block from the used ones.\<close>
theorem tlsf_free_correct:
  assumes "tlsf_wf t" and "tlsf_used t b = Some s"
  shows "\<exists>t'. tlsf_free t (b + 16) = Some t' \<and> tlsf_wf t' \<and> tlsf_used t' = (tlsf_used t)(b := None)"
  using tlsf_free_ok [OF assms] by blast

theorem tlsf_free_correct_witness:
  "\<exists>t p t1 t2. tlsf_create_with_pool 65536 0x1000000 blank_memory = Some t \<and>
    tlsf_malloc t 100 = Some (p, t1) \<and> tlsf_free t1 p = Some t2 \<and> tlsf_wf t2 \<and> tlsf_used t2 = Map.empty"
proof -
  obtain t b s t1 where t: "tlsf_create_with_pool 65536 0x1000000 blank_memory = Some t"
    "tlsf_malloc t 100 = Some (b + 16, t1)" "tlsf_wf t1" "tlsf_used t1 = [b \<mapsto> s]" by (rule start_block)
  with tlsf_free_correct [OF t(3), of b s] show ?thesis by fastforce
qed

text \<open>C3. Resizing. \<open>tlsf_realloc\<close> of a used block to a positive size up to \<open>tlsf_limit\<close> runs into
  no failing assertion and keeps the heap well formed. Either it returns null and every used block
  stays, or the block is replaced by one at least as long as asked, the same one (grown in place or
  trimmed) or one that was not in use.\<close>
theorem tlsf_realloc_correct:
  assumes "tlsf_wf t" and "tlsf_used t b = Some s" and "0 < unat sz" and "unat sz \<le> tlsf_limit"
  shows "\<exists>q t'. tlsf_realloc t (b + 16) sz = Some (q, t') \<and> tlsf_wf t' \<and>
    (q = 0 \<and> tlsf_used t' = tlsf_used t \<or>
     (\<exists>c s'. q = c + 16 \<and> (c = b \<or> tlsf_used t c = None) \<and> unat sz \<le> s' \<and>
       tlsf_used t' = (tlsf_used t)(b := None, c \<mapsto> s')))"
  using assms by (rule tlsf_realloc_ok)

theorem tlsf_realloc_correct_witness:
  "\<exists>t p t1 q t2. tlsf_create_with_pool 65536 0x1000000 blank_memory = Some t \<and>
    tlsf_malloc t 100 = Some (p, t1) \<and> tlsf_realloc t1 p 5000 = Some (q, t2) \<and> tlsf_wf t2"
proof -
  obtain t b s t1 where t: "tlsf_create_with_pool 65536 0x1000000 blank_memory = Some t"
    "tlsf_malloc t 100 = Some (b + 16, t1)" "tlsf_wf t1" "tlsf_used t1 = [b \<mapsto> s]" by (rule start_block)
  with tlsf_realloc_correct [OF t(3), of b s 5000] show ?thesis by (fastforce simp: tlsf_limit_def)
qed



text \<open>Pools. \<open>tlsf_add_pool\<close> of a fresh area leaves the used blocks alone and makes the area one
  free block, but for the two headers at its ends.\<close>
theorem tlsf_add_pool_correct:
  assumes "tlsf_wf t" and "tlsf_pool_fresh t mem (unat bytes)"
  shows "\<exists>t'. tlsf_add_pool mem bytes t = Some (mem, t') \<and> tlsf_wf t' \<and> tlsf_used t' = tlsf_used t \<and>
    tlsf_free_blocks t' = (tlsf_free_blocks t)(mem - 8 \<mapsto> (unat bytes - 16) div 8 * 8)"
  using assms by (rule tlsf_add_pool_ok)

theorem tlsf_add_pool_correct_witness:
  "\<exists>t. tlsf_add_pool 131072 4096 (control_construct 65536 blank_memory) = Some (131072, t) \<and> tlsf_wf t \<and>
    tlsf_free_blocks t 131064 = Some 4080"
proof -
  have "tlsf_pool_fresh (control_construct 65536 blank_memory) 131072 (unat (4096 :: size_t))"
    by (simp add: tlsf_pool_fresh_def control_construct_def)
  from tlsf_add_pool_correct [OF control_construct_wf(1) this] show ?thesis by auto
qed

text \<open>Creation. \<open>tlsf_create_with_pool\<close> on an aligned, large enough area below 4 GiB yields a
  well-formed heap with no used block, whose single free block is what is left of the area after the
  control structure and the two headers.\<close>
theorem tlsf_create_correct:
  assumes "8 dvd mem" and "0 < mem" and "6576 \<le> unat bytes" and "mem + unat bytes \<le> 2 ^ 32"
  shows "\<exists>t. tlsf_create_with_pool mem bytes m = Some t \<and> tlsf_wf t \<and> tlsf_used t = Map.empty \<and>
    tlsf_free_blocks t = [mem + 6528 \<mapsto> (unat bytes - 6552) div 8 * 8]"
  using assms by (rule tlsf_create_with_pool_ok)

theorem tlsf_create_correct_witness:
  "\<exists>t. tlsf_create_with_pool 65536 0x1000000 blank_memory = Some t \<and> tlsf_wf t"
  using tlsf_create_correct [of 65536 "0x1000000" blank_memory] by auto

text \<open>C5. Size classes. Every size below 4 GiB falls in a class inside the bitmaps, the class is the
  one whose range holds the size, and the class a request is looked up in holds only blocks at least
  as long as the request: whatever block heads a list found by the search fits.\<close>
theorem size_class_correct:
  assumes "8 dvd unat s" and "24 \<le> unat s" and "unat s \<le> tlsf_limit"
    and "mapping_insert n = (fl, sl)" and "unat n < 2 ^ 32"
    and "mapping_search s = (fl', sl')" and "fl' < fl \<or> fl' = fl \<and> sl' \<le> sl"
  shows "fl < 25 \<and> sl < 32 \<and> fl' < 25 \<and> sl' < 32 \<and> unat s \<le> unat n"
proof -
  have "unat s < 2 ^ 32" using assms(3) by (simp add: tlsf_limit_def)
  note s = mapping_search_floor [OF assms(1,2) this assms(6)]
  note c = mapping_class [OF assms(4,5)]
  have "class_floor fl' sl' \<le> class_floor fl sl" using s assms(7) c by (intro class_floor_mono) simp_all
  then show ?thesis using s c(1-3) assms(3) by (auto simp: tlsf_limit_def)
qed

theorem size_class_correct_witness:
  "\<exists>fl sl fl' sl'. mapping_search 1000 = (fl', sl') \<and> mapping_insert 5000 = (fl, sl) \<and> fl' < fl \<and>
    fl < 25 \<and> sl' < 32"
proof -
  have a: "mapping_search 1000 = (2, 32 - 1)" "mapping_insert 5000 = (5, 7)" by code_simp+
  from size_class_correct [of 1000 5000 5 7 2 31] a show ?thesis
    by (auto simp: tlsf_limit_def)
qed

text \<open>The portable bit search (\<open>tlsf_fls_generic\<close>, five halving steps) gives the index the
  compiler's builtin gives, on every 32-bit word.\<close>
theorem tlsf_fls_portable: "tlsf_fls_fallback w = tlsf_fls w"
  by (rule tlsf_fls_generic_correct)

text \<open>The portable search for the lowest bit, by isolating it with \<open>word & (~word + 1)\<close>, gives the
  index the compiler's builtin gives, on every 32-bit word.\<close>
theorem tlsf_ffs_portable: "tlsf_ffs_fallback w = tlsf_ffs w"
  by (rule tlsf_ffs_fallback_correct)

text \<open>C6. The portable bit searches (five halving steps for the highest bit, isolating the lowest one with
  \<open>word & (~word + 1)\<close>) give on every word the index the compiler built-ins give.\<close>
theorem tlsf_searches_portable: "tlsf_fls_fallback w = tlsf_fls w \<and> tlsf_ffs_fallback w = tlsf_ffs w"
  by (simp add: tlsf_fls_portable tlsf_ffs_portable)

text \<open>The self-test of the searches that \<open>tlsf_create\<close> runs in a debug build never fails.\<close>

lemma test_ffs_fls_ok: "test_ffs_fls = 0"
  by code_simp

section \<open>The consistency checks\<close>

text \<open>C7. The checker. \<open>tlsf_check\<close> answers exactly on the heaps on which every size class is sound: an
  empty class has the null block as its head; a class with its bit set has its first-level bit set too
  and a list that ends, all of whose blocks are free, large enough, of this class and between used
  blocks. On any other heap an assertion fails or the walk never ends. Every well-formed heap passes,
  and so does the walk over each of its pools.\<close>
theorem tlsf_check_exact:
  "(tlsf_check t = Some s \<longleftrightarrow> s = 0 \<and> (\<forall>i<25. \<forall>j<32. class_sound t i j)) \<and>
   (tlsf_wf t \<longrightarrow> tlsf_check t = Some 0 \<and>
     (\<forall>b\<in>blks t. \<not> block_is_prev_free t b \<longrightarrow> tlsf_check_pool t (b + 8) = Some 0))"
  using tlsf_check_Some tlsf_check_wf tlsf_check_pool_wf by blast

definition damaged_heap :: control where
  "damaged_heap = (control_construct 65536 blank_memory)\<lparr>sl_bitmap := (replicate 25 0)[3 := 1]\<rparr>"

theorem tlsf_check_exact_witness:
  "tlsf_check damaged_heap \<noteq> Some 0 \<and> tlsf_check (control_construct 65536 blank_memory) = Some 0 \<and>
   (\<exists>t. tlsf_create_with_pool 65536 0x1000000 blank_memory = Some t \<and> tlsf_check t = Some 0)"
proof -
  have "\<not> class_sound damaged_heap 3 0"
    by (simp add: class_sound_def damaged_heap_def control_construct_def)
  moreover have "class_sound (control_construct 65536 blank_memory) i j" if "i < 25" "j < 32" for i j
    using that by (simp add: class_sound_def control_construct_def list_head_def)
  ultimately have "tlsf_check damaged_heap \<noteq> Some 0" "tlsf_check (control_construct 65536 blank_memory) = Some 0"
    using tlsf_check_exact [of damaged_heap 0] tlsf_check_exact [of "control_construct 65536 blank_memory" 0] by auto
  moreover obtain t where "tlsf_create_with_pool 65536 0x1000000 blank_memory = Some t" "tlsf_wf t" by (rule start_heap)
  moreover from this(2) have "tlsf_check t = Some 0" using tlsf_check_exact [of t 0] by blast
  ultimately show ?thesis by blast
qed

text \<open>C8. Requests within 64 MiB of 4 GiB. They are below \<open>block_size_max\<close>, so
  \<open>adjust_request_size\<close> lets them through, but the class they are looked up in is one past the end:
  \<open>search_suitable_block\<close> reads \<open>sl_bitmap[25]\<close>, outside the array, whatever the heap.\<close>
theorem malloc_out_of_bounds:
  assumes "tlsf_limit < unat sz" and "unat sz < 2 ^ 32"
  shows "tlsf_malloc t sz = None"
  using locate_out_of_bounds [OF adjust_large(1,2) [OF assms]] by (simp add: tlsf_malloc_def Let_def)

theorem malloc_out_of_bounds_witness: "tlsf_malloc (control_construct 65536 blank_memory) 0xFF000000 = None"
  using malloc_out_of_bounds [of "0xFF000000"] by (simp add: tlsf_limit_def)

text \<open>Resizing to 4 GiB or more. \<open>adjust_request_size\<close> answers 0 for such a request and
  \<open>tlsf_realloc\<close> takes the 0 for a size: a block of the minimum size, which cannot be split, is
  returned as it is, so the caller is told the request was granted.\<close>
theorem realloc_huge:
  assumes "\<not> block_is_free t b" and "block_size t b \<noteq> 0" and "block_size t b < 32"
    and "2 ^ 32 \<le> unat sz"
  shows "tlsf_realloc t (b + 16) sz = Some (b + 16, t)"
proof -
  have a: "adjust_request_size sz 8 = 0" using assms(4) by (simp add: adjust_request_size_zero)
  have nosplit: "\<not> 32 \<le> block_size t b" using assms(3) by simp
  have "sz \<noteq> 0" using assms(4) by auto
  then show ?thesis using assms(1,2) nosplit
    by (simp add: tlsf_realloc_def a Let_def block_from_ptr_def block_start_offset_def block_next_def
        block_is_last_def tlsf_assert_def block_trim_used_def block_can_split_def)
qed

definition small_used_heap :: control where
  "small_used_heap = (control_construct 65536 blank_memory)
     \<lparr>hdr_at := \<lambda>a. \<lparr>prev_phys_block = 0, size_field = 24, next_free = 0, prev_free = 0\<rparr>\<rparr>"

theorem realloc_huge_witness: "tlsf_realloc small_used_heap (131072 + 16) 0x200000000 = Some (131072 + 16, small_used_heap)"
proof -
  have f: "(24 :: size_t) AND 1 = 0" "(24 :: size_t) AND NOT 3 = 24" by code_simp+
  have "block_size small_used_heap 131072 = 24" "\<not> block_is_free small_used_heap 131072"
    using f by (simp_all add: block_size_def block_is_free_def small_used_heap_def block_header_bits_def
        block_header_free_bit_def block_header_prev_free_bit_def)
  then show ?thesis by (intro realloc_huge) simp_all
qed

end
