(* ===== verification/Pipe_Concurrency.thy ===== *)
theory Pipe_Concurrency
  imports Pipe "HOL-Library.Sublist"
begin

text \<open>
  One producer thread and one consumer thread share a pipe without a lock. The steps below are
  the calls on the ring buffer that \<open>tjost_pipe_produce\<close> and \<open>tjost_pipe_consume\<close> make, in
  any interleaving: the header and the payload of an event are written, and read, in two
  separate calls. \<open>sent\<close> and \<open>got\<close> record the history, \<open>failed\<close> records a return
  of -1 after a short write or a short read.
\<close>

record 'r pipe_sys =
  ring :: 'r
  p_pc :: "frame option"
  c_pc :: "tev_hdr option"
  sent :: "frame list"
  got :: "(tev_hdr \<times> byte list) list"
  failed :: bool

inductive pipe_step :: "'r ring_ops \<Rightarrow> 'r pipe_sys \<Rightarrow> 'r pipe_sys \<Rightarrow> bool" for J :: "'r ring_ops" where
  refuse: "p_pc s = None \<Longrightarrow>
    rb_write_space J (ring s) < size_add sizeof_event (length (f_buf (f :: frame))) \<Longrightarrow> pipe_step J s s"
| write_header: "p_pc s = None \<Longrightarrow> valid_frame f \<Longrightarrow>
    \<not> rb_write_space J (ring s) < size_add sizeof_event (length (f_buf f)) \<Longrightarrow>
    rb_write J (ring s) (event_image (f_stk f) (hdr f)) = (n, r) \<Longrightarrow>
    pipe_step J s (s\<lparr>ring := r, p_pc := Some f, sent := sent s @ [f],
                     failed := (failed s \<or> n \<noteq> sizeof_event)\<rparr>)"
| write_payload: "p_pc s = Some f \<Longrightarrow> rb_write J (ring s) (f_buf f) = (n, r) \<Longrightarrow>
    pipe_step J s (s\<lparr>ring := r, p_pc := None, failed := (failed s \<or> n \<noteq> length (f_buf f))\<rparr>)"
| read_header: "c_pc s = None \<Longrightarrow> rb_read_space J (ring s) \<ge> sizeof_event \<Longrightarrow>
    tev = image_event (rb_peek J (ring s) sizeof_event) \<Longrightarrow>
    rb_read_space J (ring s) \<ge> size_add sizeof_event (h_size tev) \<Longrightarrow>
    pipe_step J s (s\<lparr>ring := rb_read_advance J (ring s) sizeof_event, c_pc := Some tev\<rparr>)"
| spin: "c_pc s = None \<Longrightarrow> rb_read_space J (ring s) \<ge> sizeof_event \<Longrightarrow>
    tev = image_event (rb_peek J (ring s) sizeof_event) \<Longrightarrow>
    \<not> rb_read_space J (ring s) \<ge> size_add sizeof_event (h_size tev) \<Longrightarrow> pipe_step J s s"
| read_payload: "c_pc s = Some tev \<Longrightarrow> rb_read J (ring s) (h_size tev) = (bs, r) \<Longrightarrow>
    pipe_step J s (s\<lparr>ring := r, c_pc := None, got := got s @ [(tev, bs)],
                     failed := (failed s \<or> length bs \<noteq> h_size tev)\<rparr>)"

inductive_cases pipe_stepE: "pipe_step J s t"

definition pipe_start :: "'r \<Rightarrow> 'r pipe_sys" where
  "pipe_start r = \<lparr>ring = r, p_pc = None, c_pc = None, sent = [], got = [], failed = False\<rparr>"

inductive pipe_reachable :: "'r ring_ops \<Rightarrow> 'r \<Rightarrow> 'r pipe_sys \<Rightarrow> bool" for J :: "'r ring_ops" and r0 :: 'r where
  start: "pipe_reachable J r0 (pipe_start r0)"
| step: "pipe_reachable J r0 s \<Longrightarrow> pipe_step J s t \<Longrightarrow> pipe_reachable J r0 t"

definition arrived :: "frame \<Rightarrow> tev_hdr \<times> byte list" where
  "arrived f = (hdr f, f_buf f)"

definition missing :: "'r pipe_sys \<Rightarrow> byte list" where
  "missing s = (case p_pc s of None \<Rightarrow> [] | Some f \<Rightarrow> f_buf f)"

definition being_read :: "'r pipe_sys \<Rightarrow> frame list \<Rightarrow> bool" where
  "being_read s cur \<longleftrightarrow> (case c_pc s of None \<Rightarrow> cur = [] | Some tev \<Rightarrow> (\<exists>f. cur = [f] \<and> tev = hdr f))"

context jack_ringbuffer
begin

definition pipe_wit :: "'r pipe_sys \<Rightarrow> frame list \<Rightarrow> frame list \<Rightarrow> frame list \<Rightarrow> bool" where
  "pipe_wit s old cur pend \<longleftrightarrow> ok (ring s) \<and> \<not> failed s \<and> (\<forall>f\<in>set (sent s). valid_frame f) \<and>
     (\<forall>tev. c_pc s = Some tev \<longrightarrow> h_size tev \<le> length (contents (ring s))) \<and>
     length (missing s) \<le> cap (ring s) - length (contents (ring s)) \<and>
     sent s = old @ cur @ pend \<and> got s = map arrived old \<and> being_read s cur \<and>
     contents (ring s) @ missing s = concat (map f_buf cur) @ pipe_bytes pend"

definition pipe_inv :: "'r pipe_sys \<Rightarrow> bool" where
  "pipe_inv s \<longleftrightarrow> (\<exists>old cur pend. pipe_wit s old cur pend)"

lemma pipe_witD:
  assumes "pipe_wit s old cur pend"
  shows "ok (ring s)" and "\<not> failed s" and "\<forall>f\<in>set (sent s). valid_frame f"
    and "\<forall>tev. c_pc s = Some tev \<longrightarrow> h_size tev \<le> length (contents (ring s))"
    and "length (missing s) \<le> cap (ring s) - length (contents (ring s))"
    and "sent s = old @ cur @ pend" and "got s = map arrived old" and "being_read s cur"
    and "contents (ring s) @ missing s = concat (map f_buf cur) @ pipe_bytes pend"
  using assms unfolding pipe_wit_def by blast+

lemma head_frame:
  assumes c: "contents r @ m = pipe_bytes pend" and len: "sizeof_event \<le> length (contents r)"
    and v: "\<forall>f\<in>set pend. valid_frame f" and ok: "ok r"
  obtains f pend' where "pend = f # pend'" "image_event (rb_peek J r sizeof_event) = hdr f"
    "drop sizeof_event (contents r) @ m = f_buf f @ pipe_bytes pend'"
proof (cases pend)
  case Nil
  with c len show thesis by simp
next
  case (Cons f pend')
  with c have c': "contents r @ m = event_image (f_stk f) (hdr f) @ f_buf f @ pipe_bytes pend'"
    by simp
  have "take sizeof_event (contents r @ m) = event_image (f_stk f) (hdr f)"
    unfolding c' by simp
  with len have t: "take sizeof_event (contents r) = event_image (f_stk f) (hdr f)" by simp
  have "drop sizeof_event (contents r @ m) = f_buf f @ pipe_bytes pend'"
    unfolding c' by simp
  with len have d: "drop sizeof_event (contents r) @ m = f_buf f @ pipe_bytes pend'" by simp
  have "image_event (rb_peek J r sizeof_event) = hdr f"
    using t v Cons by (simp add: peek [OF ok] valid_frame_image)
  with Cons d that show thesis by blast
qed

lemma pipe_inv_start: "ok r \<Longrightarrow> contents r = [] \<Longrightarrow> pipe_inv (pipe_start r)"
  unfolding pipe_inv_def pipe_wit_def pipe_start_def missing_def being_read_def by simp

lemma inv_write_header:
  assumes inv: "pipe_inv s" and pc: "p_pc s = None" and v: "valid_frame f"
    and space: "\<not> rb_write_space J (ring s) < size_add sizeof_event (length (f_buf f))"
    and w: "rb_write J (ring s) (event_image (f_stk f) (hdr f)) = (n, r)"
  shows "pipe_inv (s\<lparr>ring := r, p_pc := Some f, sent := sent s @ [f],
                     failed := (failed s \<or> n \<noteq> sizeof_event)\<rparr>)"
proof -
  from inv obtain old cur pend where wit: "pipe_wit s old cur pend"
    unfolding pipe_inv_def by blast
  note i = pipe_witD [OF wit]
  from space v have sp: "sizeof_event + length (f_buf f) \<le> rb_write_space J (ring s)"
    by (simp add: valid_frame_size_add)
  then have r: "n = sizeof_event" "contents r = contents (ring s) @ event_image (f_stk f) (hdr f)"
    "ok r" "cap r = cap (ring s)"
    using write_fits [OF i(1), of "event_image (f_stk f) (hdr f)"] w by auto
  have "pipe_wit (s\<lparr>ring := r, p_pc := Some f, sent := sent s @ [f],
        failed := (failed s \<or> n \<noteq> sizeof_event)\<rparr>) old cur (pend @ [f])"
    unfolding pipe_wit_def using i r sp pc v write_space [OF i(1)]
    by (auto simp: missing_def being_read_def split: option.splits)
  then show ?thesis unfolding pipe_inv_def by blast
qed

lemma inv_write_payload:
  assumes inv: "pipe_inv s" and pc: "p_pc s = Some f"
    and w: "rb_write J (ring s) (f_buf f) = (n, r)"
  shows "pipe_inv (s\<lparr>ring := r, p_pc := None, failed := (failed s \<or> n \<noteq> length (f_buf f))\<rparr>)"
proof -
  from inv obtain old cur pend where wit: "pipe_wit s old cur pend"
    unfolding pipe_inv_def by blast
  note i = pipe_witD [OF wit]
  have "length (f_buf f) \<le> rb_write_space J (ring s)"
    using i pc by (simp add: missing_def write_space)
  then have r: "n = length (f_buf f)" "contents r = contents (ring s) @ f_buf f"
    "ok r" "cap r = cap (ring s)"
    using write_fits [OF i(1), of "f_buf f"] w by auto
  have "pipe_wit (s\<lparr>ring := r, p_pc := None, failed := (failed s \<or> n \<noteq> length (f_buf f))\<rparr>)
      old cur pend"
    unfolding pipe_wit_def using i r pc
    by (auto simp: missing_def being_read_def split: option.splits)
  then show ?thesis unfolding pipe_inv_def by blast
qed

lemma inv_read_header:
  assumes inv: "pipe_inv s" and pc: "c_pc s = None" and sp: "rb_read_space J (ring s) \<ge> sizeof_event"
    and tev: "tev = image_event (rb_peek J (ring s) sizeof_event)"
    and full: "rb_read_space J (ring s) \<ge> size_add sizeof_event (h_size tev)"
  shows "pipe_inv (s\<lparr>ring := rb_read_advance J (ring s) sizeof_event, c_pc := Some tev\<rparr>)"
proof -
  from inv obtain old cur pend where wit: "pipe_wit s old cur pend"
    unfolding pipe_inv_def by blast
  note i = pipe_witD [OF wit]
  have cur: "cur = []" using i pc by (simp add: being_read_def)
  have len: "sizeof_event \<le> length (contents (ring s))" using sp i by (simp add: read_space)
  obtain f pend' where f: "pend = f # pend'" "tev = hdr f"
    "drop sizeof_event (contents (ring s)) @ missing s = f_buf f @ pipe_bytes pend'"
    using head_frame [OF _ len _ i(1), of "missing s" pend] i cur tev by auto
  have r: "ok (rb_read_advance J (ring s) sizeof_event)"
    "cap (rb_read_advance J (ring s) sizeof_event) = cap (ring s)"
    "contents (rb_read_advance J (ring s) sizeof_event) = drop sizeof_event (contents (ring s))"
    using advance [OF i(1) len] by auto
  have "valid_frame f" using f i by simp
  then have "length (f_buf f) \<le> length (contents (ring s)) - sizeof_event"
    using full f i by (simp add: valid_frame_size_add read_space)
  with f r i cur have "pipe_wit (s\<lparr>ring := rb_read_advance J (ring s) sizeof_event, c_pc := Some tev\<rparr>)
      old [f] pend'"
    unfolding pipe_wit_def by (auto simp: missing_def being_read_def split: option.splits)
  then show ?thesis unfolding pipe_inv_def by blast
qed

lemma inv_read_payload:
  assumes inv: "pipe_inv s" and pc: "c_pc s = Some tev"
    and rd: "rb_read J (ring s) (h_size tev) = (bs, r)"
  shows "pipe_inv (s\<lparr>ring := r, c_pc := None, got := got s @ [(tev, bs)],
                     failed := (failed s \<or> length bs \<noteq> h_size tev)\<rparr>)"
proof -
  from inv obtain old cur pend where wit: "pipe_wit s old cur pend"
    unfolding pipe_inv_def by blast
  note i = pipe_witD [OF wit]
  from i pc obtain f where f: "cur = [f]" "tev = hdr f" by (auto simp: being_read_def)
  have len: "length (f_buf f) \<le> length (contents (ring s))" using i(4) [rule_format, OF pc] f by simp
  have c: "contents (ring s) @ missing s = f_buf f @ pipe_bytes pend" using i f by simp
  have "take (length (f_buf f)) (contents (ring s) @ missing s) = f_buf f"
    unfolding c by simp
  with len have t: "take (length (f_buf f)) (contents (ring s)) = f_buf f" by simp
  have "drop (length (f_buf f)) (contents (ring s) @ missing s) = pipe_bytes pend"
    unfolding c by simp
  with len have d: "drop (length (f_buf f)) (contents (ring s)) @ missing s = pipe_bytes pend" by simp
  have r: "bs = f_buf f" "ok r" "cap r = cap (ring s)"
    "contents r = drop (length (f_buf f)) (contents (ring s))"
    using read_bytes [OF i(1), of "h_size tev"] read_state [OF i(1), of "h_size tev"] rd f t by auto
  have "pipe_wit (s\<lparr>ring := r, c_pc := None, got := got s @ [(tev, bs)],
      failed := (failed s \<or> length bs \<noteq> h_size tev)\<rparr>) (old @ [f]) [] pend"
    unfolding pipe_wit_def using i f r d len
    by (auto simp: missing_def being_read_def arrived_def split: option.splits)
  then show ?thesis unfolding pipe_inv_def by blast
qed

lemma pipe_step_inv: "pipe_step J s t \<Longrightarrow> pipe_inv s \<Longrightarrow> pipe_inv t"
  by (erule pipe_stepE)
    (simp_all add: inv_write_header inv_write_payload inv_read_header inv_read_payload)

lemma pipe_reachable_inv:
  "pipe_reachable J r0 s \<Longrightarrow> ok r0 \<Longrightarrow> contents r0 = [] \<Longrightarrow> pipe_inv s"
  by (induction rule: pipe_reachable.induct) (auto intro: pipe_inv_start pipe_step_inv)

lemma inv_fifo: "pipe_inv s \<Longrightarrow> prefix (got s) (map arrived (sent s)) \<and> \<not> failed s"
  unfolding pipe_inv_def pipe_wit_def by (auto simp: prefix_def)

lemma inv_quiescent:
  assumes "pipe_inv s" "p_pc s = None" "c_pc s = None" "contents (ring s) = []"
  shows "got s = map arrived (sent s)"
proof -
  from assms(1) obtain old cur pend where wit: "pipe_wit s old cur pend"
    unfolding pipe_inv_def by blast
  note i = pipe_witD [OF wit]
  with assms have "cur = []" "pipe_bytes pend = []" by (auto simp: missing_def being_read_def)
  moreover from this have "pend = []" by (cases pend) (auto dest: arg_cong [where f = length])
  ultimately show ?thesis using i by simp
qed

lemma inv_no_stall:
  assumes inv: "pipe_inv s" and pc: "p_pc s = None" "c_pc s = None" and ne: "contents (ring s) \<noteq> []"
  shows "rb_read_space J (ring s) \<ge> sizeof_event \<and>
    rb_read_space J (ring s) \<ge>
      size_add sizeof_event (h_size (image_event (rb_peek J (ring s) sizeof_event)))"
proof -
  from inv obtain old cur pend where wit: "pipe_wit s old cur pend"
    unfolding pipe_inv_def by blast
  note i = pipe_witD [OF wit]
  with pc have c: "contents (ring s) = pipe_bytes pend" and cur: "cur = []"
    by (auto simp: missing_def being_read_def)
  with ne obtain f pend' where p: "pend = f # pend'" by (cases pend) auto
  with i cur have v: "valid_frame f" by simp
  have "rb_peek J (ring s) sizeof_event = event_image (f_stk f) (hdr f)"
    using c p by (simp add: peek [OF i(1)])
  then show ?thesis
    using c p v by (simp add: read_space [OF i(1)] valid_frame_image valid_frame_size_add)
qed

end

end
