(* ===== verification/Messages.thy ===== *)
theory Messages
  imports Host_Lemmas "HOL-Library.Sublist"
begin

text \<open>
  The message ring between the real-time thread and the event loop: \<open>tjost_host_message_push\<close> on
  one side, \<open>_msg\<close> with \<open>tjost_host_message_pull\<close> on the other, as a queue of whole messages.
\<close>

definition msg_frame :: "string \<Rightarrow> byte list" where
  "msg_frame s = enc_le 8 (length s + 1) @ bytes_of_string s @ [0]"

definition msg_bytes :: "string list \<Rightarrow> byte list" where
  "msg_bytes ss = concat (map msg_frame ss)"

text \<open>A text \<open>vsprintf\<close> can have written into the buffer: a C string that fits.\<close>

definition c_text :: "string \<Rightarrow> bool" where
  "c_text s \<longleftrightarrow> length s < 1024 \<and> CHR 0x00 \<notin> set s"

fun push_all :: "('t, 'r) env \<Rightarrow> ('t, 'r) host \<Rightarrow> string list \<Rightarrow> ('t, 'r) host option" where
  "push_all E h [] = Some h"
| "push_all E h (s # ss) = do { h1 \<leftarrow> tjost_host_message_push E h s; push_all E h1 ss }"

lemma length_msg_frame [simp]: "length (msg_frame s) = length s + 9"
  by (simp add: msg_frame_def)

lemma msg_bytes_simps [simp]:
  "msg_bytes [] = []" "msg_bytes (s # ss) = msg_frame s @ msg_bytes ss"
  "msg_bytes (ss @ ts) = msg_bytes ss @ msg_bytes ts"
  by (simp_all add: msg_bytes_def)

lemma text_until_nul:
  assumes "c_text s"
  shows "string_of_bytes (takeWhile (\<lambda>b. b \<noteq> 0) (bytes_of_string s @ [0])) = s"
proof -
  have "of_char c \<noteq> (0 :: byte)" if "c \<in> set s" for c
  proof
    assume "of_char c = (0 :: byte)"
    then have "(of_char c :: nat) = 0" using unat_of_char_byte [of c] by simp
    then have "(of_char c :: nat) = of_char (CHR 0x00)" by simp
    then have "c = CHR 0x00" by (simp only: of_char_eq_iff)
    with that assms show False by (simp add: c_text_def)
  qed
  then have "takeWhile (\<lambda>b. b \<noteq> 0) (bytes_of_string s @ [0]) = bytes_of_string s"
    by (subst takeWhile_append2) (auto simp: bytes_of_string_def)
  then show ?thesis by simp
qed

context tjost_env
begin

lemma push_message:
  assumes ok: "rok (rb_msg h)" and s: "c_text s"
  obtains h' where "tjost_host_message_push E h s = Some h'" "rok (rb_msg h')"
    "cap (rb_msg h') = cap (rb_msg h)"
    "contents (rb_msg h') = contents (rb_msg h) @
      (if length s + 9 \<le> cap (rb_msg h) - length (contents (rb_msg h)) then msg_frame s else [])"
proof -
  have len: "length s + 1 \<le> 1024" using s by (simp add: c_text_def)
  have sa: "size_add 8 (Suc (length s)) = length s + 9" using len by (simp add: size_add_def)
  let ?J = "ring_api E" and ?r = "rb_msg h" and ?hd = "enc_le 8 (length s + 1)"
  let ?r1 = "snd (rb_write ?J ?r ?hd)" and ?tx = "bytes_of_string s @ [0]"
  have ws: "rb_write_space ?J ?r = cap ?r - length (contents ?r)" using ok by (rule ring.write_space)
  show thesis
  proof (cases "rb_write_space ?J ?r < length s + 9")
    case True
    then have "tjost_host_message_push E h s = Some (h\<lparr>msg_sends := msg_sends h + 1\<rparr>)"
      using len by (simp add: tjost_host_message_push_def sa Let_def)
    then show thesis
      by (rule that [of "h\<lparr>msg_sends := msg_sends h + 1\<rparr>"]) (use True ok in \<open>simp_all add: ws\<close>)
  next
    case False
    then have w1: "rok ?r1" "cap ?r1 = cap ?r" "contents ?r1 = contents ?r @ ?hd"
      using ring.write_fits [OF ok, of ?hd] by auto
    have "length ?tx \<le> rb_write_space ?J ?r1"
      using False ring.write_space_after [OF ok, of ?hd] by simp
    note w2 = ring.write_fits [OF w1(1) this]
    have "tjost_host_message_push E h s =
        Some (h\<lparr>rb_msg := snd (rb_write ?J ?r1 ?tx), msg_sends := msg_sends h + 1\<rparr>)"
      using False len by (simp add: tjost_host_message_push_def sa Let_def)
    then show thesis
      by (rule that [of "h\<lparr>rb_msg := snd (rb_write ?J ?r1 ?tx), msg_sends := msg_sends h + 1\<rparr>"])
        (use False w1 w2 in \<open>simp_all add: ws msg_frame_def\<close>)
  qed
qed

lemma pull_message:
  assumes ok: "rok (rb_msg h)" and s: "c_text s" and c: "contents (rb_msg h) = msg_frame s @ rest"
  obtains h' where "tjost_host_message_pull E h = ((1, bytes_of_string s @ [0]), h')"
    "rok (rb_msg h')" "cap (rb_msg h') = cap (rb_msg h)" "contents (rb_msg h') = rest"
proof -
  let ?J = "ring_api E" and ?r = "rb_msg h"
  have len: "length s + 1 < 256 ^ 8" "size_add 8 (Suc (length s)) = length s + 9"
    using s by (simp_all add: c_text_def size_add_def)
  have pk: "dec_le (rb_peek ?J ?r 8) = length s + 1"
    using ring.peek [OF ok] c len(1) by (simp add: msg_frame_def)
  have sp: "rb_read_space ?J ?r = length s + 9 + length rest" using ring.read_space [OF ok] c by simp
  let ?r1 = "rb_read_advance ?J ?r 8"
  have r1: "rok ?r1" "cap ?r1 = cap ?r" "contents ?r1 = bytes_of_string s @ [0] @ rest"
    using ring.advance [OF ok, of 8] c by (auto simp: msg_frame_def)
  have r2: "fst (rb_read ?J ?r1 (length s + 1)) = bytes_of_string s @ [0]"
    using ring.read_bytes [OF r1(1), of "length s + 1"] r1(3) by simp
  have r3: "rok (snd (rb_read ?J ?r1 (length s + 1)))" "cap (snd (rb_read ?J ?r1 (length s + 1))) = cap ?r"
    "contents (snd (rb_read ?J ?r1 (length s + 1))) = rest"
    using ring.read_state [OF r1(1), of "length s + 1"] r1 by simp_all
  show thesis
    using that [of "h\<lparr>rb_msg := snd (rb_read ?J ?r1 (length s + 1))\<rparr>"] r3 r2
    by (simp add: tjost_host_message_pull_def Let_def pk sp len(2))
qed

lemma pull_empty: "rok (rb_msg h) \<Longrightarrow> contents (rb_msg h) = [] \<Longrightarrow> tjost_host_message_pull E h = ((0, []), h)"
  by (simp add: tjost_host_message_pull_def ring.read_space Let_def)

lemma handler_prints:
  "rok (rb_msg h) \<Longrightarrow> \<forall>s\<in>set ss. c_text s \<Longrightarrow> contents (rb_msg h) = msg_bytes ss \<Longrightarrow>
   \<exists>h'. msg_handler E h out = Some (out @ map (\<lambda>s. ''MESSAGE: '' @ s) ss, h') \<and> contents (rb_msg h') = []"
proof (induction ss arbitrary: h out)
  case Nil
  then show ?case by (simp add: msg_handler.simps [of E h] pull_empty)
next
  case (Cons s ss)
  have "c_text s" "contents (rb_msg h) = msg_frame s @ msg_bytes ss" using Cons.prems by simp_all
  from pull_message [OF Cons.prems(1) this] obtain h1 where
    p: "tjost_host_message_pull E h = ((1, bytes_of_string s @ [0]), h1)"
      "rok (rb_msg h1)" "contents (rb_msg h1) = msg_bytes ss" by blast
  show ?case
    using p Cons.IH [OF p(2), of "out @ [''MESSAGE: '' @ s]"] Cons.prems(2) text_until_nul [of s]
    by (simp add: msg_handler.simps [of E h])
qed

text \<open>A message is queued whole or dropped whole.\<close>

lemma push_all_keeps:
  "rok (rb_msg h) \<Longrightarrow> \<forall>s\<in>set ss. c_text s \<Longrightarrow> contents (rb_msg h) = msg_bytes old \<Longrightarrow>
   \<exists>h' kept. push_all E h ss = Some h' \<and> rok (rb_msg h') \<and> contents (rb_msg h') = msg_bytes (old @ kept) \<and>
     subseq kept ss \<and>
     (length (msg_bytes (old @ ss)) \<le> cap (rb_msg h) \<longrightarrow> kept = ss)"
proof (induction ss arbitrary: h old)
  case Nil
  then show ?case by (intro exI [of _ h] exI [of _ "[]"]) simp
next
  case (Cons s ss)
  from Cons.prems obtain h1 where p: "tjost_host_message_push E h s = Some h1" "rok (rb_msg h1)"
    "cap (rb_msg h1) = cap (rb_msg h)"
    "contents (rb_msg h1) = msg_bytes old @
      (if length s + 9 \<le> cap (rb_msg h) - length (msg_bytes old) then msg_frame s else [])"
    using push_message [of h s] by auto
  show ?case
  proof (cases "length s + 9 \<le> cap (rb_msg h) - length (msg_bytes old)")
    case True
    with p have "contents (rb_msg h1) = msg_bytes (old @ [s])" by simp
    from Cons.IH [OF p(2) _ this] Cons.prems(2) obtain h' kept where
      k: "push_all E h1 ss = Some h'" "rok (rb_msg h')" "contents (rb_msg h') = msg_bytes ((old @ [s]) @ kept)"
        "subseq kept ss" "length (msg_bytes ((old @ [s]) @ ss)) \<le> cap (rb_msg h) \<longrightarrow> kept = ss"
      unfolding p(3) by auto
    show ?thesis by (intro exI [of _ h'] exI [of _ "s # kept"]) (use k p(1) in simp)
  next
    case False
    with p have "contents (rb_msg h1) = msg_bytes old" by simp
    from Cons.IH [OF p(2) _ this] Cons.prems(2) obtain h' kept where
      k: "push_all E h1 ss = Some h'" "rok (rb_msg h')" "contents (rb_msg h') = msg_bytes (old @ kept)"
        "subseq kept ss"
      by auto
    from False have "\<not> length (msg_bytes (old @ s # ss)) \<le> cap (rb_msg h)" by simp
    with k p(1) show ?thesis by (intro exI [of _ h'] exI [of _ kept]) (auto intro: list_emb.intros)
  qed
qed

end

end
