(* ===== verification/Reference_Env.thy ===== *)
theory Reference_Env
  imports Process
begin

text \<open>
  An environment that satisfies every contract at once and computes: the circular byte array for
  JACK's ring buffers, insertion behind all not greater elements for Eina's sorted list, and an
  allocator that hands out fresh addresses from a bounded budget. The witnesses of the
  properties run the model in this environment; the allocator of the repository, TLSF, has its
  own model.
\<close>

section \<open>A bounded allocator\<close>

record region =
  g_next :: nat
  g_room :: nat
  g_blocks :: "(nat \<times> nat) list"

definition region_live :: "region \<Rightarrow> addr \<rightharpoonup> nat" where
  "region_live g = map_of (g_blocks g)"

definition region_ok :: "region \<Rightarrow> bool" where
  "region_ok g \<longleftrightarrow> 0 < g_next g \<and> (\<forall>(a, s)\<in>set (g_blocks g). a < g_next g)"

definition region_malloc :: "region \<Rightarrow> nat \<Rightarrow> addr option \<times> region" where
  "region_malloc g n =
     (if n = 0 \<or> g_room g < n then (None, g)
      else (Some (g_next g), g\<lparr>g_next := g_next g + n, g_room := g_room g - n,
              g_blocks := (g_next g, n) # g_blocks g\<rparr>))"

definition region_free :: "region \<Rightarrow> addr option \<Rightarrow> region" where
  "region_free g p =
     (case p of None \<Rightarrow> g
      | Some a \<Rightarrow> g\<lparr>g_blocks := filter (\<lambda>b. fst b \<noteq> a) (g_blocks g)\<rparr>)"

definition region_realloc :: "region \<Rightarrow> addr option \<Rightarrow> nat \<Rightarrow> addr option \<times> region" where
  "region_realloc g p n =
     (if n = 0 then (None, region_free g p)
      else case region_malloc g n of (None, g1) \<Rightarrow> (None, g1)
           | (Some b, g1) \<Rightarrow> (Some b, region_free g1 p))"

definition region_ops :: "region tlsf_ops" where
  "region_ops = \<lparr>
     ta_malloc = region_malloc, ta_realloc = region_realloc, ta_free = region_free,
     ta_block_size = (\<lambda>g p. case p of None \<Rightarrow> 0
       | Some a \<Rightarrow> (case map_of (g_blocks g) a of None \<Rightarrow> 0 | Some s \<Rightarrow> s)),
     ta_add_pool = (\<lambda>g area n. (Some area, g\<lparr>g_room := g_room g + n\<rparr>)),
     ta_remove_pool = (\<lambda>g p. g)\<rparr>"

lemma map_of_filter_key: "map_of (filter (\<lambda>b. fst b \<noteq> a) bs) = (map_of bs)(a := None)"
  by (induction bs) auto

lemma region_fresh: "region_ok g \<Longrightarrow> map_of (g_blocks g) (g_next g) = None"
  by (auto simp: region_ok_def map_of_eq_None_iff)

lemma region_malloc_ok: "region_ok g \<Longrightarrow> region_malloc g n = (p, g') \<Longrightarrow> region_ok g'"
  by (fastforce simp: region_malloc_def region_ok_def split: if_splits)

lemma region_free_ok: "region_ok g \<Longrightarrow> region_ok (region_free g p)"
  by (auto simp: region_free_def region_ok_def split: option.splits)

lemma region_malloc_live:
  "region_malloc g n = (Some a, g') \<Longrightarrow>
   a = g_next g \<and> region_live g' = (region_live g)(a \<mapsto> n)"
  by (auto simp: region_malloc_def region_live_def split: if_splits)

lemma region_free_live: "region_live (region_free g (Some a)) = (region_live g)(a := None)"
  by (simp add: region_free_def region_live_def map_of_filter_key)

interpretation region: rt_pool_allocator region_ops region_live region_ok "\<lambda>g area n. True"
proof unfold_locales
  show "finite (dom (region_live g))" for g by (simp add: region_live_def finite_dom_map_of)
  show "region_ok g' \<and> region_live g' = region_live g"
    if "region_ok g" "ta_malloc region_ops g n = (None, g')" for g n g'
    using that by (auto simp: region_ops_def region_malloc_def split: if_splits)
  show "region_ok g' \<and> a \<noteq> 0 \<and> region_live g a = None \<and> (\<exists>s\<ge>n. region_live g' = (region_live g)(a \<mapsto> s))"
    if "region_ok g" "ta_malloc region_ops g n = (Some a, g')" for g n a g'
    using that region_malloc_ok [of g n "Some a" g'] region_malloc_live [of g n a g'] region_fresh [of g]
    by (auto simp: region_ops_def region_live_def region_ok_def)
  show "region_ok g' \<and> region_live g' = (if n = 0 then (region_live g)(a := None) else region_live g)"
    if "region_ok g" "ta_realloc region_ops g (Some a) n = (None, g')" for g a n g'
    using that region_free_ok [of g "Some a"] region_free_live [of g a]
    by (auto simp: region_ops_def region_realloc_def region_malloc_def split: if_splits)
  show "region_ok g' \<and> b \<noteq> 0 \<and> (b = a \<or> region_live g b = None) \<and>
      (\<exists>s'\<ge>n. region_live g' = (region_live g)(a := None, b \<mapsto> s'))"
    if r: "region_ok g" "region_live g a = Some s" "ta_realloc region_ops g (Some a) n = (Some b, g')"
    for g a s n b g'
  proof -
    from r(3) obtain g1 where m: "region_malloc g n = (Some b, g1)" and g': "g' = region_free g1 (Some a)"
      by (auto simp: region_ops_def region_realloc_def split: if_splits prod.splits option.splits)
    note l = region_malloc_live [OF m]
    have ba: "b \<noteq> a" "region_live g b = None"
      using r(1,2) l region_fresh [OF r(1)] by (auto simp: region_live_def)
    have "region_live g' = (region_live g)(a := None, b \<mapsto> n)"
      using l ba by (auto simp: g' region_free_live)
    with ba l region_free_ok [OF region_malloc_ok [OF r(1) m]] r(1) g' show ?thesis
      by (auto simp: region_ok_def)
  qed
  show "region_ok (ta_free region_ops g (Some a)) \<and>
      region_live (ta_free region_ops g (Some a)) = (region_live g)(a := None)"
    if "region_ok g" for g a
    using that by (simp add: region_ops_def region_free_ok region_free_live)
  show "ta_block_size region_ops g (Some a) = s" if "region_live g a = Some s" for g a s
    using that by (simp add: region_ops_def region_live_def)
  show "ta_block_size region_ops g None = 0" for g by (simp add: region_ops_def)
  show "region_ok g' \<and> region_live g' = region_live g"
    if "region_ok g" "ta_add_pool region_ops g area n = (p, g')" for g area n p g'
    using that by (auto simp: region_ops_def region_ok_def region_live_def)
qed

section \<open>Sorted insertion\<close>

definition insert_by :: "'a list \<Rightarrow> 'a \<Rightarrow> ('a \<Rightarrow> 'a \<Rightarrow> int) \<Rightarrow> 'a list" where
  "insert_by xs x cmp = takeWhile (\<lambda>y. cmp y x \<le> 0) xs @ x # dropWhile (\<lambda>y. cmp y x \<le> 0) xs"

interpretation insert_by: eina_sorted_list insert_by
proof
  fix cmp :: "'a \<Rightarrow> 'a \<Rightarrow> int" and xs x
  assume c: "cmp_preorder cmp" and s: "sorted_wrt (\<lambda>x y. cmp x y \<le> 0) xs"
  let ?P = "\<lambda>y. cmp y x \<le> 0"
  have "\<forall>z\<in>set (dropWhile ?P xs). 0 \<le> cmp z x"
  proof (cases "dropWhile ?P xs")
    case Nil
    then show ?thesis by (simp only: Nil list.set ball_empty)
  next
    case (Cons d ds)
    then have d: "\<not> ?P d" by (metis dropWhile_eq_Cons_conv)
    have "sorted_wrt (\<lambda>x y. cmp x y \<le> 0) (takeWhile ?P xs @ dropWhile ?P xs)"
      using s by (simp only: takeWhile_dropWhile_id)
    then have "sorted_wrt (\<lambda>x y. cmp x y \<le> 0) (d # ds)"
      unfolding sorted_wrt_append Cons by blast
    then have "\<forall>z\<in>set ds. cmp d z \<le> 0" by simp
    with c d have "\<forall>z\<in>set ds. \<not> cmp z x \<le> 0" unfolding cmp_preorder_def by blast
    with Cons d show ?thesis by auto
  qed
  then show "\<exists>ys zs. xs = ys @ zs \<and> insert_by xs x cmp = ys @ x # zs \<and>
      (\<forall>y\<in>set ys. cmp y x \<le> 0) \<and> (\<forall>z\<in>set zs. 0 \<le> cmp z x)"
    by (intro exI [of _ "takeWhile ?P xs"] exI [of _ "dropWhile ?P xs"])
      (auto simp: insert_by_def dest: set_takeWhileD)
qed

section \<open>The environment\<close>

definition ref_env :: "(region, circ) env" where
  "ref_env = \<lparr>ring_api = circ_ops, tlsf_api = region_ops, eina_inlist_sorted_insert = insert_by,
     uv_async_send = (\<lambda>n. 0), junk = []\<rparr>"

lemma ref_env_simps [simp]:
  "ring_api ref_env = circ_ops" "tlsf_api ref_env = region_ops"
  "eina_inlist_sorted_insert ref_env = insert_by" "uv_async_send ref_env n = 0" "junk ref_env = []"
  by (simp_all add: ref_env_def)

interpretation ref: tjost_env ref_env circ_contents circ_cap circ_ok region_live region_ok
proof (intro tjost_env.intro)
  show "jack_ringbuffer (ring_api ref_env) circ_contents circ_cap circ_ok"
    using circ.jack_ringbuffer_axioms by simp
  show "rt_allocator (tlsf_api ref_env) region_live region_ok"
    using region.rt_allocator_axioms by simp
  show "eina_sorted_list (eina_inlist_sorted_insert ref_env)"
    using insert_by.eina_sorted_list_axioms by simp
qed

end
