(* ===== verification/Loopback.thy ===== *)
theory Loopback
  imports Process Reference_Env Tlsf_Provider
begin

text \<open>
  The module \<open>mod_loopback.c\<close>, and the host at work: its environment with the repository's
  allocator, and the callback run with the modules that keep no data of their own (\<open>loopback\<close>,
  \<open>uplink\<close>) and a Lua responder that only sends messages. Both are interpretations of the
  contracts the callback is proved under.
\<close>

section \<open>The loopback module\<close>

definition loopback_body ::
  "('t, 'r) env \<Rightarrow> nframes \<Rightarrow> addr \<Rightarrow> event \<Rightarrow> unit \<times> ('t, 'r) host \<Rightarrow> (unit \<times> ('t, 'r) host) option" where
  "loopback_body E nframes m tev S =
     do { h \<leftarrow> tjost_host_schedule E (snd S) (Some m) (ev_time tev + nframes) (ev_buf tev); Some ((), h) }"

definition loopback_process_out ::
  "('t, 'r) env \<Rightarrow> nframes \<Rightarrow> addr \<Rightarrow> ('t, 'r) host \<Rightarrow> (int \<times> ('t, 'r) host) option" where
  "loopback_process_out E nframes m h =
     do { (u, h1) \<leftarrow> drain E ''loopback'' (last_frame h + nframes) (last_frame h) nframes (Some m)
            (loopback_body E nframes m) (m_queue (module_at h m)) ((), h);
          Some (0, h1) }"

definition loopback_add :: "tjmod \<Rightarrow> int \<times> tjmod" where
  "loopback_add M = (0, M\<lparr>m_type := TJOST_MODULE_OUTPUT\<rparr>)"

section \<open>What an output module keeps\<close>

lemma drain_config:
  assumes b: "\<And>e s h s' h'. body e (s, h) = Some (s', h') \<Longrightarrow> config h' = config h"
  shows "drain E name late_to last_t n i body q (s, h) = Some (s', h') \<Longrightarrow> config h' = config h"
proof (induction q arbitrary: s h)
  case (Cons e q)
  show ?case
  proof (cases "ev_time e \<ge> last_t + n")
    case False
    with Cons.prems obtain e1 h1 s2 h2 where st: "stamp E name late_to last_t e h = Some (e1, h1)"
      and b': "body e1 (s, h1) = Some (s2, h2)"
      and r: "drain E name late_to last_t n i body q
        (s2, tjost_free E (dequeue i (ev_addr e) h2) (Some (ev_addr e))) = Some (s', h')"
      by (auto split: Option.bind_splits)
    have "config (tjost_free E (dequeue i (ev_addr e) h2) (Some (ev_addr e))) = config h2"
      by (simp add: config_mem_frame [OF tjost_free_frame])
    then show ?thesis
      using Cons.IH [OF r] b [OF b'] config_mem_frame [OF stamp_frame(2) [OF st]] by simp
  qed (use Cons.prems in simp)
qed simp

context tjost_env
begin

lemma loopback_handler:
  "event_handler E contents cap rok live aok (Some m) (loopback_body E n m) (\<lambda>e s. s)"
proof unfold_locales
  show "host_ok h' \<and> (used_inv h \<longrightarrow> used_inv h') \<and> queue_of h' (Some m) = queue_of h (Some m) \<and> s' = s"
    if "host_ok h" "loopback_body E n m e (s, h) = Some (s', h')" for h :: "('t, 'r) host" and e s s' h'
  proof -
    from that(2) have p: "tjost_host_schedule E h (Some m) (ev_time e + n) (ev_buf e) = Some h'"
      by (auto simp: loopback_body_def split: Option.bind_splits)
    from host_schedule_spec [OF that(1) p] show ?thesis by (metis fun_upd_other old.unit.exhaust option.distinct(1))
  qed
qed

end

lemma alloc_frame:
  assumes "tjost_alloc E h n = Some (p, h')"
  shows "mem_frame h h'"
proof -
  obtain d t where m: "ta_malloc (tlsf_api E) (tlsf h) n = (d, t)" by fastforce
  obtain h1 where h1: "(if d = None then tjost_host_message_push E (h\<lparr>tlsf := t\<rparr>) ''tjost_alloc: out of memory''
      else Some (h\<lparr>tlsf := t\<rparr>)) = Some h1"
    and h': "h' = request_more (h1\<lparr>used := used h1 + of_nat (ta_block_size (tlsf_api E) (tlsf h1) d)\<rparr>)"
    using assms m by (auto simp: tjost_alloc_def split: Option.bind_splits)
  have "mem_frame h (h\<lparr>tlsf := t\<rparr>)" by (simp add: mem_frame_def)
  then have "mem_frame h h1"
    using h1 message_push_frame(1) [of E "h\<lparr>tlsf := t\<rparr>" _ h1] mem_frame_trans by (auto split: if_splits)
  moreover have "mem_frame h1 h'" by (auto simp: h' mem_frame_def request_more_def)
  ultimately show ?thesis by (rule mem_frame_trans)
qed

lemma schedule_frame:
  "tjost_host_schedule E h m t buf = Some h' \<Longrightarrow> queue_frame h h'"
  "tjost_host_schedule_inline E h m t len = Some (a, h') \<Longrightarrow> queue_frame h h'"
  by (auto simp: tjost_host_schedule_def tjost_host_schedule_inline_def split: Option.bind_splits
      intro: queue_frame_trans [OF queue_frame_mem [OF alloc_frame] queue_frame_queue])

lemma module_schedule_frame: "tjost_module_schedule E h m t buf = Some h' \<Longrightarrow> queue_frame h h'"
  by (auto simp: tjost_module_schedule_def split: Option.bind_splits
      intro: queue_frame_trans [OF queue_frame_mem [OF alloc_frame] queue_frame_module])

section \<open>The callback with its data-free modules\<close>

datatype plugin = Loopback | Uplink

definition plugin_out ::
  "('t, 'r) env \<Rightarrow> plugin \<Rightarrow> nframes \<Rightarrow> addr \<Rightarrow> ('t, 'r) host \<Rightarrow> ('t, 'r) host option" where
  "plugin_out E k n m h =
     (case k of Loopback \<Rightarrow> map_option snd (loopback_process_out E n m h)
      | Uplink \<Rightarrow> map_option snd (uplink_process_out E n m h))"

text \<open>
  \<open>kind\<close> says which module an instance is (\<open>eina_module_symbol_get\<close> in \<open>_plugin\<close>); neither has a
  \<open>process_in\<close>. The responder \<open>resp\<close> calls the outputs it is given, each of which ends in
  \<open>tjost_module_schedule\<close>.
\<close>

fun respond :: "('t, 'r) env \<Rightarrow> delivery list \<Rightarrow> ('t, 'r) host \<Rightarrow> ('t, 'r) host option" where
  "respond E [] h = Some h"
| "respond E ((m, t, buf) # ds) h = do { h1 \<leftarrow> tjost_module_schedule E h m t buf; respond E ds h1 }"

definition core_callbacks ::
  "('t, 'r) env \<Rightarrow> (addr \<Rightarrow> plugin) \<Rightarrow> (addr \<Rightarrow> nframes \<Rightarrow> byte list \<Rightarrow> delivery list) \<Rightarrow> ('t, 'r) callbacks" where
  "core_callbacks E kind resp = \<lparr>
     process_in = (\<lambda>n m h. None),
     process_out = (\<lambda>n m. plugin_out E (kind m) n m),
     tjost_lua_deserialize = (\<lambda>e. respond E (resp (the (ev_module e)) (ev_time e) (ev_buf e))),
     lua_gc = Some\<rparr>"

context tjost_env
begin

lemma output_preserves:
  assumes eh: "event_handler E contents cap rok live aok (Some m) body act"
    and b: "\<And>e s h s' h'. body e (s, h) = Some (s', h') \<Longrightarrow> config h' = config h"
    and ok: "host_ok h"
    and d: "drain E name late_to last_t n (Some m) body (m_queue (module_at h m)) (s, h) = Some (s', h')"
  shows "preserves rok live aok h h'"
  using event_handler.drain_partition(1,2) [OF eh ok, of name late_to last_t n s s' h'] d
    drain_config [OF b d] by (simp add: preserves_def)

lemma plugin_out_preserves:
  assumes ok: "host_ok h" and r: "plugin_out E k n m h = Some h'"
  shows "preserves rok live aok h h'"
proof (cases k)
  case Loopback
  then obtain u where d: "drain E ''loopback'' (last_frame h + n) (last_frame h) n (Some m)
      (loopback_body E n m) (m_queue (module_at h m)) ((), h) = Some (u, h')"
    using r by (auto simp: plugin_out_def loopback_process_out_def split: Option.bind_splits)
  have "config h' = config h" if "loopback_body E n m e (s, h) = Some (s', h')" for e s s' and h h' :: "('t, 'r) host"
    using that by (auto simp: loopback_body_def split: Option.bind_splits
        intro: config_queue_frame schedule_frame)
  from output_preserves [OF loopback_handler this ok d] show ?thesis .
next
  case Uplink
  then obtain u where d: "drain E ''uplink'' (last_frame h) (last_frame h) n (Some m)
      (uplink_body E m) (m_queue (module_at h m)) ((), h) = Some (u, h')"
    using r by (auto simp: plugin_out_def uplink_process_out_def split: Option.bind_splits)
  have "config h' = config h" if "uplink_body E m e (s, h) = Some (s', h')" for e s s' and h h' :: "('t, 'r) host"
    using that by (auto simp: uplink_body_def tjost_uplink_tx_push_def Let_def
        split: Option.bind_splits if_splits prod.splits dest!: message_push_frame(1) config_mem_frame)
  from output_preserves [OF uplink_handler this ok d] show ?thesis .
qed

end

context tjost_env
begin

lemma respond_delivers:
  "host_ok h \<Longrightarrow> respond E ds h = Some h' \<Longrightarrow>
   preserves rok live aok h h' \<and> queue h' = queue h \<and> view h' = fold deliver ds (view h)"
proof (induction ds arbitrary: h)
  case Nil
  then show ?case by (simp add: preserves_def)
next
  case (Cons d ds)
  obtain m t buf where d: "d = (m, t, buf)" by (cases d)
  with Cons.prems obtain h1 where h1: "tjost_module_schedule E h m t buf = Some h1" "respond E ds h1 = Some h'"
    by (auto split: Option.bind_splits)
  note s = schedule_delivers [OF Cons.prems(1) h1(1)]
  then have "host_ok h1" by (simp add: preserves_def)
  from Cons.IH [OF this h1(2)] s show ?case by (auto simp: preserves_def d)
qed

lemma core_contract:
  assumes "rt_pool_allocator (tlsf_api E) live aok pool_ok"
  shows "process_contract E contents cap rok live aok pool_ok (core_callbacks E kind resp) resp"
proof (intro process_contract.intro process_contract_axioms.intro)
  let ?C = "core_callbacks E kind resp"
  show "tjost_env E contents cap rok live aok" by (rule tjost_env_axioms)
  show "rt_pool_allocator (tlsf_api E) live aok pool_ok" by (rule assms)
  show "host_ok h' \<and> (used_inv h \<longrightarrow> used_inv h') \<and> config h' = config h"
    if "host_ok h" "process_in ?C n m h = Some h'" for h n m h'
    using that by (simp add: core_callbacks_def)
  show "host_ok h' \<and> (used_inv h \<longrightarrow> used_inv h') \<and> config h' = config h"
    if "host_ok h" "process_out ?C n m h = Some h'" for h n m h'
    using plugin_out_preserves [OF that(1), of "kind m" n m h'] that(2)
    by (simp add: core_callbacks_def preserves_def)
  show "host_ok h' \<and> (used_inv h \<longrightarrow> used_inv h') \<and> config h' = config h \<and>
      queue h' = queue h \<and> view h' = fold deliver (resp m (ev_time e) (ev_buf e)) (view h)"
    if "host_ok h" "ev_module e = Some m" "tjost_lua_deserialize ?C e h = Some h'" for h e m h'
    using respond_delivers [OF that(1), of "resp m (ev_time e) (ev_buf e)" h'] that(2,3)
    by (simp add: core_callbacks_def preserves_def)
  show "host_ok h' \<and> (used_inv h \<longrightarrow> used_inv h') \<and> config h' = config h"
    if "host_ok h" "lua_gc ?C h = Some h'" for h h'
    using that by (simp add: core_callbacks_def)
qed

end

section \<open>The host on TLSF\<close>

definition tlsf_env :: "(control, circ) env" where
  "tlsf_env = \<lparr>ring_api = circ_ops, tlsf_api = tlsf_host_ops, eina_inlist_sorted_insert = insert_by,
     uv_async_send = (\<lambda>n. 0), junk = []\<rparr>"

lemma tlsf_env_simps [simp]: "ring_api tlsf_env = circ_ops" "tlsf_api tlsf_env = tlsf_host_ops"
  "eina_inlist_sorted_insert tlsf_env = insert_by"
  by (simp_all add: tlsf_env_def)

interpretation core: process_contract tlsf_env circ_contents circ_cap circ_ok tlsf_live tlsf_wf
  tlsf_pool_fresh "core_callbacks tlsf_env kind resp" resp for kind resp
proof -
  have "tjost_env tlsf_env circ_contents circ_cap circ_ok tlsf_live tlsf_wf"
  proof (intro tjost_env.intro)
    show "jack_ringbuffer (ring_api tlsf_env) circ_contents circ_cap circ_ok"
      using circ.jack_ringbuffer_axioms by simp
    show "rt_allocator (tlsf_api tlsf_env) tlsf_live tlsf_wf"
      using tlsf.rt_allocator_axioms by simp
    show "eina_sorted_list (eina_inlist_sorted_insert tlsf_env)"
      using insert_by.eina_sorted_list_axioms by simp
  qed
  then show "process_contract tlsf_env circ_contents circ_cap circ_ok tlsf_live tlsf_wf
      tlsf_pool_fresh (core_callbacks tlsf_env kind resp) resp"
    by (rule tjost_env.core_contract) (use tlsf.rt_pool_allocator_axioms in simp)
qed

interpretation ref_core: process_contract ref_env circ_contents circ_cap circ_ok region_live region_ok
  "\<lambda>g area n. True" "core_callbacks ref_env kind resp" resp for kind resp
  by (rule ref.core_contract) (use region.rt_pool_allocator_axioms in simp)

end
