(* ===== verification/Runtime_Properties.thy ===== *)
theory Runtime_Properties
  imports Pipe_Concurrency Messages Loopback
begin

text \<open>
  The properties of the real-time side: the pipes, the message ring, memory and its accounting,
  the event queues, the main loop and the whole callback. Each holds in every environment that
  keeps the contracts; the witnesses run the model in \<open>ref_env\<close>.
\<close>

section \<open>Concrete states for the witnesses\<close>

definition circ_with :: "byte list \<Rightarrow> nat \<Rightarrow> circ" where
  "circ_with bs n = \<lparr>c_buf = bs @ replicate (Suc n) 0, c_rp = 0, c_wp = length bs\<rparr>"

lemma circ_with_simps [simp]:
  "circ_ok (circ_with bs n)" "circ_contents (circ_with bs n) = bs" "circ_cap (circ_with bs n) = length bs + n"
  by (simp_all add: circ_with_def circ_ok_def circ_contents_def circ_cap_def)

definition frame1 :: frame where
  "frame1 = \<lparr>f_stk = [], f_module = Some 4096, f_time = 77, f_buf = [47, 97, 0, 0, 44, 0, 0, 0]\<rparr>"

lemma frame1_simps [simp]: "valid_frame frame1" "length (f_buf frame1) = 8"
  by (simp_all add: frame1_def valid_frame_def valid_ptr_def)

definition mod0 :: tjmod where
  "mod0 = \<lparr>m_type = TJOST_MODULE_OUTPUT, m_queue = [], m_children = [], has_lua_callback = False,
     m_buffer = [], m_buf_ptr = None, m_itm = None, m_bndls = []\<rparr>"

definition host0 :: "(region, circ) host" where
  "host0 = \<lparr>tlsf = \<lparr>g_next = 1, g_room = 1000, g_blocks = []\<rparr>, used = 0, rtmem_sum = 1000,
     rtmem_flag = 0, rtmem_sends = 0, rtmem_chunks = [],
     chunk_at = (\<lambda>a. \<lparr>ch_size = 0, ch_area = 0, ch_pool = None\<rparr>),
     rb_rtmem = circ_with [] 64, rb_msg = circ_with [] 200, msg_sends = 0, queue = [],
     modules = [8], uplinks = [],
     module_at = (\<lambda>m. if m = 9 then mod0\<lparr>m_children := [(1, 8)]\<rparr> else mod0),
     pipe_uplink_tx_count = 0, pipe_uplink_tx = circ_with [] 200, pipe_uplink_rx = circ_with [] 200,
     tx_flushes = 0, last_frame = 100\<rparr>"

lemma queue_of_host0: "queue_of host0 i = []"
  by (simp add: queue_of_def host0_def mod0_def split: option.splits)

lemma view_host0: "view host0 i = []"
  by (simp only: view_def queue_of_host0 list.map)

lemma host0_ok: "host_wf circ_ok region_live region_ok host0" "used_exact region_live host0"
  by (simp_all add: host_wf_def used_exact_def used_ok_def queues_ok_def queue_of_host0 region_live_def,
      simp_all add: host0_def region_ok_def)

section \<open>Pipes\<close>

text \<open>C9. Consuming a pipe. On a ring that holds a queue of whole frames, \<open>tjost_pipe_consume\<close> does
  what handing the frames one by one to the callbacks does: each with its header and payload as they
  were produced, in order, until the queue is empty or the scheduling callback asks to stop; it
  returns 0, and what the callbacks did not see stays in the ring. It fails only where a callback
  does.\<close>
theorem pipe_consume_refines:
  assumes "jack_ringbuffer J contents cap ok" and "ok r" and "\<forall>f\<in>set fs. valid_frame f"
    and "contents r = pipe_bytes fs"
  shows "case deliver_all alloc_cb store sched_cb fs s of
      None \<Rightarrow> tjost_pipe_consume J alloc_cb store sched_cb r s = None
    | Some (fs', s') \<Rightarrow> \<exists>r'. tjost_pipe_consume J alloc_cb store sched_cb r s = Some (0, r', s') \<and>
        ok r' \<and> cap r' = cap r \<and> contents r' = pipe_bytes fs'"
  using assms(2-4) by (rule jack_ringbuffer.consume_refines [OF assms(1)])

theorem pipe_consume_refines_witness:
  "\<exists>r'. tjost_pipe_consume circ_ops (\<lambda>t s. Some ((), s)) (\<lambda>p bs s. s @ [bs]) (\<lambda>t p s. Some (False, s))
    (circ_with (pipe_bytes [frame1, frame1]) 10) [] = Some (0, r', [f_buf frame1, f_buf frame1]) \<and>
    circ_contents r' = []"
  using pipe_consume_refines [OF circ.jack_ringbuffer_axioms, of "circ_with (pipe_bytes [frame1, frame1]) 10"
    "[frame1, frame1]" "\<lambda>t s. Some ((), s)" "\<lambda>p bs s. s @ [bs]" "\<lambda>t p s. Some (False, s)" "[]"]
  by auto

text \<open>C10. A frame is queued whole or not at all: \<open>tjost_pipe_produce\<close> answers -1 and leaves the ring
  alone when header and payload do not fit together; otherwise it answers 0 and the ring holds one
  more frame at its end.\<close>
theorem pipe_produce_atomic:
  assumes "jack_ringbuffer J contents cap ok" and "ok r" and "valid_frame f"
  shows "if tjost_pipe_space J r < 48 + length (f_buf f)
    then tjost_pipe_produce J (f_stk f) r (f_module f) (f_time f) (f_buf f) = (-1, r)
    else \<exists>r'. tjost_pipe_produce J (f_stk f) r (f_module f) (f_time f) (f_buf f) = (0, r') \<and>
      ok r' \<and> cap r' = cap r \<and> contents r' = contents r @ frame_bytes f"
  using jack_ringbuffer.produce_full [OF assms(1,3), of r] jack_ringbuffer.produce_ok [OF assms]
  by (simp add: tjost_pipe_space_def not_less)

theorem pipe_produce_atomic_witness:
  "tjost_pipe_produce circ_ops [] (circ_with [] 20) (Some 4096) 77 [47, 97, 0, 0, 44, 0, 0, 0] = (-1, circ_with [] 20) \<and>
   (\<exists>r'. tjost_pipe_produce circ_ops [] (circ_with [] 200) (Some 4096) 77 [47, 97, 0, 0, 44, 0, 0, 0] = (0, r'))"
proof -
  have s: "tjost_pipe_space circ_ops (circ_with [] n) = n" for n
    using circ.write_space [of "circ_with [] n"] by (simp add: tjost_pipe_space_def)
  show ?thesis
    using pipe_produce_atomic [OF circ.jack_ringbuffer_axioms, of "circ_with [] 20" frame1]
      pipe_produce_atomic [OF circ.jack_ringbuffer_axioms, of "circ_with [] 200" frame1]
    unfolding s by (auto simp: frame1_def valid_frame_def valid_ptr_def)
qed

text \<open>C12. A header without its payload. The consumer sees a frame as soon as its header is there; while
  the payload is still missing it polls the ring in a loop that does not end, so on this ring the
  call never returns.\<close>
theorem pipe_consume_spins:
  assumes "jack_ringbuffer J contents cap ok" and "ok r" and "valid_frame f"
    and "contents r = event_image (f_stk f) (hdr f) @ bs" and "length bs < length (f_buf f)"
  shows "tjost_pipe_consume J alloc_cb store sched_cb r s = None"
  using assms(2-5) by (rule jack_ringbuffer.consume_incomplete [OF assms(1)])

theorem pipe_consume_spins_witness:
  "tjost_pipe_consume circ_ops (\<lambda>t s. Some ((), s)) (\<lambda>p bs s. s) (\<lambda>t p s. Some (False, s))
    (circ_with (event_image [] (hdr frame1) @ [47]) 10) () = None"
proof (rule pipe_consume_spins [OF circ.jack_ringbuffer_axioms])
  show "circ_contents (circ_with (event_image [] (hdr frame1) @ [47]) 10) =
      event_image (f_stk frame1) (hdr frame1) @ [47]"
    by (simp add: frame1_def)
qed simp_all

text \<open>C11. Two threads on one pipe. However the writes of a producer and the reads of a consumer
  interleave, from an empty ring: no write and no read comes back short, what arrived is a prefix of
  what was sent, with the same module, time and payload; all of it has arrived once both are between
  frames and the ring is empty; and while both are between frames and the ring is not empty the
  consumer finds a whole frame.\<close>
theorem pipe_interleaving:
  assumes "jack_ringbuffer J contents cap ok" and "ok r" and "contents r = []"
    and "pipe_reachable J r s"
  shows "\<not> failed s \<and> prefix (got s) (map arrived (sent s)) \<and>
    (p_pc s = None \<and> c_pc s = None \<longrightarrow>
      (if contents (ring s) = [] then got s = map arrived (sent s)
       else rb_read_space J (ring s) \<ge> 48 \<and> rb_read_space J (ring s) \<ge>
         size_add 48 (h_size (image_event (rb_peek J (ring s) 48)))))"
proof -
  note j = assms(1)
  have i: "jack_ringbuffer.pipe_inv contents cap ok s"
    using jack_ringbuffer.pipe_reachable_inv [OF j assms(4,2,3)] .
  show ?thesis
    using jack_ringbuffer.inv_fifo [OF j i] jack_ringbuffer.inv_quiescent [OF j i]
      jack_ringbuffer.inv_no_stall [OF j i] by simp
qed

theorem pipe_interleaving_witness:
  "\<exists>s. pipe_reachable circ_ops (circ_with [] 200) s \<and> p_pc s = Some frame1 \<and> \<not> failed s \<and> got s = []"
proof -
  let ?r0 = "circ_with [] 200"
  obtain n r where w: "rb_write circ_ops ?r0 (event_image (f_stk frame1) (hdr frame1)) = (n, r)" by fastforce
  have sp: "\<not> rb_write_space circ_ops (ring (pipe_start ?r0)) < size_add 48 (length (f_buf frame1))"
    using circ.write_space [of ?r0] by (simp add: pipe_start_def size_add_def)
  define s0 where "s0 = pipe_start ?r0"
  have s0: "p_pc s0 = None" "got s0 = []" "ring s0 = ?r0" by (simp_all add: s0_def pipe_start_def)
  define s1 where "s1 = s0\<lparr>ring := r, p_pc := Some frame1, sent := sent s0 @ [frame1],
    failed := (failed s0 \<or> n \<noteq> 48)\<rparr>"
  have st: "pipe_step circ_ops s0 s1"
    unfolding s1_def using s0(1) frame1_simps(1) sp [folded s0_def] w unfolding s0(3) [symmetric]
    by (rule pipe_step.write_header)
  have r: "pipe_reachable circ_ops ?r0 s1"
    by (rule pipe_reachable.step [OF pipe_reachable.start [of circ_ops ?r0, folded s0_def] st])
  have "\<not> failed s1" using pipe_interleaving [OF circ.jack_ringbuffer_axioms _ _ r] by simp
  with r s0(2) show ?thesis by (intro exI [of _ s1]) (simp add: s1_def)
qed

section \<open>Messages\<close>

text \<open>C13. Messages from the real-time thread. Whatever is pushed on an empty message ring, the handler
  of the event loop returns, prints a subsequence of the messages in order, each complete, and leaves
  the ring empty; no message is lost when they fit the ring together.\<close>
theorem messages_in_order:
  assumes "tjost_env E contents cap rok live aok" and "rok (rb_msg h)" and "contents (rb_msg h) = []"
    and "\<forall>s\<in>set ss. c_text s"
  shows "\<exists>h1 h2 kept. push_all E h ss = Some h1 \<and>
    msg_handler E h1 [] = Some (map (\<lambda>s. ''MESSAGE: '' @ s) kept, h2) \<and> contents (rb_msg h2) = [] \<and>
    subseq kept ss \<and> (length (msg_bytes ss) \<le> cap (rb_msg h) \<longrightarrow> kept = ss)"
proof -
  have "contents (rb_msg h) = msg_bytes []" using assms(3) by simp
  from tjost_env.push_all_keeps [OF assms(1,2,4) this] obtain h1 kept where
    k: "push_all E h ss = Some h1" "rok (rb_msg h1)" "contents (rb_msg h1) = msg_bytes kept" "subseq kept ss"
      "length (msg_bytes ss) \<le> cap (rb_msg h) \<longrightarrow> kept = ss" by auto
  then have "\<forall>s\<in>set kept. c_text s" using assms(4) by (auto dest: list_emb_set)
  from tjost_env.handler_prints [OF assms(1) k(2) this k(3), of "[]"] k show ?thesis by auto
qed

theorem messages_in_order_witness:
  "\<exists>h1 h2. push_all ref_env host0 [''tick'', ''tock''] = Some h1 \<and>
    msg_handler ref_env h1 [] = Some ([''MESSAGE: tick'', ''MESSAGE: tock''], h2)"
  using messages_in_order [OF ref.tjost_env_axioms, of host0 "[''tick'', ''tock'']"]
  by (auto simp: host0_def c_text_def)

section \<open>Memory\<close>

lemma request_memory_ok:
  assumes e: "tjost_env E contents cap rok live aok"
    and r: "rok (rb_rtmem h)" "contents (rb_rtmem h) = []" "8 \<le> cap (rb_rtmem h)"
    and a: "area \<noteq> 0" "caddr \<noteq> 0" "caddr < 2 ^ 64"
  obtains rb where "tjost_request_memory E area caddr h = Some (h\<lparr>rb_rtmem := rb,
      chunk_at := (chunk_at h)(caddr := \<lparr>ch_size = of_nat area_size, ch_area = area, ch_pool = None\<rparr>)\<rparr>)"
    "rok rb" "contents rb = enc_le 8 caddr"
proof -
  note j = tjost_env.axioms(1) [OF e]
  have w: "rok (snd (rb_write (ring_api E) (rb_rtmem h) (enc_le 8 caddr)))"
    "contents (snd (rb_write (ring_api E) (rb_rtmem h) (enc_le 8 caddr))) = enc_le 8 caddr"
    using jack_ringbuffer.write_fits [OF j r(1), of "enc_le 8 caddr"] r(2,3)
      jack_ringbuffer.write_space [OF j r(1)] by simp_all
  have s: "\<not> rb_write_space (ring_api E) (rb_rtmem h) < 8"
    using jack_ringbuffer.write_space [OF j r(1)] r(2,3) by simp
  show thesis
    by (rule that [OF _ w]) (use s a in \<open>simp add: tjost_request_memory_def tjost_map_memory_chunk_def Let_def\<close>)
qed

lemma length_show_hex: "n < 16 ^ Suc k \<Longrightarrow> length (show_hex n) \<le> Suc k"
proof (induction k arbitrary: n)
  case 0
  then show ?case by (simp add: show_hex.simps [of n] Let_def)
next
  case (Suc k)
  then have "n div 16 < 16 ^ Suc k" by (simp add: div_less_iff_less_mult)
  from Suc.IH [OF this] show ?case by (simp add: show_hex.simps [of n] Let_def)
qed

text \<open>C14. Extending the memory. A chunk the event loop thread maps on request reaches the real-time
  thread: its next \<open>tjost_add_memory\<close> hands exactly that area to the allocator as a pool, records the
  chunk, adds 16 MiB to the sum, clears the request flag so that memory can be requested again, and
  leaves every queue and every allocated block as they were.\<close>
theorem memory_extension:
  assumes "tjost_env E contents cap rok live aok" and "rt_pool_allocator (tlsf_api E) live aok pool_ok"
    and "rok (rb_rtmem h)" and "contents (rb_rtmem h) = []" and "8 \<le> cap (rb_rtmem h)"
    and "area \<noteq> 0" and "caddr \<noteq> 0" and "caddr < 2 ^ 64"
    and "aok (tlsf h)" and "pool_ok (tlsf h) area area_size"
  shows "\<exists>h1 h2. tjost_request_memory E area caddr h = Some h1 \<and> tjost_add_memory E h1 = Some h2 \<and>
    tlsf h2 = snd (ta_add_pool (tlsf_api E) (tlsf h) area area_size) \<and> aok (tlsf h2) \<and>
    live (tlsf h2) = live (tlsf h) \<and> rtmem_chunks h2 = caddr # rtmem_chunks h \<and>
    rtmem_sum h2 = rtmem_sum h + of_nat area_size \<and> rtmem_flag h2 = 0 \<and> queue_of h2 = queue_of h \<and>
    contents (rb_rtmem h2) = []"
proof -
  define c where "c = \<lparr>ch_size = of_nat area_size, ch_area = area, ch_pool = None\<rparr>"
  obtain rb where "tjost_request_memory E area caddr h =
      Some (h\<lparr>rb_rtmem := rb, chunk_at := (chunk_at h)(caddr := c)\<rparr>)"
    and rb: "rok rb" "contents rb = enc_le 8 caddr"
    unfolding c_def by (rule request_memory_ok [OF assms(1,3-8)])
  moreover define h1 where "h1 = h\<lparr>rb_rtmem := rb, chunk_at := (chunk_at h)(caddr := c)\<rparr>"
  ultimately have rq: "tjost_request_memory E area caddr h = Some h1" by simp
  note j = tjost_env.axioms(1) [OF assms(1)]
  have h1: "rb_rtmem h1 = rb" "chunk_at h1 caddr = c" "tlsf h1 = tlsf h" by (simp_all add: h1_def)
  have rs: "rb_read_space (ring_api E) rb = 8" using jack_ringbuffer.read_space [OF j rb(1)] rb(2) by simp
  have rd: "fst (rb_read (ring_api E) rb 8) = enc_le 8 caddr" "contents (snd (rb_read (ring_api E) rb 8)) = []"
    using jack_ringbuffer.read_bytes [OF j rb(1), of 8] jack_ringbuffer.read_state [OF j rb(1), of 8] rb(2)
    by simp_all
  have d: "dec_le (enc_le 8 caddr) = caddr" using assms(8) by (intro dec_enc_le_id) simp
  have sz: "ch_area c = area" "unat (ch_size c) = area_size" by (simp_all add: c_def area_size_def)
  obtain pool t where ap: "ta_add_pool (tlsf_api E) (tlsf h) area area_size = (pool, t)" by fastforce
  have t: "aok t" "live t = live (tlsf h)"
    using rt_pool_allocator.add_pool [OF assms(2,9,10) ap] by simp_all
  define h2 where "h2 = h1\<lparr>rb_rtmem := snd (rb_read (ring_api E) rb 8), tlsf := t,
    chunk_at := (chunk_at h1)(caddr := c\<lparr>ch_pool := pool\<rparr>), rtmem_chunks := caddr # rtmem_chunks h1,
    rtmem_sum := rtmem_sum h1 + ch_size c, rtmem_flag := 0\<rparr>"
  define str where "str = ''Rt memory extended to: 0x'' @
    show_hex (unat (rtmem_sum h1 + ch_size c) mod 2 ^ 32) @ '' bytes''"
  have "length (show_hex (unat (rtmem_sum h1 + ch_size c) mod 2 ^ 32)) \<le> Suc 7"
    by (rule length_show_hex) simp
  then have "length str < 1024" by (simp add: str_def)
  then obtain h3 where m: "tjost_host_message_push E h2 str = Some h3"
    using message_push_Some [of E h2 str] by blast
  have am: "tjost_add_memory E h1 = tjost_host_message_push E h2 str"
    using ap by (simp add: tjost_add_memory_def Let_def h1 rs rd d sz h2_def str_def)
  note f = message_push_frame [OF m]
  have "queue_of h2 = queue_of h" by (rule ext) (simp add: h2_def h1_def queue_of_def split: option.splits)
  then have q: "queue_of h3 = queue_of h" by (simp add: queue_of_frame [OF f(1)])
  have "tlsf h3 = t" "rtmem_chunks h3 = caddr # rtmem_chunks h" "rtmem_flag h3 = 0"
    "rtmem_sum h3 = rtmem_sum h + of_nat area_size" "contents (rb_rtmem h3) = []"
    using f mem_frameD [OF f(1)] rd by (simp_all add: h2_def h1_def c_def)
  with rq am m q t ap show ?thesis by (intro exI [of _ h1] exI [of _ h3]) simp
qed

theorem memory_extension_witness:
  "\<exists>h1 h2. tjost_request_memory ref_env 0x10000000 4096 host0 = Some h1 \<and>
    tjost_add_memory ref_env h1 = Some h2 \<and> rtmem_chunks h2 = [4096] \<and> rtmem_sum h2 = 0x10003E8"
  using memory_extension [OF ref.tjost_env_axioms, of "\<lambda>g area n. True" host0 "0x10000000" 4096]
    region.rt_pool_allocator_axioms
  by (auto simp: host0_def region_ok_def area_size_def)



text \<open>A failed resize breaks the accounting. \<open>tjost_realloc\<close> subtracts the block before it asks and
  adds the new one after; when the request (for a positive size) fails, the block is still allocated
  but no longer counted.\<close>
theorem realloc_failure_miscounts:
  assumes "tjost_env E contents cap rok live aok" and "host_wf rok live aok h" and "used_exact live h"
    and "live (tlsf h) a = Some s" and "0 < s" and "s < 2 ^ 64" and "0 < n"
    and "tjost_realloc E h n (Some a) = Some (None, h')"
  shows "live (tlsf h') a = Some s \<and> used h' = used h - of_nat s \<and> \<not> used_exact live h'"
proof -
  note mem = tjost_env.axioms(2) [OF assms(1)]
  have ok: "aok (tlsf h)" using assms(2) by (simp add: host_wf_def)
  note bs = rt_allocator.block_size [OF mem ok assms(4)]
  obtain t where r: "ta_realloc (tlsf_api E) (tlsf h) (Some a) n = (None, t)"
    using assms(8) by (auto simp: tjost_realloc_def Let_def split: prod.splits Option.bind_splits)
  from rt_allocator.realloc_None [OF mem ok assms(4) r] assms(7) have t: "live t = live (tlsf h)" by simp
  define h0 where "h0 = h\<lparr>used := used h - of_nat s, tlsf := t\<rparr>"
  obtain h1 where m: "tjost_host_message_push E h0 ''tjost_realloc: out of memory'' = Some h1"
    and h': "h' = request_more (h1\<lparr>used := used h1 + of_nat (ta_block_size (tlsf_api E) (tlsf h1) None)\<rparr>)"
    using assms(8) r bs by (auto simp: tjost_realloc_def Let_def h0_def split: Option.bind_splits)
  note f = message_push_frame [OF m]
  have u: "used h' = used h - of_nat s" "tlsf h' = t"
    using f by (simp_all add: h' h0_def request_more_def rt_allocator.block_size_NULL [OF mem])
  have "unat (of_nat s :: size_t) = s" using assms(6) by (simp add: unat_of_nat)
  then have "(of_nat s :: size_t) \<noteq> 0" using assms(5) by auto
  then have "used h' \<noteq> used h" by (simp add: u)
  moreover have "used h = of_nat (\<Sum>a\<in>dom (live t). the (live t a))"
    using assms(3) by (simp add: used_exact_def used_ok_def t)
  ultimately show ?thesis using assms(4) u t by (simp add: used_exact_def used_ok_def)
qed

definition host1 :: "(region, circ) host" where
  "host1 = host0\<lparr>tlsf := \<lparr>g_next = 101, g_room = 50, g_blocks = [(1, 100)]\<rparr>, used := 100\<rparr>"

theorem realloc_failure_miscounts_witness:
  "\<exists>h'. tjost_realloc ref_env host1 200 (Some 1) = Some (None, h') \<and> used h' = 0 \<and>
    region_live (tlsf h') 1 = Some 100"
proof -
  have q: "queue_of host1 i = []" for i
    by (simp add: queue_of_def host1_def host0_def mod0_def split: option.splits)
  have l: "region_live (tlsf host1) = [1 \<mapsto> 100]" by (simp add: host1_def region_live_def)
  have ok: "host_wf circ_ok region_live region_ok host1"
    unfolding host_wf_def queues_ok_def q by (simp add: host1_def host0_def region_ok_def)
  have u: "used_exact region_live host1"
    unfolding used_exact_def used_ok_def l by (simp add: host1_def)
  have "ta_realloc region_ops (tlsf host1) (Some 1) 200 = (None, tlsf host1)"
    by (simp add: host1_def region_ops_def region_realloc_def region_malloc_def)
  then obtain h' where r: "tjost_realloc ref_env host1 200 (Some 1) = Some (None, h')"
    by (auto simp: tjost_realloc_def tjost_host_message_push_def Let_def simp del: One_nat_def)
  from realloc_failure_miscounts [OF ref.tjost_env_axioms ok u _ _ _ _ r] l
  show ?thesis using r by (auto simp: host1_def)
qed

section \<open>Scheduling\<close>

text \<open>C16. Scheduling on the host. \<open>tjost_host_schedule\<close> fails exactly when the allocator is out of
  memory (the unchecked NULL). Otherwise the event goes into the host's queue behind every event that
  is not later, with its module, time and payload, in a block of its own that is large enough; the
  queue stays sorted by time with events of equal time in the order they came, and nothing else of
  the host's queues and configuration changes.\<close>
theorem host_schedule_correct:
  assumes "tjost_env E contents cap rok live aok" and "host_wf rok live aok h"
  shows "case tjost_host_schedule E h m t buf of
      None \<Rightarrow> fst (ta_malloc (tlsf_api E) (tlsf h) (size_add 48 (length buf))) = None
    | Some h' \<Rightarrow> host_wf rok live aok h' \<and> by_time (queue h') \<and> config h' = config h \<and>
        (\<exists>a. live (tlsf h) a = None \<and>
          (\<exists>s\<ge>size_add 48 (length buf). live (tlsf h') = (live (tlsf h))(a \<mapsto> s)) \<and>
          queue_of h' = (queue_of h)(None := takeWhile (\<lambda>e. ev_time e \<le> t) (queue h) @
            mk_event a m t buf # dropWhile (\<lambda>e. ev_time e \<le> t) (queue h)))"
proof (cases "tjost_host_schedule E h m t buf")
  case None
  then show ?thesis using tjost_env.schedule_None_iff(1) [OF assms(1), of h m t buf] by simp
next
  case (Some h')
  from tjost_env.host_schedule_spec [OF assms Some] obtain a where s: "live (tlsf h) a = None"
    "\<exists>s\<ge>size_add 48 (length buf). live (tlsf h') = (live (tlsf h))(a \<mapsto> s)"
    "queue_of h' = (queue_of h)(None := insert_event (mk_event a m t buf) (queue h))"
    "host_wf rok live aok h'" "queue_frame h h'" by blast
  have "by_time (queue_of h' None)" using s(4) unfolding host_wf_def by (blast intro: queues_okD(1))
  then have "by_time (queue h')" by simp
  with s config_queue_frame [OF s(5)] show ?thesis unfolding Some insert_event_def by auto
qed

theorem host_schedule_correct_witness:
  "\<exists>h'. tjost_host_schedule ref_env host0 (Some 8) 100 [1, 2, 3] = Some h' \<and> map ev_time (queue h') = [100] \<and>
    map ev_buf (queue h') = [[1, 2, 3]]"
proof -
  have "tjost_host_schedule ref_env host0 (Some 8) 100 [1, 2, 3] \<noteq> None"
    by (simp add: ref.schedule_None_iff size_add_def host0_def region_ops_def region_malloc_def)
  then obtain h' where h': "tjost_host_schedule ref_env host0 (Some 8) 100 [1, 2, 3] = Some h'" by blast
  from host_schedule_correct [OF ref.tjost_env_axioms host0_ok(1), where m = "Some 8" and t = 100 and buf = "[1, 2, 3]"] h'
  obtain a where "queue_of h' = (queue_of host0)(None := [mk_event a (Some 8) 100 [1, 2, 3]])"
    by (auto simp: host0_def)
  from fun_cong [OF this, of None] h' show ?thesis by simp
qed

text \<open>Scheduling on a module: as on the host, into the module's own queue.\<close>
theorem module_schedule_correct:
  assumes "tjost_env E contents cap rok live aok" and "host_wf rok live aok h"
    and "tjost_module_schedule E h m t buf = Some h'"
  shows "host_wf rok live aok h' \<and> config h' = config h \<and>
    view h' = (view h)(Some m := takeWhile (\<lambda>e. ev_time e \<le> t) (view h (Some m)) @
      mk_view None t buf # dropWhile (\<lambda>e. ev_time e \<le> t) (view h (Some m)))"
  using tjost_env.schedule_delivers [OF assms] by (simp add: preserves_def deliver_def insert_event_def)

theorem module_schedule_correct_witness:
  "\<exists>h'. tjost_module_schedule ref_env host0 8 100 [1, 2, 3] = Some h' \<and>
    view h' (Some 8) = [mk_view None 100 [1, 2, 3]]"
proof -
  have "tjost_module_schedule ref_env host0 8 100 [1, 2, 3] \<noteq> None"
    by (simp add: ref.schedule_None_iff size_add_def host0_def region_ops_def region_malloc_def)
  then obtain h' where h': "tjost_module_schedule ref_env host0 8 100 [1, 2, 3] = Some h'" by blast
  from module_schedule_correct [OF ref.tjost_env_axioms host0_ok(1) h'] h' view_host0 show ?thesis by simp
qed

section \<open>The main loop and the callback\<close>

text \<open>C17. The main loop. In a period that does not wrap the frame counter, exactly the events of the
  host's queue that are due are taken from it; each is delivered, in queue order, to the children of
  its module (of every uplink, for a broadcast) and to their Lua logic, with a time inside the period;
  what is not due stays in the queue as it was, and the host stays well formed.\<close>
theorem main_loop_delivers:
  assumes "process_contract E contents cap rok live aok pool_ok C lact" and "host_wf rok live aok h"
    and "main_loop E C n h = Some h'" and "last_frame h \<le> last_frame h + n" and "0 < n"
  shows "preserves rok live aok h h' \<and>
    view h' = (fold deliver (concat (map (deliveries (module_at h) (uplinks h) lact)
        (map (stamped (last_frame h) (last_frame h)) (filter (due (last_frame h) n) (queue h))))) (view h))
      (None := filter (\<lambda>e. \<not> due (last_frame h) n e) (view h None)) \<and>
    (\<forall>e\<in>set (queue h). due (last_frame h) n e \<longrightarrow>
      last_frame h \<le> ev_time (stamped (last_frame h) (last_frame h) e) \<and>
      ev_time (stamped (last_frame h) (last_frame h) e) < last_frame h + n)"
proof -
  have "by_time (queue_of h None)" using assms(2) unfolding host_wf_def by (blast intro: queues_okD(1))
  then have "by_time (queue h)" by simp
  note t = takeWhile_due_filter [OF this, of "last_frame h" n]
  have d: "main_deliveries h lact n (queue h) = concat (map (deliveries (module_at h) (uplinks h) lact)
      (map (stamped (last_frame h) (last_frame h)) (filter (due (last_frame h) n) (queue h))))"
    using t by (simp add: main_deliveries_def o_def)
  show ?thesis
    using process_contract.main_loop_spec [OF assms(1,2,3)] stamped_in_period [OF _ assms(4)] assms(5)
    unfolding d by blast
qed

definition host2 :: "(region, circ) host" where
  "host2 = host0\<lparr>queue := [mk_event 1 (Some 9) 0 [1, 2, 3]],
     tlsf := \<lparr>g_next = 100, g_room = 1000, g_blocks = [(1, 51)]\<rparr>, used := 51\<rparr>"

lemma queue_of_host2: "queue_of host2 = (\<lambda>i. [])(None := [mk_event 1 (Some 9) 0 [1, 2, 3]])"
  by (rule ext) (simp add: queue_of_def host2_def host0_def mod0_def split: option.splits)

lemma host2_ok: "host_wf circ_ok region_live region_ok host2"
  unfolding host_wf_def queues_ok_def queue_of_host2
  by (simp add: host2_def host0_def region_ok_def region_live_def)

theorem main_loop_delivers_witness:
  "\<exists>h'. main_loop ref_env (core_callbacks ref_env (\<lambda>_. Loopback) (\<lambda>_ _ _. [])) 64 host2 = Some h' \<and>
    view h' None = [] \<and> view h' (Some 8) = [mk_view None 100 [1, 2, 3]]"
proof -
  let ?C = "core_callbacks ref_env (\<lambda>_. Loopback) (\<lambda>_ _ _. [])"
  have "tjost_module_schedule ref_env host2 8 100 [1, 2, 3] \<noteq> None"
    by (simp add: ref.schedule_None_iff size_add_def host2_def region_ops_def region_malloc_def)
  then obtain h1 where h1: "tjost_module_schedule ref_env host2 8 100 [1, 2, 3] = Some h1" by blast
  have "has_lua_callback (module_at h1 9) = has_lua_callback (module_at host2 9)"
    by (rule configD(5) [OF config_queue_frame [OF module_schedule_frame [OF h1]]])
  then have l: "\<not> has_lua_callback (module_at h1 9)" by (simp add: host2_def host0_def mod0_def)
  have q: "queue host2 = [mk_event 1 (Some 9) 0 [1, 2, 3]]" "last_frame host2 = 100"
    "m_children (module_at host2 9) = [(1, 8)]" by (simp_all add: host2_def host0_def)
  have "to_module ref_env ?C 9 (mk_event 1 (Some 9) 100 [1, 2, 3]) host2 = Some h1"
    using h1 l by (simp add: to_module_def q)
  then have "\<exists>h'. main_loop ref_env ?C 64 host2 = Some h'"
    by (simp add: main_loop_def q stamp_def main_body_def)
  then obtain h' where h': "main_loop ref_env ?C 64 host2 = Some h'" by blast
  have d: "deliveries (module_at host2) (uplinks host2) (\<lambda>_ _ _. []) (mk_event 1 (Some 9) 100 [1, 2, 3]) =
      [(8 :: addr, 100, [1, 2, 3])]" by (simp add: deliveries_def module_deliveries_def q)
  have view_None: "view host2 None = [mk_view (Some 9) 0 [1, 2, 3]]"
    unfolding view_def queue_of_host2 by simp
  have v: "view host2 (Some 8) = []" unfolding view_def queue_of_host2 by simp
  have "last_frame host2 \<le> last_frame host2 + 64" "(0 :: nframes) < 64" by (simp_all add: q)
  from main_loop_delivers [OF ref_core.process_contract_axioms host2_ok h' this]
  show ?thesis using h' v
    by (simp add: q due_def stamped_def d deliver_def insert_event_def view_None del: One_nat_def)
qed




text \<open>The end of the frame counter. When \<open>last + nframes\<close> wraps, the loop of every queue stops at
  the first event whose time is at or after the start of the period, although the period plays it: it
  and everything behind it stay in the queue, and nothing is done.\<close>
theorem wrapped_period_not_due:
  assumes "last_t + n < last_t" and "last_t \<le> ev_time e"
  shows "drain E name late_to last_t n i body (e # q) S = Some S"
proof -
  have "last_t + n \<le> ev_time e" using order.trans [OF order.strict_implies_order [OF assms(1)] assms(2)] .
  then show ?thesis by simp
qed

theorem wrapped_period_not_due_witness:
  "drain ref_env ''main loop'' 0xFFFFFFF0 0xFFFFFFF0 64 None (\<lambda>e S. Some S)
    [mk_event 1 None 0xFFFFFFF5 []] ((), host0) = Some ((), host0)"
  using wrapped_period_not_due [of "0xFFFFFFF0" 64 "mk_event 1 None 0xFFFFFFF5 []"] by simp

end
