(* ===== verification/Osc.thy ===== *)
theory Osc
  imports Tjost_Prelude
begin

text \<open>
  The OSC library (a submodule of the repository, not part of it) as the program uses it: a record
  of the functions called, and the contract \<open>osc_lib\<close> that states what the OSC 1.0 specification says
  of them. \<open>osc_ref\<close> is an implementation that satisfies the contract and computes.

  The \<open>osc_set_*\<close> functions write at a pointer and return the one behind, or NULL when the value
  does not fit before the end of the buffer or the pointer is NULL already: here the bytes
  written so far, \<open>None\<close> for NULL, with the size of the buffer as first argument.
\<close>

section \<open>The functions the program calls\<close>

datatype osc_arg = Osc_Int32 "32 word" | Osc_Float "32 word" | Osc_String string | Osc_Blob "byte list" |
  Osc_Int64 "64 word" | Osc_Double "64 word" | Osc_Timetag "64 word" | Osc_Symbol string |
  Osc_Char byte | Osc_Midi "byte list"

text \<open>Floats are their IEEE bit patterns.\<close>

datatype osc_call = Call nframes nat string string "byte list" | Bundle_In nframes | Bundle_Out nframes

record osc_ops =
  osc_strlen :: "string \<Rightarrow> nat"
  osc_padded_size :: "nat \<Rightarrow> nat"
  osc_set_path :: "nat \<Rightarrow> byte list option \<Rightarrow> string \<Rightarrow> byte list option"
  osc_set_fmt :: "nat \<Rightarrow> byte list option \<Rightarrow> string \<Rightarrow> byte list option"
  osc_set_arg :: "nat \<Rightarrow> byte list option \<Rightarrow> osc_arg \<Rightarrow> byte list option"
  osc_get_arg :: "char \<Rightarrow> byte list \<Rightarrow> osc_arg \<times> byte list"
  osc_skip :: "char \<Rightarrow> byte list \<Rightarrow> byte list"
  osc_get_path :: "byte list \<Rightarrow> string \<times> byte list"
  osc_get_fmt :: "byte list \<Rightarrow> string \<times> byte list"
  osc_check_path :: "string \<Rightarrow> bool"
  osc_check_fmt :: "string \<Rightarrow> bool"
  osc_check_message :: "byte list \<Rightarrow> bool"
  osc_check_bundle :: "byte list \<Rightarrow> bool"
  osc_dispatch_method :: "nframes \<Rightarrow> byte list \<Rightarrow> (string option \<times> string option) list \<Rightarrow> osc_call list"
  osc_start_bundle :: "nat \<Rightarrow> byte list option \<Rightarrow> 64 word \<Rightarrow> nat option \<times> byte list option"
  osc_end_bundle :: "nat \<Rightarrow> byte list option \<Rightarrow> nat option \<Rightarrow> byte list option"
  osc_start_bundle_item :: "nat \<Rightarrow> byte list option \<Rightarrow> nat option \<times> byte list option"
  osc_end_bundle_item :: "nat \<Rightarrow> byte list option \<Rightarrow> nat option \<Rightarrow> byte list option"
  osc_set_vararg :: "nat \<Rightarrow> string \<Rightarrow> string \<Rightarrow> osc_arg list \<Rightarrow> byte list option"
  osc_check_packet :: "byte list \<Rightarrow> bool"

text \<open>
  \<open>osc_set_vararg\<close> writes a whole message at the start of a buffer; the types without data take no
  argument. The bundle functions hand out and take pointers into the buffer: offsets here, \<open>None\<close> for NULL.\<close>

section \<open>OSC 1.0\<close>

definition osc_str :: "string \<Rightarrow> byte list" where
  "osc_str s = bytes_of_string s @ replicate (4 - length s mod 4) 0"

definition osc_tags :: "string \<Rightarrow> byte list" where
  "osc_tags f = osc_str (CHR '','' # f)"

definition osc_pad :: "nat \<Rightarrow> byte list" where
  "osc_pad n = replicate ((4 - n mod 4) mod 4) 0"

fun osc_enc :: "osc_arg \<Rightarrow> byte list" where
  "osc_enc (Osc_Int32 w) = enc_be 4 (unat w)"
| "osc_enc (Osc_Float w) = enc_be 4 (unat w)"
| "osc_enc (Osc_String s) = osc_str s"
| "osc_enc (Osc_Blob b) = enc_be 4 (length b) @ b @ osc_pad (length b)"
| "osc_enc (Osc_Int64 w) = enc_be 8 (unat w)"
| "osc_enc (Osc_Double w) = enc_be 8 (unat w)"
| "osc_enc (Osc_Timetag w) = enc_be 8 (unat w)"
| "osc_enc (Osc_Symbol s) = osc_str s"
| "osc_enc (Osc_Char c) = [0, 0, 0, c]"
| "osc_enc (Osc_Midi m) = m"

fun osc_tag :: "osc_arg \<Rightarrow> char" where
  "osc_tag (Osc_Int32 w) = CHR ''i''"
| "osc_tag (Osc_Float w) = CHR ''f''"
| "osc_tag (Osc_String s) = CHR ''s''"
| "osc_tag (Osc_Blob b) = CHR ''b''"
| "osc_tag (Osc_Int64 w) = CHR ''h''"
| "osc_tag (Osc_Double w) = CHR ''d''"
| "osc_tag (Osc_Timetag w) = CHR ''t''"
| "osc_tag (Osc_Symbol s) = CHR ''S''"
| "osc_tag (Osc_Char c) = CHR ''c''"
| "osc_tag (Osc_Midi m) = CHR ''m''"

fun osc_valid :: "osc_arg \<Rightarrow> bool" where
  "osc_valid (Osc_String s) \<longleftrightarrow> CHR 0x00 \<notin> set s"
| "osc_valid (Osc_Symbol s) \<longleftrightarrow> CHR 0x00 \<notin> set s"
| "osc_valid (Osc_Blob b) \<longleftrightarrow> length b < 2 ^ 31"
| "osc_valid (Osc_Midi m) \<longleftrightarrow> length m = 4"
| "osc_valid a \<longleftrightarrow> True"

definition osc_message :: "string \<Rightarrow> osc_arg list \<Rightarrow> byte list" where
  "osc_message path args = osc_str path @ osc_tags (map osc_tag args) @ concat (map osc_enc args)"

text \<open>The types \<open>T\<close>, \<open>F\<close>, \<open>N\<close> and \<open>I\<close> have no data: a format fits the arguments of its other types.\<close>

definition no_data :: "char \<Rightarrow> bool" where
  "no_data c \<longleftrightarrow> c \<in> set ''TFNI''"

definition fmt_fits :: "string \<Rightarrow> osc_arg list \<Rightarrow> bool" where
  "fmt_fits f args \<longleftrightarrow> filter (\<lambda>c. \<not> no_data c) f = map osc_tag args"

definition osc_msg :: "string \<Rightarrow> string \<Rightarrow> osc_arg list \<Rightarrow> byte list" where
  "osc_msg path f args = osc_str path @ osc_tags f @ concat (map osc_enc args)"

lemma osc_message_msg: "osc_message path args = osc_msg path (map osc_tag args) args"
  by (simp add: osc_message_def osc_msg_def)

lemma not_no_data [simp]: "\<not> no_data (osc_tag a)"
  by (cases a) (simp_all add: no_data_def)

lemma fmt_fits_tags [simp]: "fmt_fits (map osc_tag args) args"
  by (simp add: fmt_fits_def filter_map o_def)

lemma osc_tag_not_0: "osc_tag a \<noteq> CHR 0x00"
  by (cases a) simp_all

lemma fmt_fits_no_nul: "fmt_fits f args \<Longrightarrow> CHR 0x00 \<notin> set f"
proof
  assume f: "fmt_fits f args" and n: "CHR 0x00 \<in> set f"
  have "\<not> no_data (CHR 0x00)" by (simp add: no_data_def)
  with n have "CHR 0x00 \<in> set (filter (\<lambda>c. \<not> no_data c) f)" by simp
  with f osc_tag_not_0 show False by (force simp: fmt_fits_def)
qed

text \<open>Packets: messages, and bundles of packets each preceded by its size.\<close>

datatype osc_packet = Message string string "osc_arg list" | Bundle "64 word" "osc_packet list"

definition bundle_header :: "64 word \<Rightarrow> byte list" where
  "bundle_header t = bytes_of_string ''#bundle'' @ [0] @ enc_be 8 (unat t)"

definition osc_item :: "byte list \<Rightarrow> byte list" where
  "osc_item bs = enc_be 4 (length bs) @ bs"

fun packet_bytes :: "osc_packet \<Rightarrow> byte list" where
  "packet_bytes (Message p f args) = osc_msg p f args"
| "packet_bytes (Bundle t ps) = bundle_header t @ concat (map (\<lambda>p. osc_item (packet_bytes p)) ps)"

fun packet_wf :: "(string \<Rightarrow> bool) \<Rightarrow> osc_packet \<Rightarrow> bool" where
  "packet_wf chk (Message p f args) \<longleftrightarrow> chk p \<and> fmt_fits f args \<and> list_all osc_valid args"
| "packet_wf chk (Bundle t ps) \<longleftrightarrow>
     list_all (\<lambda>p. packet_wf chk p \<and> length (packet_bytes p) < 2 ^ 31) ps"

lemma length_bundle_header [simp]: "length (bundle_header t) = 16"
  by (simp add: bundle_header_def)

lemma length_osc_item [simp]: "length (osc_item bs) = 4 + length bs"
  by (simp add: osc_item_def)

definition put :: "nat \<Rightarrow> byte list option \<Rightarrow> byte list \<Rightarrow> byte list option" where
  "put cap w bs = (case w of None \<Rightarrow> None
     | Some b \<Rightarrow> if length b + length bs \<le> cap then Some (b @ bs) else None)"

text \<open>The first method whose path and format, where given, are those of the message.\<close>

definition method_for :: "(string option \<times> string option) list \<Rightarrow> string \<Rightarrow> string \<Rightarrow> nat option" where
  "method_for ms path fmt = find (\<lambda>k. (fst (ms ! k) = None \<or> fst (ms ! k) = Some path) \<and>
     (snd (ms ! k) = None \<or> snd (ms ! k) = Some fmt)) [0..<length ms]"

section \<open>The contract\<close>

locale osc_lib =
  fixes Q :: osc_ops
  assumes strlen: "osc_strlen Q s = length (osc_str s)"
    and padded_size: "osc_padded_size Q n = n + (4 - n mod 4) mod 4"
    and set_path: "osc_set_path Q cap w s = put cap w (osc_str s)"
    and set_fmt: "osc_set_fmt Q cap w f = put cap w (osc_tags f)"
    and set_arg: "osc_valid a \<Longrightarrow> osc_set_arg Q cap w a = put cap w (osc_enc a)"
    and get_arg: "osc_valid a \<Longrightarrow> osc_get_arg Q (osc_tag a) (osc_enc a @ rest) = (a, rest)"
    and skip_arg: "osc_valid a \<Longrightarrow> osc_skip Q (osc_tag a) (osc_enc a @ rest) = rest"
    and skip_none: "c \<in> set ''TFNI'' \<Longrightarrow> osc_skip Q c bs = bs"
    and get_path: "osc_check_path Q p \<Longrightarrow> osc_get_path Q (osc_str p @ rest) = (p, rest)"
    and get_tags: "CHR 0x00 \<notin> set f \<Longrightarrow> osc_get_fmt Q (osc_tags f @ rest) = (CHR '','' # f, rest)"
    and check_msg: "osc_check_path Q p \<Longrightarrow> fmt_fits f args \<Longrightarrow> list_all osc_valid args \<Longrightarrow>
      osc_check_message Q (osc_msg p f args)"
    and dispatch_msg: "osc_check_path Q p \<Longrightarrow> fmt_fits f args \<Longrightarrow> list_all osc_valid args \<Longrightarrow>
      osc_dispatch_method Q t (osc_msg p f args) ms =
        (case method_for ms p f of None \<Rightarrow> []
         | Some k \<Rightarrow> [Call t k p f (concat (map osc_enc args))])"
    and dispatch_bundle: "packet_wf (osc_check_path Q) (Bundle tt ps) \<Longrightarrow>
      osc_dispatch_method Q t (packet_bytes (Bundle tt ps)) ms =
        Bundle_In t # concat (map (\<lambda>p. osc_dispatch_method Q t (packet_bytes p) ms) ps) @ [Bundle_Out t]"
    and start_bundle: "length b + 16 \<le> cap \<Longrightarrow>
      osc_start_bundle Q cap (Some b) tt = (Some (length b), Some (b @ bundle_header tt))"
    and end_bundle: "e \<noteq> [] \<Longrightarrow> osc_end_bundle Q cap (Some (b @ bundle_header tt @ e)) (Some (length b)) =
      Some (b @ bundle_header tt @ e)"
    and start_item: "length b + 4 \<le> cap \<Longrightarrow>
      \<exists>g. length g = 4 \<and> osc_start_bundle_item Q cap (Some b) = (Some (length b), Some (b @ g))"
    and end_item: "length g = 4 \<Longrightarrow> e \<noteq> [] \<Longrightarrow>
      osc_end_bundle_item Q cap (Some (b @ g @ e)) (Some (length b)) = Some (b @ osc_item e)"
    and end_bundle_NULL: "osc_end_bundle Q cap None i = None"
    and set_vararg: "fmt_fits f args \<Longrightarrow> list_all osc_valid args \<Longrightarrow>
      osc_set_vararg Q cap p f args = put cap (Some []) (osc_msg p f args)"
    and check_packet: "osc_check_path Q p \<Longrightarrow> fmt_fits f args \<Longrightarrow> list_all osc_valid args \<Longrightarrow>
      osc_check_packet Q (osc_msg p f args)"
begin

lemma get_fmt: "osc_get_fmt Q (osc_tags (map osc_tag args) @ rest) = (CHR '','' # map osc_tag args, rest)"
  by (rule get_tags, rule fmt_fits_no_nul, rule fmt_fits_tags)

lemma check: "osc_check_path Q p \<Longrightarrow> list_all osc_valid args \<Longrightarrow> osc_check_message Q (osc_message p args)"
  by (simp add: osc_message_msg check_msg)

lemma dispatch: "osc_check_path Q p \<Longrightarrow> list_all osc_valid args \<Longrightarrow>
  osc_dispatch_method Q t (osc_message p args) ms =
    (case method_for ms p (map osc_tag args) of None \<Rightarrow> []
     | Some k \<Rightarrow> [Call t k p (map osc_tag args) (concat (map osc_enc args))])"
  by (simp add: osc_message_msg dispatch_msg)

end

lemma length_osc_str: "length (osc_str s) = (length s div 4 + 1) * 4"
proof -
  have "length s mod 4 < 4" by simp
  then have "length s + (4 - length s mod 4) = (length s div 4) * 4 + 4"
    using div_mult_mod_eq [of "length s" 4] by linarith
  then show ?thesis by (simp add: osc_str_def)
qed

lemma length_osc_tags: "length (osc_tags f) = (Suc (length f) div 4 + 1) * 4"
  by (simp add: osc_tags_def length_osc_str)

lemma put_Some [simp]: "put cap (Some b) bs = (if length b + length bs \<le> cap then Some (b @ bs) else None)"
  by (simp add: put_def)

text \<open>The next string of the arguments: \<open>osc_get_string\<close>.\<close>

definition osc_get_string :: "osc_ops \<Rightarrow> byte list \<Rightarrow> string \<times> byte list" where
  "osc_get_string Q bs = (case osc_get_arg Q (CHR ''s'') bs of (Osc_String s, rest) \<Rightarrow> (s, rest) | (_, rest) \<Rightarrow> ([], rest))"

context osc_lib
begin

lemma get_string: "CHR 0x00 \<notin> set s \<Longrightarrow> osc_get_string Q (osc_str s @ rest) = (s, rest)"
  using get_arg [of "Osc_String s" rest] by (simp add: osc_get_string_def)

lemma set_args:
  "list_all osc_valid args \<Longrightarrow> fold (\<lambda>a w. osc_set_arg Q cap w a) args (put cap (Some []) bs) =
    put cap (Some []) (bs @ concat (map osc_enc args))"
proof (induction args arbitrary: bs)
  case (Cons a args)
  have "osc_set_arg Q cap (put cap (Some []) bs) a = put cap (Some []) (bs @ osc_enc a)"
    using Cons.prems by (simp add: set_arg) (auto simp: put_def)
  with Cons show ?case by (simp del: put_Some)
qed simp

end

section \<open>A reference implementation\<close>

definition get_str :: "byte list \<Rightarrow> string \<times> byte list" where
  "get_str bs = (let s = string_of_bytes (takeWhile (\<lambda>b. b \<noteq> 0) bs) in (s, drop (length (osc_str s)) bs))"

lemma takeWhile_string:
  assumes "CHR 0x00 \<notin> set s"
  shows "takeWhile (\<lambda>b. b \<noteq> 0) (bytes_of_string s @ 0 # bs) = bytes_of_string s"
proof -
  have "of_char c \<noteq> (0 :: byte)" if "c \<in> set s" for c
  proof
    assume "of_char c = (0 :: byte)"
    then have "(of_char c :: nat) = of_char (CHR 0x00)" using unat_of_char_byte [of c] by simp
    then have "c = CHR 0x00" by (simp only: of_char_eq_iff)
    with that assms show False by simp
  qed
  then show ?thesis by (subst takeWhile_append2) (auto simp: bytes_of_string_def)
qed

lemma get_str_osc_str: "CHR 0x00 \<notin> set s \<Longrightarrow> get_str (osc_str s @ rest) = (s, rest)"
proof -
  assume s: "CHR 0x00 \<notin> set s"
  have "osc_str s @ rest = bytes_of_string s @ 0 # (replicate (3 - length s mod 4) 0 @ rest)"
  proof -
    have "length s mod 4 < 4" by simp
    then have "4 - length s mod 4 = Suc (3 - length s mod 4)" by linarith
    then show ?thesis by (simp add: osc_str_def)
  qed
  then have "takeWhile (\<lambda>b. b \<noteq> 0) (osc_str s @ rest) = bytes_of_string s"
    using takeWhile_string [OF s] by simp
  then show ?thesis by (simp add: get_str_def)
qed

definition dec_arg :: "char \<Rightarrow> byte list \<Rightarrow> osc_arg \<times> byte list" where
  "dec_arg c bs =
     (let n4 = dec_be (take 4 bs); n8 = dec_be (take 8 bs); str = get_str bs in
      if c = CHR ''i'' then (Osc_Int32 (of_nat n4), drop 4 bs)
      else if c = CHR ''f'' then (Osc_Float (of_nat n4), drop 4 bs)
      else if c = CHR ''s'' then (Osc_String (fst str), snd str)
      else if c = CHR ''b'' then (Osc_Blob (take n4 (drop 4 bs)), drop (4 + n4 + length (osc_pad n4)) bs)
      else if c = CHR ''h'' then (Osc_Int64 (of_nat n8), drop 8 bs)
      else if c = CHR ''d'' then (Osc_Double (of_nat n8), drop 8 bs)
      else if c = CHR ''t'' then (Osc_Timetag (of_nat n8), drop 8 bs)
      else if c = CHR ''S'' then (Osc_Symbol (fst str), snd str)
      else if c = CHR ''c'' then (Osc_Char (bs ! 3), drop 4 bs)
      else (Osc_Midi (take 4 bs), if c = CHR ''m'' then drop 4 bs else bs))"

lemma dec_enc_arg:
  assumes "osc_valid a"
  shows "dec_arg (osc_tag a) (osc_enc a @ rest) = (a, rest)"
  using assms
  by (cases a)
    (simp_all add: dec_arg_def Let_def get_str_osc_str add.assoc [symmetric])

text \<open>Dispatching: a bundle item by item, each of the size before it.\<close>

function ref_dispatch :: "(string option \<times> string option) list \<Rightarrow> nframes \<Rightarrow> byte list \<Rightarrow> osc_call list"
  and ref_items :: "(string option \<times> string option) list \<Rightarrow> nframes \<Rightarrow> byte list \<Rightarrow> osc_call list" where
  "ref_dispatch ms t bs =
     (if 16 \<le> length bs \<and> hd bs = 35 then Bundle_In t # ref_items ms t (drop 16 bs) @ [Bundle_Out t]
      else let (p, b1) = get_str bs; (f, args) = get_str b1
           in case method_for ms p (tl f) of None \<Rightarrow> [] | Some k \<Rightarrow> [Call t k p (tl f) args])"
| "ref_items ms t bs =
     (if length bs < 4 then []
      else let n = dec_be (take 4 bs)
           in ref_dispatch ms t (take n (drop 4 bs)) @ ref_items ms t (drop (4 + n) bs))"
  by pat_completeness auto
termination
  by (relation "measure (\<lambda>x. case x of Inl (ms, t, bs) \<Rightarrow> length bs | Inr (ms, t, bs) \<Rightarrow> length bs)") auto

declare ref_dispatch.simps [simp del] ref_items.simps [simp del]

definition osc_ref :: osc_ops where
  "osc_ref = \<lparr>
     osc_strlen = (\<lambda>s. length (osc_str s)),
     osc_padded_size = (\<lambda>n. n + (4 - n mod 4) mod 4),
     osc_set_path = (\<lambda>cap w s. put cap w (osc_str s)),
     osc_set_fmt = (\<lambda>cap w f. put cap w (osc_tags f)),
     osc_set_arg = (\<lambda>cap w a. put cap w (osc_enc a)),
     osc_get_arg = dec_arg,
     osc_skip = (\<lambda>c bs. snd (dec_arg c bs)),
     osc_get_path = get_str,
     osc_get_fmt = get_str,
     osc_check_path = (\<lambda>p. p \<noteq> [] \<and> hd p = CHR ''/'' \<and> CHR 0x00 \<notin> set p),
     osc_check_fmt = (\<lambda>f. set f \<subseteq> set ''ifsbhdtTFNIScm''),
     osc_check_message = (\<lambda>bs. bs \<noteq> [] \<and> hd bs = 47),
     osc_check_bundle = (\<lambda>bs. take 8 bs = bytes_of_string ''#bundle'' @ [0] \<and> 16 \<le> length bs),
     osc_dispatch_method = (\<lambda>t bs ms. ref_dispatch ms t bs),
     osc_start_bundle = (\<lambda>cap w tt. (map_option length w, put cap w (bundle_header tt))),
     osc_end_bundle = (\<lambda>cap w i. w),
     osc_start_bundle_item = (\<lambda>cap w. (map_option length w, put cap w [0, 0, 0, 0])),
     osc_end_bundle_item = (\<lambda>cap w i. case (w, i) of
         (Some b, Some k) \<Rightarrow> Some (take k b @ enc_be 4 (length b - (k + 4)) @ drop (k + 4) b)
       | _ \<Rightarrow> None),
     osc_set_vararg = (\<lambda>cap p f args. put cap (Some []) (osc_msg p f args)),
     osc_check_packet = (\<lambda>bs. bs \<noteq> [] \<and> (hd bs = 47 \<or> hd bs = 35))\<rparr>"

lemma ref_dispatch_msg:
  assumes p: "p \<noteq> []" "hd p = CHR ''/''" "CHR 0x00 \<notin> set p" and f: "fmt_fits f args"
  shows "ref_dispatch ms t (osc_msg p f args) =
    (case method_for ms p f of None \<Rightarrow> [] | Some k \<Rightarrow> [Call t k p f (concat (map osc_enc args))])"
proof -
  have "hd (osc_msg p f args) = 47"
    using p(1,2) by (cases p) (auto simp: osc_msg_def osc_str_def bytes_of_string_def)
  moreover have "get_str (osc_tags f @ rest) = (CHR '','' # f, rest)" for rest
    unfolding osc_tags_def using fmt_fits_no_nul [OF f] by (intro get_str_osc_str) simp
  ultimately show ?thesis
    unfolding osc_msg_def by (subst ref_dispatch.simps) (simp add: get_str_osc_str [OF p(3)] split: option.splits)
qed

lemma ref_items_eq:
  assumes "list_all (\<lambda>b. length b < 2 ^ 31) bs"
  shows "ref_items ms t (concat (map osc_item bs)) = concat (map (ref_dispatch ms t) bs)"
  using assms
proof (induction bs)
  case Nil
  then show ?case by (simp add: ref_items.simps)
next
  case (Cons b bs)
  let ?r = "concat (map osc_item bs)"
  have "length b < 256 ^ 4" using Cons.prems by simp
  then have "dec_be (take 4 (osc_item b @ ?r)) = length b" by (simp add: osc_item_def)
  moreover have "drop 4 (osc_item b @ ?r) = b @ ?r" "drop (4 + length b) (osc_item b @ ?r) = ?r"
    by (simp_all add: osc_item_def)
  ultimately show ?case
    using Cons by (simp add: ref_items.simps [of _ _ "osc_item b @ ?r"] Let_def)
qed

lemma ref_dispatch_bundle:
  assumes "packet_wf chk (Bundle tt ps)"
  shows "ref_dispatch ms t (packet_bytes (Bundle tt ps)) =
    Bundle_In t # concat (map (\<lambda>p. ref_dispatch ms t (packet_bytes p)) ps) @ [Bundle_Out t]"
proof -
  have h: "hd (packet_bytes (Bundle tt ps)) = 35"
    by (simp add: bundle_header_def bytes_of_string_def)
  have "concat (map (\<lambda>p. osc_item (packet_bytes p)) ps) = concat (map osc_item (map packet_bytes ps))"
    by (simp add: o_def)
  moreover have "list_all (\<lambda>b. length b < 2 ^ 31) (map packet_bytes ps)"
    using assms by (auto simp: list_all_iff)
  ultimately have "ref_items ms t (concat (map (\<lambda>p. osc_item (packet_bytes p)) ps)) =
      concat (map (\<lambda>p. ref_dispatch ms t (packet_bytes p)) ps)"
    by (simp only: ref_items_eq) (simp add: o_def)
  with h show ?thesis by (subst ref_dispatch.simps) simp
qed

lemma tags_no_nul: "CHR 0x00 \<notin> set (map osc_tag args)"
proof -
  have "CHR 0x00 \<noteq> osc_tag a" for a by (cases a) simp_all
  then show ?thesis by (simp add: image_iff)
qed

interpretation osc_ref: osc_lib osc_ref
proof
  show "osc_get_arg osc_ref (osc_tag a) (osc_enc a @ rest) = (a, rest)" if "osc_valid a" for a rest
    using dec_enc_arg [OF that] by (simp add: osc_ref_def)
  show "osc_skip osc_ref (osc_tag a) (osc_enc a @ rest) = rest" if "osc_valid a" for a rest
    using dec_enc_arg [OF that] by (simp add: osc_ref_def)
  show "osc_skip osc_ref c bs = bs" if "c \<in> set ''TFNI''" for c bs
    using that by (auto simp: osc_ref_def dec_arg_def Let_def)
  show "osc_get_path osc_ref (osc_str p @ rest) = (p, rest)" if "osc_check_path osc_ref p" for p rest
    using that get_str_osc_str [of p rest] by (simp add: osc_ref_def)
  show "osc_get_fmt osc_ref (osc_tags f @ rest) = (CHR '','' # f, rest)" if "CHR 0x00 \<notin> set f" for f rest
    unfolding osc_tags_def using that get_str_osc_str [of "CHR '','' # f" rest] by (simp add: osc_ref_def)
  show "osc_check_message osc_ref (osc_msg p f args)" if "osc_check_path osc_ref p" for p f args
    using that by (cases p) (auto simp: osc_ref_def osc_msg_def osc_str_def bytes_of_string_def)
  show "osc_check_packet osc_ref (osc_msg p f args)" if "osc_check_path osc_ref p" for p f args
    using that by (cases p) (auto simp: osc_ref_def osc_msg_def osc_str_def bytes_of_string_def)
  show "osc_dispatch_method osc_ref t (osc_msg p f args) ms =
        (case method_for ms p f of None \<Rightarrow> [] | Some k \<Rightarrow> [Call t k p f (concat (map osc_enc args))])"
    if "osc_check_path osc_ref p" "fmt_fits f args" for p f args t ms
    using that ref_dispatch_msg [of p f args ms t] by (simp add: osc_ref_def)
  show "osc_dispatch_method osc_ref t (packet_bytes (Bundle tt ps)) ms =
        Bundle_In t # concat (map (\<lambda>p. osc_dispatch_method osc_ref t (packet_bytes p) ms) ps) @ [Bundle_Out t]"
    if "packet_wf (osc_check_path osc_ref) (Bundle tt ps)" for tt ps t ms
    using ref_dispatch_bundle [OF that, of ms t] by (simp add: osc_ref_def)
qed (simp_all add: osc_ref_def osc_item_def)

end
