(* ===== verification/Control_Voltage.thy ===== *)
theory Control_Voltage
  imports Loopback Osc
begin

text \<open>
  The control voltage modules \<open>mod_cv_in.c\<close> and \<open>mod_cv_out.c\<close>: one turns the changes of an audio
  signal into OSC messages at the frame of each change, the other turns such messages back into a
  signal. Samples are IEEE single floats as bit patterns; the comparison \<open>!=\<close> of C is written out.
\<close>

section \<open>Samples\<close>

type_synonym sample = "32 word"

definition float_nan :: "sample \<Rightarrow> bool" where
  "float_nan x \<longleftrightarrow> x AND 0x7F800000 = 0x7F800000 \<and> x AND 0x007FFFFF \<noteq> 0"

definition float_zero :: "sample \<Rightarrow> bool" where
  "float_zero x \<longleftrightarrow> x AND 0x7FFFFFFF = 0"

definition float_ne :: "sample \<Rightarrow> sample \<Rightarrow> bool" where
  "float_ne x y \<longleftrightarrow> float_nan x \<or> float_nan y \<or> x \<noteq> y \<and> \<not> (float_zero x \<and> float_zero y)"

section \<open>From signal to messages\<close>

record cv_in_data =
  cvi_port :: bool
  cvi_value :: sample

definition cv_in_message :: "osc_ops \<Rightarrow> sample \<Rightarrow> byte list option" where
  "cv_in_message Q v =
     osc_set_arg Q 12 (osc_set_fmt Q 12 (osc_set_path Q 12 (Some []) ''/cv'') ''f'') (Osc_Float v)"

text \<open>The loop over the samples; \<open>None\<close> also where a setter answers NULL, which 12 bytes rule out.\<close>

fun cv_in_loop ::
  "osc_ops \<Rightarrow> ('t, 'r) env \<Rightarrow> addr \<Rightarrow> nframes \<Rightarrow> nframes \<Rightarrow> sample list \<Rightarrow> sample \<Rightarrow> ('t, 'r) host \<Rightarrow>
   (sample \<times> ('t, 'r) host) option" where
  "cv_in_loop Q E m last_t i [] v h = Some (v, h)"
| "cv_in_loop Q E m last_t i (x # xs) v h =
     (if float_ne x v then
        do { (a, h1) \<leftarrow> tjost_host_schedule_inline E h (Some m) (last_t + i) 12;
             bs \<leftarrow> cv_in_message Q x;
             cv_in_loop Q E m last_t (i + 1) xs x (store_event a bs h1) }
      else cv_in_loop Q E m last_t (i + 1) xs v h)"

definition cv_in_process_in ::
  "osc_ops \<Rightarrow> ('t, 'r) env \<Rightarrow> nframes \<Rightarrow> addr \<Rightarrow> sample list \<Rightarrow> cv_in_data \<times> ('t, 'r) host \<Rightarrow>
   (int \<times> cv_in_data \<times> ('t, 'r) host) option" where
  "cv_in_process_in Q E nframes m port_buf S =
     (if \<not> cvi_port (fst S) then Some (0, S)
      else if length port_buf < unat nframes then None
      else do { (v, h) \<leftarrow> cv_in_loop Q E m (last_frame (snd S)) 0 (take (unat nframes) port_buf)
                  (cvi_value (fst S)) (snd S);
                Some (0, (fst S)\<lparr>cvi_value := v\<rparr>, h) })"

section \<open>From messages to signal\<close>

record cv_out_data =
  cvo_port :: bool
  cvo_buf :: "sample list"
  cvo_time :: nframes
  cvo_value :: sample

text \<open>\<open>for(i=from; i<to; i++) port_buf[i] = value\<close>; an index past the buffer is a stray write.\<close>

definition cv_fill :: "sample list \<Rightarrow> nframes \<Rightarrow> nframes \<Rightarrow> sample \<Rightarrow> sample list option" where
  "cv_fill buf from to v =
     (if from < to \<and> length buf < unat to then None
      else Some (fold (\<lambda>i b. b[i := v]) [unat from..<unat to] buf))"

text \<open>\<open>_cv\<close>: fill up to the time of the message, then hold its value.\<close>

definition cv_out_cv :: "osc_ops \<Rightarrow> nframes \<Rightarrow> byte list \<Rightarrow> cv_out_data \<Rightarrow> cv_out_data option" where
  "cv_out_cv Q time buf dat =
     (case fst (osc_get_arg Q (CHR ''f'') buf) of
        Osc_Float v \<Rightarrow>
          do { b \<leftarrow> cv_fill (cvo_buf dat) (cvo_time dat) time (cvo_value dat);
               Some (dat\<lparr>cvo_buf := b, cvo_time := time, cvo_value := v\<rparr>) }
      | _ \<Rightarrow> None)"

fun cv_out_calls :: "osc_ops \<Rightarrow> osc_call list \<Rightarrow> cv_out_data \<Rightarrow> cv_out_data option" where
  "cv_out_calls Q [] dat = Some dat"
| "cv_out_calls Q (Call t k p f args # cs) dat = do { d \<leftarrow> cv_out_cv Q t args dat; cv_out_calls Q cs d }"
| "cv_out_calls Q (c # cs) dat = cv_out_calls Q cs dat"

definition cv_out_methods :: "(string option \<times> string option) list" where
  "cv_out_methods = [(Some ''/cv'', Some ''f'')]"

definition cv_out_body ::
  "osc_ops \<Rightarrow> nframes \<Rightarrow> event \<Rightarrow> cv_out_data \<times> ('t, 'r) host \<Rightarrow> (cv_out_data \<times> ('t, 'r) host) option" where
  "cv_out_body Q last_t tev S =
     do { d \<leftarrow> cv_out_calls Q (osc_dispatch_method Q (ev_time tev - last_t) (ev_buf tev) cv_out_methods) (fst S);
          Some (d, snd S) }"

definition cv_out_process_out ::
  "osc_ops \<Rightarrow> ('t, 'r) env \<Rightarrow> nframes \<Rightarrow> addr \<Rightarrow> sample list \<Rightarrow> cv_out_data \<times> ('t, 'r) host \<Rightarrow>
   (int \<times> cv_out_data \<times> ('t, 'r) host) option" where
  "cv_out_process_out Q E nframes m port_buf S =
     (if \<not> cvo_port (fst S) then Some (0, S)
      else let h = snd S; last_t = last_frame h; d0 = (fst S)\<lparr>cvo_buf := port_buf, cvo_time := 0\<rparr>
           in do {
             (d, h1) \<leftarrow> drain E ''cv_out'' last_t last_t nframes (Some m) (cv_out_body Q last_t)
                          (m_queue (module_at h m)) (d0, h);
             b \<leftarrow> cv_fill (cvo_buf d) (cvo_time d) nframes (cvo_value d);
             Some (0, d\<lparr>cvo_buf := b\<rparr>, h1) })"

section \<open>What they are meant to do\<close>

text \<open>The changes of a signal, and the signal that a list of changes describes.\<close>

fun cv_changes :: "nframes \<Rightarrow> sample list \<Rightarrow> sample \<Rightarrow> (nframes \<times> sample) list" where
  "cv_changes i [] v = []"
| "cv_changes i (x # xs) v = (if float_ne x v then (i, x) # cv_changes (i + 1) xs x else cv_changes (i + 1) xs v)"

fun cv_last :: "sample list \<Rightarrow> sample \<Rightarrow> sample" where
  "cv_last [] v = v"
| "cv_last (x # xs) v = cv_last xs (if float_ne x v then x else v)"

definition cv_events :: "addr option \<Rightarrow> nframes \<Rightarrow> (nframes \<times> sample) list \<Rightarrow> event list" where
  "cv_events m last_t cs = map (\<lambda>(i, v). mk_view m (last_t + i) (osc_message ''/cv'' [Osc_Float v])) cs"

text \<open>The signal held: each sample is the last change before or at it.\<close>

fun cv_held :: "sample list \<Rightarrow> sample \<Rightarrow> sample list" where
  "cv_held [] v = []"
| "cv_held (x # xs) v = (let w = (if float_ne x v then x else v) in w # cv_held xs w)"

lemma cv_message_length: "length (osc_message ''/cv'' [Osc_Float v]) = 12"
  by (simp add: osc_message_def length_osc_str length_osc_tags)

section \<open>Receiving the changes\<close>

lemma cv_in_message_eq: "osc_lib Q \<Longrightarrow> cv_in_message Q v = Some (osc_message ''/cv'' [Osc_Float v])"
  by (simp add: cv_in_message_def osc_lib.set_path osc_lib.set_fmt osc_lib.set_arg length_osc_str
      length_osc_tags osc_message_def)

context tjost_env
begin

lemma cv_in_loop_spec:
  assumes q: "osc_lib Q"
  shows "host_ok h \<Longrightarrow> cv_in_loop Q E m L i xs v h = Some (v', h') \<Longrightarrow>
    host_ok h' \<and> queue_frame h h' \<and> (used_inv h \<longrightarrow> used_inv h') \<and> v' = cv_last xs v \<and>
    view h' = (view h)(None := fold insert_event (cv_events (Some m) L (cv_changes i xs v)) (view h None))"
proof (induction xs arbitrary: i v h)
  case Nil
  then show ?case by (simp add: cv_events_def)
next
  case (Cons x xs)
  show ?case
  proof (cases "float_ne x v")
    case False
    with Cons.IH [OF Cons.prems(1)] Cons.prems(2) show ?thesis by simp
  next
    case True
    let ?bs = "osc_message ''/cv'' [Osc_Float x]"
    from True Cons.prems(2) obtain a h1 where a: "tjost_host_schedule_inline E h (Some m) (L + i) 12 = Some (a, h1)"
      and r: "cv_in_loop Q E m L (i + 1) xs x (store_event a ?bs h1) = Some (v', h')"
      by (auto simp: cv_in_message_eq [OF q] split: Option.bind_splits)
    note one = inline_event [OF Cons.prems(1) a cv_message_length]
    note ih = Cons.IH [OF one(1) r]
    have "queue_frame h h'" using queue_frame_trans [OF one(2)] ih by blast
    then show ?thesis using ih one(3) True unfolding one(4) by (auto simp: cv_events_def)
  qed
qed

end

section \<open>Filling the buffer\<close>

lemma fold_update:
  "t \<le> k \<Longrightarrow> k \<le> length b \<Longrightarrow>
   fold (\<lambda>i b. b[i := v]) [t..<k] b = take t b @ replicate (k - t) v @ drop k b"
proof (induction k)
  case 0
  then show ?case by simp
next
  case (Suc k)
  show ?case
  proof (cases "t = Suc k")
    case False
    with Suc.prems have k: "t \<le> k" "k < length b" by simp_all
    then have "fold (\<lambda>i b. b[i := v]) [t..<Suc k] b = (take t b @ replicate (k - t) v @ drop k b)[k := v]"
      using Suc.IH by simp
    also have "... = take t b @ replicate (k - t) v @ (drop k b)[0 := v]"
      using k by (simp add: list_update_append)
    also have "(drop k b)[0 := v] = v # drop (Suc k) b"
      using k by (simp add: Cons_nth_drop_Suc [symmetric])
    finally show ?thesis using k by (simp add: Suc_diff_le replicate_append_same [symmetric])
  qed simp
qed

lemma cv_fill_eq:
  assumes "from \<le> to" and "unat to \<le> length buf"
  shows "cv_fill buf from to v =
    Some (take (unat from) buf @ replicate (unat to - unat from) v @ drop (unat to) buf)"
proof -
  have "unat from \<le> unat to" using assms(1) by (simp add: word_le_nat_alt)
  then show ?thesis using assms fold_update [of "unat from" "unat to" buf v] by (simp add: cv_fill_def)
qed

definition cv_step :: "nframes \<times> sample \<Rightarrow> cv_out_data \<Rightarrow> cv_out_data" where
  "cv_step c d = d\<lparr>cvo_buf := take (unat (cvo_time d)) (cvo_buf d) @
      replicate (unat (fst c) - unat (cvo_time d)) (cvo_value d) @ drop (unat (fst c)) (cvo_buf d),
    cvo_time := fst c, cvo_value := snd c\<rparr>"

lemma cv_out_event:
  assumes q: "osc_lib Q" and p: "osc_check_path Q ''/cv''"
    and t: "cvo_time d \<le> i" "unat i \<le> length (cvo_buf d)"
  shows "cv_out_calls Q (osc_dispatch_method Q i (osc_message ''/cv'' [Osc_Float v]) cv_out_methods) d =
    Some (cv_step (i, v) d)"
proof -
  have m: "method_for cv_out_methods ''/cv'' ''f'' = Some 0"
    by (simp add: method_for_def cv_out_methods_def)
  have "osc_dispatch_method Q i (osc_message ''/cv'' [Osc_Float v]) cv_out_methods =
      [Call i 0 ''/cv'' ''f'' (osc_enc (Osc_Float v))]"
    using osc_lib.dispatch [OF q p, of "[Osc_Float v]" i cv_out_methods] m by simp
  moreover have "osc_get_arg Q (CHR ''f'') (osc_enc (Osc_Float v)) = (Osc_Float v, [])"
    using osc_lib.get_arg [OF q, of "Osc_Float v" "[]"] by simp
  ultimately show ?thesis using t by (simp add: cv_out_cv_def cv_fill_eq cv_step_def)
qed

lemma no_wrap:
  assumes "(i :: nframes) < n" and "L \<le> L + n"
  shows "L \<le> L + i" "L + i < L + n" "L + i - L = i" "unat (L + i) = unat L + unat i"
proof -
  have "unat L + unat n < 2 ^ 32"
  proof (rule ccontr)
    assume "\<not> unat L + unat n < 2 ^ 32"
    then have ge: "2 ^ 32 \<le> unat L + unat n" by simp
    have lt: "unat L < 2 ^ 32" "unat n < 2 ^ 32" by simp_all
    have "unat (L + n) = (unat L + unat n) mod 2 ^ 32" by (simp add: unat_word_ariths)
    also have "... = unat L + unat n - 2 ^ 32" unfolding le_mod_geq [OF ge] using lt by (intro mod_less) linarith
    finally show False using assms(2) lt ge unfolding word_le_nat_alt by linarith
  qed
  then have "unat (L + i) = unat L + unat i" "unat (L + n) = unat L + unat n"
    using assms(1) by (simp_all add: unat_word_ariths word_less_nat_alt)
  then show "L \<le> L + i" "L + i < L + n" "unat (L + i) = unat L + unat i" using assms(1) by (simp_all add: word_le_nat_alt word_less_nat_alt)
qed simp

lemma cv_out_drain:
  assumes q: "osc_lib Q" and p: "osc_check_path Q ''/cv''" and L: "L \<le> L + n"
  shows "map strip es = cv_events None L cs \<Longrightarrow> sorted_wrt (<) (map fst cs) \<Longrightarrow>
    \<forall>c\<in>set cs. cvo_time d \<le> fst c \<and> fst c < n \<Longrightarrow> length (cvo_buf d) = unat n \<Longrightarrow>
    \<exists>h'. drain E ''cv_out'' L L n (Some m) (cv_out_body Q L) es (d, h) = Some (fold cv_step cs d, h')"
proof (induction cs arbitrary: es d h)
  case Nil
  then show ?case by (simp add: cv_events_def)
next
  case (Cons c cs)
  obtain i v where c: "c = (i, v)" by fastforce
  from Cons.prems(1) obtain e es' where es: "es = e # es'"
    and e: "strip e = mk_view None (L + i) (osc_message ''/cv'' [Osc_Float v])"
    and es': "map strip es' = cv_events None L cs"
    by (auto simp: cv_events_def c)
  have et: "ev_time e = L + i" "ev_buf e = osc_message ''/cv'' [Osc_Float v]"
    using arg_cong [OF e, of ev_time] arg_cong [OF e, of ev_buf] by simp_all
  have i: "i < n" "cvo_time d \<le> i" using Cons.prems(3) by (simp_all add: c)
  note w = no_wrap [OF i(1) L]
  have "ev_time (stamped L L e) = L + i"
    using w(1) by (auto simp: stamped_def et word_le_0_iff)
  then obtain h1 where st: "stamp E ''cv_out'' L L e h = Some (stamped L L e, h1)"
    and et1: "ev_time (stamped L L e) = L + i"
    using stamp_total [of "''cv_out''" E L L e h] by auto
  have "unat i \<le> length (cvo_buf d)" using i(1) Cons.prems(4) by (simp add: word_less_nat_alt)
  note b = cv_out_event [OF q p i(2) this, of v]
  let ?d = "cv_step (i, v) d"
  have d: "cvo_time ?d = i" "length (cvo_buf ?d) = unat n"
    using i Cons.prems(4) by (simp_all add: cv_step_def word_less_nat_alt word_le_nat_alt)
  have "\<forall>c\<in>set cs. cvo_time ?d \<le> fst c \<and> fst c < n"
    using Cons.prems(2,3) by (auto simp: d(1) c)
  from Cons.IH [OF es' _ this d(2)] Cons.prems(2) obtain h' where
    "drain E ''cv_out'' L L n (Some m) (cv_out_body Q L) es'
      (?d, tjost_free E (dequeue (Some m) (ev_addr e) h1) (Some (ev_addr e))) = Some (fold cv_step cs ?d, h')"
    by auto
  moreover have "\<not> L + n \<le> ev_time e" using w(2) by (simp add: et)
  moreover have "cv_out_body Q L (stamped L L e) (d, h1) = Some (?d, h1)"
    using b by (simp add: cv_out_body_def et1 et(2) w(3))
  ultimately show ?case using st by (simp add: es c)
qed

lemma changes_sorted:
  "unat i + length xs < 2 ^ 32 \<Longrightarrow>
   sorted_wrt (<) (map fst (cv_changes i xs v)) \<and>
   (\<forall>c\<in>set (cv_changes i xs v). i \<le> fst c \<and> unat (fst c) < unat i + length xs)"
proof (induction xs arbitrary: i v)
  case (Cons x xs)
  then have i: "unat (i + 1) = unat i + 1" by (simp add: unat_word_ariths)
  with Cons.prems have "unat (i + 1) + length xs < 2 ^ 32" by simp
  note ih = Cons.IH [OF this]
  have lt: "i < c \<and> i \<le> c" if "i + 1 \<le> c" for c
    using that i by (simp add: word_le_nat_alt word_less_nat_alt)
  have w: "i < fst c \<and> i \<le> fst c \<and> unat (fst c) < unat i + length (x # xs)"
    if "c \<in> set (cv_changes (i + 1) xs w)" for c w
    using that ih [of w] i lt [of "fst c"] by auto
  show ?case
  proof (cases "float_ne x v")
    case True
    have "\<forall>y\<in>set (map fst (cv_changes (i + 1) xs x)). i < y" using w [of _ x] by auto
    with True ih [of x] w [of _ x] show ?thesis by auto
  next
    case False
    with ih [of v] w [of _ v] show ?thesis by auto
  qed
qed simp

lemma fold_steps_held:
  "length b = unat i + length xs \<Longrightarrow> unat i + length xs < 2 ^ 32 \<Longrightarrow> t \<le> i \<Longrightarrow>
   cvo_buf d = b \<Longrightarrow> cvo_time d = t \<Longrightarrow> cvo_value d = v \<Longrightarrow>
   (let d' = fold cv_step (cv_changes i xs v) d
    in cvo_time d' \<le> i + of_nat (length xs) \<and> length (cvo_buf d') = length b \<and>
       cvo_value d' = cv_last xs v \<and>
       take (unat (cvo_time d')) (cvo_buf d') @
         replicate (unat i + length xs - unat (cvo_time d')) (cvo_value d') =
       take (unat t) b @ replicate (unat i - unat t) v @ cv_held xs v)"
proof (induction xs arbitrary: i t b v d)
  case Nil
  then show ?case by simp
next
  case (Cons x xs)
  have i: "unat (i + 1) = unat i + 1" using Cons.prems(2) by (simp add: unat_word_ariths)
  have l: "unat (i + 1) + length xs < 2 ^ 32" "length b = unat (i + 1) + length xs"
    using Cons.prems(1,2) i by simp_all
  have le: "unat t \<le> unat i" "i \<le> i + 1" using Cons.prems(3) i by (simp_all add: word_le_nat_alt)
  show ?case
  proof (cases "float_ne x v")
    case False
    have "t \<le> i + 1" using Cons.prems(3) le(2) by (rule order.trans)
    have r: "replicate (unat (i + 1) - unat t) v @ cv_held xs v = replicate (unat i - unat t) v @ v # cv_held xs v"
      using le i by (simp add: Suc_diff_le replicate_append_same [symmetric])
    from Cons.IH [OF l(2,1) \<open>t \<le> i + 1\<close> Cons.prems(4-6)] False i show ?thesis
      unfolding r by (auto simp: Let_def add.assoc)
  next
    case True
    let ?d = "cv_step (i, x) d"
    have d: "length (cvo_buf ?d) = unat (i + 1) + length xs" "cvo_time ?d = i" "cvo_value ?d = x"
      "take (unat i) (cvo_buf ?d) = take (unat t) b @ replicate (unat i - unat t) v"
      using Cons.prems le i by (simp_all add: cv_step_def)
    from Cons.IH [OF d(1) l(1) le(2) refl d(2,3)] True i d(1,4) Cons.prems(1) show ?thesis
      by (auto simp: Let_def add.assoc)
  qed
qed

lemma cv_held_ok:
  "length (cv_held xs v) = length xs \<and> (\<forall>k<length xs. \<not> float_ne (cv_held xs v ! k) (xs ! k) \<or> cv_held xs v ! k = xs ! k)"
proof (induction xs arbitrary: v)
  case (Cons x xs)
  have "\<not> float_ne v x" if "\<not> float_ne x v" using that by (auto simp: float_ne_def)
  with Cons show ?case by (auto simp: Let_def nth_Cons split: nat.splits)
qed simp

text \<open>A queue that holds the changes of a signal plays the signal held.\<close>

lemma cv_out_plays:
  assumes q: "osc_lib Q" and p: "osc_check_path Q ''/cv''"
    and L: "last_frame h \<le> last_frame h + n" and n: "length xs = unat n" "length port_buf = unat n"
    and dat: "cvo_port dat" "cvo_value dat = v"
    and es: "view h (Some m) = cv_events None (last_frame h) (cv_changes 0 xs v)"
  shows "\<exists>dat' h'. cv_out_process_out Q E n m port_buf (dat, h) = Some (0, dat', h') \<and>
    cvo_buf dat' = cv_held xs v \<and> cvo_value dat' = cv_last xs v"
proof -
  let ?cs = "cv_changes 0 xs v" and ?start = "dat\<lparr>cvo_buf := port_buf, cvo_time := 0\<rparr>"
  let ?d = "fold cv_step ?cs ?start"
  have len: "unat (0 :: nframes) + length xs < 2 ^ 32" by (simp add: n)
  note cs = changes_sorted [OF len, of v]
  have qs: "map strip (m_queue (module_at h m)) = cv_events None (last_frame h) ?cs"
    using es by (simp add: view_def)
  have "\<forall>c\<in>set ?cs. cvo_time ?start \<le> fst c \<and> fst c < n" using cs n(1) by (auto simp: word_less_nat_alt)
  from cv_out_drain [OF q p L qs _ this] cs n(2) obtain h' where
    dr: "drain E ''cv_out'' (last_frame h) (last_frame h) n (Some m) (cv_out_body Q (last_frame h))
      (m_queue (module_at h m)) (?start, h) = Some (?d, h')" by fastforce
  have f: "cvo_time ?d \<le> of_nat (length xs) \<and> length (cvo_buf ?d) = length xs \<and> cvo_value ?d = cv_last xs v \<and>
      take (unat (cvo_time ?d)) (cvo_buf ?d) @ replicate (length xs - unat (cvo_time ?d)) (cvo_value ?d) =
      cv_held xs v"
    using fold_steps_held [of port_buf 0 xs 0 ?start v] n dat(2) by (auto simp: Let_def)
  have nn: "of_nat (length xs) = n" using n(1) by simp
  have "cv_fill (cvo_buf ?d) (cvo_time ?d) n (cvo_value ?d) = Some (cv_held xs v)"
    using f n(1) cv_fill_eq [of "cvo_time ?d" n "cvo_buf ?d" "cvo_value ?d"] unfolding nn by auto
  with dr dat(1) f show ?thesis by (simp add: cv_out_process_out_def Let_def)
qed

lemma insert_sorted_events:
  "by_time (es @ map f cs) \<Longrightarrow> fold insert_event (map f cs) es = es @ map f cs"
proof (induction cs arbitrary: es)
  case (Cons c cs)
  have "\<forall>x\<in>set es. ev_time x \<le> ev_time (f c)" using Cons.prems by (auto simp: sorted_wrt_append)
  then have "insert_event (f c) es = es @ [f c]"
    by (simp add: insert_event_def takeWhile_eq_all_conv [THEN iffD2] dropWhile_eq_Nil_conv [THEN iffD2])
  with Cons.IH [of "es @ [f c]"] Cons.prems show ?case by simp
qed simp

lemma cv_events_sorted:
  assumes "L \<le> L + n" and "length xs = unat n"
  shows "by_time (cv_events m L (cv_changes 0 xs v))"
proof -
  have "unat (0 :: nframes) + length xs < 2 ^ 32" using assms(2) by simp
  note cs = changes_sorted [OF this, of v]
  have le: "L + fst c \<le> L + fst c'"
    if "c \<in> set (cv_changes 0 xs v)" "c' \<in> set (cv_changes 0 xs v)" "fst c < fst c'" for c c'
  proof -
    have "fst c < n" "fst c' < n" using cs that assms(2) by (auto simp: word_less_nat_alt)
    with that(3) show ?thesis
      using no_wrap(4) [of "fst c" n L] no_wrap(4) [of "fst c'" n L] assms(1)
      by (simp add: word_le_nat_alt word_less_nat_alt)
  qed
  have "sorted_wrt (\<lambda>c c'. fst c < fst c') (cv_changes 0 xs v)"
    using cs by (simp add: sorted_wrt_map)
  from sorted_wrt_mono_rel [OF le this]
  have "sorted_wrt (\<lambda>c c'. L + fst c \<le> L + fst c') (cv_changes 0 xs v)" .
  then show ?thesis by (simp add: cv_events_def sorted_wrt_map case_prod_beta)
qed

end
