(* ===== verification/Midi.thy ===== *)
theory Midi
  imports Loopback Osc
begin

text \<open>
  The MIDI modules: \<open>mod_midi_in.c\<close> bundles the MIDI events of a JACK port into OSC messages,
  \<open>mod_midi_out.c\<close> writes the MIDI arguments of OSC messages to a JACK port, and the callbacks
  \<open>_midi\<close> of \<open>mod_seq_out.c\<close> and \<open>mod_rtmidi_out.c\<close> send them to a sequencer or a device.
\<close>

section \<open>From the port to messages\<close>

type_synonym midi_event = "nframes \<times> byte list"

text \<open>Three bytes are read of every event; a shorter event is read past its end (\<open>None\<close>).\<close>

definition midi_arg :: "byte list \<Rightarrow> osc_arg option" where
  "midi_arg b = (if length b < 3 then None else Some (Osc_Midi [0, b ! 0, b ! 1, b ! 2]))"

text \<open>The format string as the code writes it, with no check: a comma, \<open>N\<close> tags, the padding.\<close>

definition midi_fmt :: "nat \<Rightarrow> byte list" where
  "midi_fmt N = [44] @ replicate N 109 @ [0] @ osc_pad (N + 2)"

fun midi_set_args :: "osc_ops \<Rightarrow> nat \<Rightarrow> byte list option \<Rightarrow> byte list list \<Rightarrow> byte list option option" where
  "midi_set_args Q cap w [] = Some w"
| "midi_set_args Q cap w (b # bs) =
     do { a \<leftarrow> midi_arg b; midi_set_args Q cap (osc_set_arg Q cap w a) bs }"

definition midi_len :: "osc_ops \<Rightarrow> nat \<Rightarrow> nat" where
  "midi_len Q N = osc_strlen Q ''/midi'' + osc_padded_size Q (N + 2) + N * 4"

definition midi_message :: "osc_ops \<Rightarrow> byte list list \<Rightarrow> byte list option" where
  "midi_message Q bs =
     (let N = length bs; len = midi_len Q N
      in do { w \<leftarrow> osc_set_path Q len (Some []) ''/midi'';
              r \<leftarrow> (if length (w @ midi_fmt N) \<le> len then midi_set_args Q len (Some (w @ midi_fmt N)) bs else None);
              r })"

text \<open>
  The loop over the events of the period. \<open>is\<close> are the indices still to visit; the last round
  increments \<open>i\<close> once more and ends the loop. After a message \<open>mev\<close> is the last event that went into
  it, so \<open>last_time\<close> is the time of that one.
\<close>

fun midi_in_loop ::
  "osc_ops \<Rightarrow> ('t, 'r) env \<Rightarrow> addr \<Rightarrow> nframes \<Rightarrow> midi_event list \<Rightarrow> nat \<Rightarrow> nframes \<Rightarrow> nat list \<Rightarrow>
   ('t, 'r) host \<Rightarrow> ('t, 'r) host option" where
  "midi_in_loop Q E m last_t evs last_i last_time [] h = Some h"
| "midi_in_loop Q E m last_t evs last_i last_time (i # is) h =
     (let n = length evs; mev = evs ! i;
          (li, lt) = (if i = 0 then (i, fst mev) else (last_i, last_time))
      in if fst mev > lt \<or> i = n - 1 then
           let i' = (if i = n - 1 then i + 1 else i);
               group = map snd (take (i' - li) (drop li evs))
           in do {
             (a, h1) \<leftarrow> tjost_host_schedule_inline E h (Some m) (fst mev + last_t) (midi_len Q (length group));
             bs \<leftarrow> midi_message Q group;
             midi_in_loop Q E m last_t evs i' (fst (evs ! (i' - 1))) is (store_event a bs h1) }
         else midi_in_loop Q E m last_t evs li lt is h)"

definition midi_in_process_in ::
  "osc_ops \<Rightarrow> ('t, 'r) env \<Rightarrow> bool \<Rightarrow> midi_event list \<Rightarrow> addr \<Rightarrow> ('t, 'r) host \<Rightarrow> (int \<times> ('t, 'r) host) option" where
  "midi_in_process_in Q E port evs m h =
     (if \<not> port then Some (0, h)
      else do { h1 \<leftarrow> midi_in_loop Q E m (last_frame h) evs 0 0 [0..<length evs] h; Some (0, h1) })"

section \<open>From messages to the port\<close>

record 'b midi_port_ops =
  jack_midi_max_event_size :: "'b \<Rightarrow> nat"
  jack_midi_event_write :: "'b \<Rightarrow> nframes \<Rightarrow> byte list \<Rightarrow> 'b"

text \<open>The three bytes of a MIDI argument (port byte dropped); other argument types have no such bytes.\<close>

definition midi_bytes :: "osc_arg \<Rightarrow> byte list" where
  "midi_bytes a = (case a of Osc_Midi M \<Rightarrow> [M ! 1, M ! 2, M ! 3] | _ \<Rightarrow> [])"

fun midi_out_args ::
  "osc_ops \<Rightarrow> 'b midi_port_ops \<Rightarrow> ('t, 'r) env \<Rightarrow> nframes \<Rightarrow> string \<Rightarrow> byte list \<Rightarrow> 'b \<times> ('t, 'r) host \<Rightarrow>
   ('b \<times> ('t, 'r) host) option" where
  "midi_out_args Q K E time [] p S = Some S"
| "midi_out_args Q K E time (c # cs) p S =
     (if c = CHR ''m'' then
        let (a, p1) = osc_get_arg Q c p
        in if jack_midi_max_event_size K (fst S) < 3
           then do { h1 \<leftarrow> tjost_host_message_push E (snd S) ''midi_out: buffer overflow'';
                     midi_out_args Q K E time cs p1 (fst S, h1) }
           else midi_out_args Q K E time cs p1 (jack_midi_event_write K (fst S) time (midi_bytes a), snd S)
      else midi_out_args Q K E time cs (osc_skip Q c p) S)"

fun midi_out_calls ::
  "osc_ops \<Rightarrow> 'b midi_port_ops \<Rightarrow> ('t, 'r) env \<Rightarrow> osc_call list \<Rightarrow> 'b \<times> ('t, 'r) host \<Rightarrow>
   ('b \<times> ('t, 'r) host) option" where
  "midi_out_calls Q K E [] S = Some S"
| "midi_out_calls Q K E (Call t k p f args # cs) S =
     do { S1 \<leftarrow> midi_out_args Q K E t f args S; midi_out_calls Q K E cs S1 }"
| "midi_out_calls Q K E (c # cs) S = midi_out_calls Q K E cs S"

definition any_method :: "(string option \<times> string option) list" where
  "any_method = [(None, None)]"

definition midi_out_body ::
  "osc_ops \<Rightarrow> 'b midi_port_ops \<Rightarrow> ('t, 'r) env \<Rightarrow> nframes \<Rightarrow> event \<Rightarrow> 'b \<times> ('t, 'r) host \<Rightarrow>
   ('b \<times> ('t, 'r) host) option" where
  "midi_out_body Q K E last_t tev S =
     midi_out_calls Q K E (osc_dispatch_method Q (ev_time tev - last_t) (ev_buf tev) any_method) S"

text \<open>\<open>port_buf\<close> is the cleared buffer of the port.\<close>

definition midi_out_process_out ::
  "osc_ops \<Rightarrow> 'b midi_port_ops \<Rightarrow> ('t, 'r) env \<Rightarrow> bool \<Rightarrow> nframes \<Rightarrow> addr \<Rightarrow> 'b \<Rightarrow> ('t, 'r) host \<Rightarrow>
   (int \<times> 'b \<times> ('t, 'r) host) option" where
  "midi_out_process_out Q K E port nframes m port_buf h =
     (if \<not> port then Some (0, port_buf, h)
      else do { (b, h1) \<leftarrow> drain E ''midi_out'' (last_frame h) (last_frame h) nframes (Some m)
                  (midi_out_body Q K E (last_frame h)) (m_queue (module_at h m)) (port_buf, h);
                Some (0, b, h1) })"

section \<open>From messages to a sequencer or a device\<close>

text \<open>
  \<open>_midi\<close> of \<open>mod_seq_out.c\<close> and of \<open>mod_rtmidi_out.c\<close>: the three-byte messages handed to
  \<open>snd_midi_event_encode\<close> or \<open>rtmidic_out_send_message\<close>. The case of a MIDI argument has no \<open>break\<close>
  and runs on into the default, which skips one more argument. \<open>p\<close> is the memory from the first
  argument on; it goes on behind the message.
\<close>

fun seq_midi :: "osc_ops \<Rightarrow> string \<Rightarrow> byte list \<Rightarrow> byte list list" where
  "seq_midi Q [] p = []"
| "seq_midi Q (c # cs) p =
     (if c = CHR ''m'' then
        let (a, p1) = osc_get_arg Q c p in midi_bytes a # seq_midi Q cs (osc_skip Q c p1)
      else seq_midi Q cs (osc_skip Q c p))"

definition rtmidi_midi :: "osc_ops \<Rightarrow> string \<Rightarrow> byte list \<Rightarrow> byte list list" where
  "rtmidi_midi Q fmt p = seq_midi Q fmt p"

section \<open>What goes into the messages\<close>

text \<open>The messages as times and groups of events.\<close>

fun midi_groups :: "midi_event list \<Rightarrow> nat \<Rightarrow> nframes \<Rightarrow> nat list \<Rightarrow> (nframes \<times> byte list list) list" where
  "midi_groups evs last_i last_time [] = []"
| "midi_groups evs last_i last_time (i # is) =
     (let n = length evs; mev = evs ! i;
          (li, lt) = (if i = 0 then (i, fst mev) else (last_i, last_time))
      in if fst mev > lt \<or> i = n - 1 then
           let i' = (if i = n - 1 then i + 1 else i)
           in (fst mev, map snd (take (i' - li) (drop li evs))) # midi_groups evs i' (fst (evs ! (i' - 1))) is
         else midi_groups evs li lt is)"

definition midi_args :: "byte list list \<Rightarrow> osc_arg list" where
  "midi_args bs = map (\<lambda>b. Osc_Midi [0, b ! 0, b ! 1, b ! 2]) bs"

lemma midi_args_valid: "list_all osc_valid (midi_args bs)"
  by (simp add: midi_args_def list_all_iff)

lemma midi_tags: "map osc_tag (midi_args bs) = replicate (length bs) (CHR ''m'')"
  by (simp add: midi_args_def o_def map_replicate_const)

lemma midi_fmt_tags: "midi_fmt N = osc_tags (replicate N (CHR ''m''))"
proof -
  have "(N + 2) mod 4 = (if Suc N mod 4 = 3 then 0 else Suc (Suc N mod 4))" by (simp add: mod_Suc)
  moreover have "Suc N mod 4 < 4" by simp
  ultimately have "(4 - (N + 2) mod 4) mod 4 = 3 - Suc N mod 4" "4 - Suc N mod 4 = Suc (3 - Suc N mod 4)" by auto
  then show ?thesis by (simp add: midi_fmt_def osc_tags_def osc_str_def osc_pad_def bytes_of_string_def)
qed

lemma midi_set_args_eq:
  assumes q: "osc_lib Q"
  shows "length w + 4 * length bs \<le> cap \<Longrightarrow> midi_set_args Q cap (Some w) bs =
    (if \<forall>b\<in>set bs. 3 \<le> length b then Some (Some (w @ concat (map osc_enc (midi_args bs)))) else None)"
proof (induction bs arbitrary: w)
  case (Cons b bs)
  show ?case
  proof (cases "3 \<le> length b")
    case True
    let ?a = "Osc_Midi [0, b ! 0, b ! 1, b ! 2]"
    have "osc_set_arg Q cap (Some w) ?a = Some (w @ [0, b ! 0, b ! 1, b ! 2])"
      using osc_lib.set_arg [OF q, of ?a cap "Some w"] Cons.prems by simp
    with True Cons.IH [of "w @ [0, b ! 0, b ! 1, b ! 2]"] Cons.prems show ?thesis
      by (simp add: midi_arg_def midi_args_def)
  qed (simp add: midi_arg_def)
qed (simp add: midi_args_def)

lemma length_midi_encs: "length (concat (map osc_enc (midi_args bs))) = 4 * length bs"
  by (induction bs) (simp_all add: midi_args_def)

lemma midi_len_eq: "osc_lib Q \<Longrightarrow> midi_len Q (length bs) = length (osc_message ''/midi'' (midi_args bs))"
  using arg_cong [OF midi_fmt_tags [of "length bs"], of length]
  by (simp add: midi_len_def osc_lib.strlen osc_lib.padded_size osc_message_def midi_tags
      length_midi_encs midi_fmt_def osc_pad_def)

lemma midi_message_eq:
  assumes q: "osc_lib Q"
  shows "midi_message Q bs =
    (if \<forall>b\<in>set bs. 3 \<le> length b then Some (osc_message ''/midi'' (midi_args bs)) else None)"
proof -
  let ?len = "midi_len Q (length bs)" and ?w = "osc_str ''/midi'' @ midi_fmt (length bs)"
  have len: "?len = length ?w + 4 * length bs"
    by (simp add: midi_len_eq [OF q] osc_message_def midi_tags length_midi_encs midi_fmt_tags)
  then have "osc_set_path Q ?len (Some []) ''/midi'' = Some (osc_str ''/midi'')"
    by (simp add: osc_lib.set_path [OF q])
  then show ?thesis
    using midi_set_args_eq [OF q, of ?w bs ?len] len
    by (simp add: midi_message_def Let_def osc_message_def midi_tags midi_fmt_tags)
qed

text \<open>No event is lost, and their order is kept.\<close>

lemma midi_groups_all:
  "k < length evs \<and> li \<le> k \<or> k = length evs \<and> li = k \<Longrightarrow>
   concat (map snd (midi_groups evs li lt [k..<length evs])) = map snd (drop (if k = 0 then 0 else li) evs)"
proof (induction "length evs - k" arbitrary: k li lt)
  case 0
  then show ?case by simp
next
  case (Suc d)
  then have k: "k < length evs" by simp
  let ?n = "length evs"
  let ?li = "if k = 0 then 0 else li" and ?lt = "if k = 0 then fst (evs ! 0) else lt"
  have li: "?li \<le> k" using Suc.prems k by auto
  have u: "[k..<?n] = k # [Suc k..<?n]" using k by (rule upt_conv_Cons)
  show ?case
  proof (cases "k = ?n - 1")
    case True
    then have "midi_groups evs li lt [k..<?n] =
        [(fst (evs ! k), map snd (take (k + 1 - ?li) (drop ?li evs)))]"
      unfolding u using k by (cases "k = 0") simp_all
    then show ?thesis using True k li by simp
  next
    case False
    then have sk: "Suc k < ?n" using k by simp
    have d: "d = ?n - Suc k" using Suc(2) by simp
    show ?thesis
    proof (cases "fst (evs ! k) > ?lt")
      case True
      have "Suc k < ?n \<and> k \<le> Suc k \<or> Suc k = ?n \<and> k = Suc k" using sk by simp
      from Suc.hyps(1) [OF d this, of "fst (evs ! (k - 1))"]
      have "concat (map snd (midi_groups evs k (fst (evs ! (k - 1))) [Suc k..<?n])) = map snd (drop k evs)"
        by simp
      moreover have "take (k - ?li) (drop ?li evs) @ drop k evs = drop ?li evs"
        using append_take_drop_id [of "k - ?li" "drop ?li evs"] li by (simp only: drop_drop le_add_diff_inverse2)
      then have "map snd (take (k - ?li) (drop ?li evs)) @ map snd (drop k evs) = map snd (drop ?li evs)"
        by (metis map_append)
      ultimately show ?thesis using True False k by (auto simp: u Let_def)
    next
      case nt: False
      have "Suc k < ?n \<and> ?li \<le> Suc k \<or> Suc k = ?n \<and> ?li = Suc k" using sk li by simp
      from Suc.hyps(1) [OF d this, of ?lt] nt False k show ?thesis by (auto simp: u Let_def)
    qed
  qed
qed

text \<open>The messages that are queued.\<close>

definition midi_events :: "addr option \<Rightarrow> nframes \<Rightarrow> (nframes \<times> byte list list) list \<Rightarrow> event list" where
  "midi_events m L gs = map (\<lambda>(t, bs). mk_view m (t + L) (osc_message ''/midi'' (midi_args bs))) gs"

context tjost_env
begin

lemma midi_in_loop_spec:
  assumes q: "osc_lib Q"
  shows "host_ok h \<Longrightarrow> midi_in_loop Q E m L evs li lt is h = Some h' \<Longrightarrow>
    host_ok h' \<and> queue_frame h h' \<and> (used_inv h \<longrightarrow> used_inv h') \<and>
    view h' = (view h)(None := fold insert_event (midi_events (Some m) L (midi_groups evs li lt is)) (view h None))"
proof (induction "is" arbitrary: h li lt)
  case Nil
  then show ?case by (simp add: midi_events_def)
next
  case (Cons i "is")
  let ?n = "length evs"
  let ?li = "if i = 0 then i else li" and ?lt = "if i = 0 then fst (evs ! i) else lt"
  show ?case
  proof (cases "fst (evs ! i) > ?lt \<or> i = ?n - 1")
    case False
    then have "midi_in_loop Q E m L evs ?li ?lt is h = Some h'" using Cons.prems(2) by (auto simp: Let_def split: if_splits)
    from Cons.IH [OF Cons.prems(1) this] False show ?thesis by (auto simp: Let_def split: if_splits)
  next
    case True
    let ?i = "if i = ?n - 1 then i + 1 else i"
    let ?g = "map snd (take (?i - ?li) (drop ?li evs))"
    have l: "midi_in_loop Q E m L evs li lt (i # is) h =
      do { (a, h1) \<leftarrow> tjost_host_schedule_inline E h (Some m) (fst (evs ! i) + L) (midi_len Q (length ?g));
           bs \<leftarrow> midi_message Q ?g;
           midi_in_loop Q E m L evs ?i (fst (evs ! (?i - 1))) is (store_event a bs h1) }"
      unfolding midi_in_loop.simps Let_def using True by (cases "i = 0"; cases "i = ?n - 1") simp_all
    have g: "midi_groups evs li lt (i # is) = (fst (evs ! i), ?g) # midi_groups evs ?i (fst (evs ! (?i - 1))) is"
      unfolding midi_groups.simps Let_def using True by (cases "i = 0"; cases "i = ?n - 1") simp_all
    from Cons.prems(2) [unfolded l] obtain a h1 where
      a: "tjost_host_schedule_inline E h (Some m) (fst (evs ! i) + L) (midi_len Q (length ?g)) = Some (a, h1)"
      and r: "midi_in_loop Q E m L evs ?i (fst (evs ! (?i - 1))) is
        (store_event a (osc_message ''/midi'' (midi_args ?g)) h1) = Some h'"
      unfolding midi_message_eq [OF q] by (auto split: Option.bind_splits if_splits)
    note one = inline_event [OF Cons.prems(1) a midi_len_eq [OF q, symmetric]]
    note ih = Cons.IH [OF one(1) r]
    have "queue_frame h h'" using queue_frame_trans [OF one(2)] ih by blast
    moreover have "view h' = (view h)(None := fold insert_event (midi_events (Some m) L
        (midi_groups evs li lt (i # is))) (view h None))"
      using ih unfolding one(4) g by (auto simp: midi_events_def)
    ultimately show ?thesis using ih one(3) by blast
  qed
qed

end

section \<open>Writing the messages\<close>

lemma midi_out_args_eq:
  assumes q: "osc_lib Q" and room: "\<And>b. 3 \<le> jack_midi_max_event_size K b"
  shows "midi_out_args Q K E t (map osc_tag (midi_args bs)) (concat (map osc_enc (midi_args bs))) (B, h) =
    Some (fold (\<lambda>b B. jack_midi_event_write K B t [b ! 0, b ! 1, b ! 2]) bs B, h)"
proof (induction bs arbitrary: B)
  case (Cons b bs)
  let ?a = "Osc_Midi [0, b ! 0, b ! 1, b ! 2]"
  have "osc_get_arg Q (CHR ''m'') ([0, b ! 0, b ! 1, b ! 2] @ rest) = (?a, rest)" for rest
    using osc_lib.get_arg [OF q, of ?a rest] by simp
  with Cons.IH show ?case using room [of B] by (simp add: midi_args_def midi_bytes_def)
qed (simp add: midi_args_def)

fun every_other :: "'a list \<Rightarrow> 'a list" where
  "every_other [] = []"
| "every_other [x] = [x]"
| "every_other (x # y # xs) = x # every_other xs"

text \<open>The bytes in memory as groups of four, the ones behind the message included.\<close>

lemma seq_midi_eq:
  assumes q: "osc_lib Q"
  shows "length Ms = 2 * k \<Longrightarrow> \<forall>M\<in>set Ms. length M = 4 \<Longrightarrow>
    seq_midi Q (replicate k (CHR ''m'')) (concat Ms) = map (\<lambda>M. [M ! 1, M ! 2, M ! 3]) (every_other Ms)"
proof (induction Ms arbitrary: k rule: every_other.induct)
  case (3 M N Ms)
  have m: "osc_valid (Osc_Midi M)" "osc_valid (Osc_Midi N)" using 3(3) by simp_all
  have "osc_get_arg Q (CHR ''m'') (M @ rest) = (Osc_Midi M, rest)"
    "osc_skip Q (CHR ''m'') (N @ rest) = rest" for rest
    using osc_lib.get_arg [OF q m(1)] osc_lib.skip_arg [OF q m(2)] by simp_all
  moreover obtain j where "k = Suc j" "length Ms = 2 * j" using 3(2) by (cases k) auto
  ultimately show ?case using 3 by (simp add: midi_bytes_def)
qed simp_all

end
