(* ===== verification/Module_Properties.thy ===== *)
theory Module_Properties
  imports Runtime_Properties Control_Voltage Midi
begin

text \<open>
  The properties of the plugin modules that turn signals and MIDI into OSC messages and back, on
  their own and connected through the main loop.
\<close>

section \<open>Through the main loop to one child\<close>

text \<open>The definitions a witness unfolds to run the host in \<open>ref_env\<close>.\<close>

lemmas ref_run = tjost_host_schedule_inline_def tjost_host_schedule_def tjost_module_schedule_def
  tjost_alloc_def region_ops_def region_malloc_def size_add_def insert_by_def request_more_def
  store_event_def write_event_def fill_to_def Let_def tjost_schedule_sort_def

definition period_events :: "addr option \<Rightarrow> nframes \<Rightarrow> (nframes \<times> byte list) list \<Rightarrow> event list" where
  "period_events m L ps = map (\<lambda>(i, b). mk_view m (L + i) b) ps"

lemma stamped_same: "L \<le> ev_time e \<Longrightarrow> stamped L L e = e"
proof -
  assume le: "L \<le> ev_time e"
  have "e\<lparr>ev_time := ev_time e\<rparr> = e" by (cases e) simp
  moreover have "ev_time e = 0 \<Longrightarrow> L = 0" using le by (simp add: word_le_0_iff)
  ultimately show ?thesis using le by (auto simp: stamped_def)
qed

lemma fold_deliver_one:
  "fold deliver (map (\<lambda>e. (m, ev_time e, ev_buf e)) q) V (Some m) =
   fold insert_event (map (\<lambda>e. mk_view None (ev_time e) (ev_buf e)) q) (V (Some m))"
  by (induction q arbitrary: V) (simp_all add: deliver_def)

context process_contract
begin

lemma routed_to_child:
  assumes ok: "host_ok h" and r: "main_loop E C n h = Some h'" and L: "last_frame h \<le> last_frame h + n"
    and q: "view h None = period_events (Some mi) (last_frame h) ps" "\<forall>(i, b)\<in>set ps. i < n"
    and c: "m_children (module_at h mi) = [(c, mo)]" "\<not> has_lua_callback (module_at h mi)"
  shows "host_ok h' \<and> config h' = config h \<and> view h' None = [] \<and>
    view h' (Some mo) = fold insert_event (period_events None (last_frame h) ps) (view h (Some mo))"
proof -
  let ?L = "last_frame h"
  note s = main_loop_spec [OF ok r]
  have all: "due ?L n e \<and> stamped ?L ?L e = e \<and> ev_module e = Some mi" if "e \<in> set (queue h)" for e
  proof -
    have "strip e \<in> set (view h None)" using that by (simp add: view_def)
    then obtain i b where i: "(i, b) \<in> set ps" and e: "strip e = mk_view (Some mi) (?L + i) b"
      by (auto simp: q(1) period_events_def)
    have e: "ev_time e = ?L + i" "ev_module e = Some mi"
      using arg_cong [OF e, of ev_time] arg_cong [OF e, of ev_module] by simp_all
    have "i < n" using q(2) i by auto
    note w = no_wrap [OF this L]
    show ?thesis using w(1,2) e by (simp add: due_def stamped_same)
  qed
  have tw: "takeWhile (due ?L n) (queue h) = queue h" using all by (simp add: takeWhile_eq_all_conv)
  have mp: "map (\<lambda>e. deliveries (module_at h) (uplinks h) lact (stamped ?L ?L e)) (queue h) =
      map (\<lambda>e. [(mo, ev_time e, ev_buf e)]) (queue h)"
    using all c by (intro map_cong) (auto simp: deliveries_def module_deliveries_def)
  have "main_deliveries h lact n (queue h) = map (\<lambda>e. (mo, ev_time e, ev_buf e)) (queue h)"
    unfolding main_deliveries_def tw mp by (rule concat_map_singleton)
  also have "... = map (\<lambda>e. (mo, ev_time e, ev_buf e)) (view h None)" by (simp add: view_def o_def)
  finally have d: "main_deliveries h lact n (queue h) = map (\<lambda>e. (mo, ev_time e, ev_buf e)) (view h None)" .
  have "map (\<lambda>e. mk_view None (ev_time e) (ev_buf e)) (view h None) = period_events None ?L ps"
    by (simp add: q(1) period_events_def o_def case_prod_beta)
  moreover have "filter (\<lambda>e. \<not> due ?L n e) (view h None) = []"
    using all by (auto simp: view_def filter_empty_conv)
  ultimately show ?thesis
    using s fold_deliver_one [of mo "view h None" "view h"] unfolding d by (simp add: preserves_def)
qed

end

section \<open>Control voltage\<close>

lemma cv_events_period:
  "cv_events m L cs = period_events m L (map (\<lambda>(i, v). (i, osc_message ''/cv'' [Osc_Float v])) cs)"
  by (simp add: cv_events_def period_events_def o_def case_prod_beta)

text \<open>C19. A signal through the host. Over one period that does not wrap the frame counter, the messages
  \<open>cv_in\<close> queues for its input signal are routed by the main loop to the child \<open>cv_out\<close>, which writes
  a signal that is equal (by C's float comparison, or bit by bit) to the input sample by sample; after
  the period both modules hold the same value, so the statement applies to the next period again.\<close>
theorem cv_signal_path:
  assumes "process_contract E contents cap rok live aok pool_ok C lact"
    and "osc_lib Q" and "osc_check_path Q ''/cv''"
    and "host_wf rok live aok h" and "view h None = []" and "view h (Some mo) = []"
    and "last_frame h \<le> last_frame h + n" and "length xs = unat n" and "length port_buf = unat n"
    and "cvi_port din" and "cvo_port dout" and "cvo_value dout = cvi_value din"
    and "m_children (module_at h mi) = [(c, mo)]" and "\<not> has_lua_callback (module_at h mi)"
    and "cv_in_process_in Q E n mi xs (din, h) = Some (r, din', h1)"
    and "main_loop E C n h1 = Some h2"
  shows "\<exists>dout' h3. cv_out_process_out Q E n mo port_buf (dout, h2) = Some (0, dout', h3) \<and>
    length (cvo_buf dout') = unat n \<and>
    (\<forall>k<unat n. \<not> float_ne (cvo_buf dout' ! k) (xs ! k) \<or> cvo_buf dout' ! k = xs ! k) \<and>
    cvo_value dout' = cvi_value din'"
proof -
  note e = process_contract.axioms(1) [OF assms(1)]
  let ?L = "last_frame h" and ?cs = "cv_changes 0 xs (cvi_value din)"
  obtain v' where l: "cv_in_loop Q E mi ?L 0 xs (cvi_value din) h = Some (v', h1)" and din': "cvi_value din' = v'"
    using assms(8,10,15) by (auto simp: cv_in_process_in_def split: Option.bind_splits)
  note s = tjost_env.cv_in_loop_spec [OF e assms(2,4) l]
  then have cfg: "config h1 = config h" by (blast intro: config_queue_frame)
  note cf = configD [OF cfg]
  have "fold insert_event (cv_events (Some mi) ?L ?cs) [] = cv_events (Some mi) ?L ?cs"
    using insert_sorted_events [of "[]" _ ?cs] cv_events_sorted [OF assms(7,8), of "Some mi"]
    by (simp add: cv_events_def)
  with s assms(5,6) have v: "view h1 None = cv_events (Some mi) ?L ?cs" "view h1 (Some mo) = []" by auto
  have p: "view h1 None = period_events (Some mi) (last_frame h1)
      (map (\<lambda>(i, v). (i, osc_message ''/cv'' [Osc_Float v])) ?cs)"
    unfolding v(1) cf(3) by (rule cv_events_period)
  have "unat (0 :: nframes) + length xs < 2 ^ 32" using assms(8) by simp
  note cs = changes_sorted [OF this, of "cvi_value din"]
  have lt: "\<forall>(i, b)\<in>set (map (\<lambda>(i, v). (i, osc_message ''/cv'' [Osc_Float v])) ?cs). i < n"
    using cs assms(8) by (auto simp: word_less_nat_alt)
  have ok1: "host_wf rok live aok h1" using s by simp
  note m = process_contract.routed_to_child [OF assms(1) ok1 assms(16) _ p lt, of c mo]
  then have m: "config h2 = config h1" "view h2 (Some mo) = fold insert_event (cv_events None ?L ?cs) []"
    using assms(7,13,14) cf v(2) by (simp_all add: cv_events_period)
  have "fold insert_event (cv_events None ?L ?cs) [] = cv_events None ?L ?cs"
    using insert_sorted_events [of "[]" _ ?cs] cv_events_sorted [OF assms(7,8), of None]
    by (simp add: cv_events_def)
  with m configD(3) [OF m(1)] cf(3) have "last_frame h2 = ?L" "view h2 (Some mo) = cv_events None ?L ?cs" by simp_all
  with cv_out_plays [OF assms(2,3), of h2 n xs port_buf dout "cvi_value din" mo] assms(7-9,11,12)
    cv_held_ok [of xs "cvi_value din"] s din'
  show ?thesis by fastforce
qed

theorem cv_signal_path_witness:
  "\<exists>h1 h2 dout' h3. let din = \<lparr>cvi_port = True, cvi_value = 0\<rparr>;
      dout = \<lparr>cvo_port = True, cvo_buf = [], cvo_time = 0, cvo_value = 0\<rparr> in
    cv_in_process_in osc_ref ref_env 1 9 [0x3F800000] (din, host0) =
      Some (0, din\<lparr>cvi_value := 0x3F800000\<rparr>, h1) \<and>
    main_loop ref_env (core_callbacks ref_env (\<lambda>_. Loopback) (\<lambda>_ _ _. [])) 1 h1 = Some h2 \<and>
    cv_out_process_out osc_ref ref_env 1 8 [0] (dout, h2) = Some (0, dout', h3) \<and>
    cvo_value dout' = 0x3F800000"
proof -
  let ?C = "core_callbacks ref_env (\<lambda>_. Loopback) (\<lambda>_ _ _. [])" and ?x = "0x3F800000 :: sample"
  let ?din = "\<lparr>cvi_port = True, cvi_value = 0\<rparr>"
    and ?dout = "\<lparr>cvo_port = True, cvo_buf = [], cvo_time = 0, cvo_value = 0\<rparr>"
  have "\<exists>h1. cv_in_process_in osc_ref ref_env 1 9 [?x] (?din, host0) =
      Some (0, ?din\<lparr>cvi_value := ?x\<rparr>, h1) \<and> (\<exists>h2. main_loop ref_env ?C 1 h1 = Some h2)"
    by (simp add: cv_in_process_in_def host0_def cv_in_message_eq [OF osc_ref.osc_lib_axioms] ref_run
        float_ne_def float_nan_def float_zero_def cv_message_length main_loop_def stamp_def main_body_def
        mod0_def to_module_def upd_module_def del: One_nat_def)
  then obtain h1 h2 where r: "cv_in_process_in osc_ref ref_env 1 9 [?x] (?din, host0) =
      Some (0, ?din\<lparr>cvi_value := ?x\<rparr>, h1)" "main_loop ref_env ?C 1 h1 = Some h2" by blast
  have q: "osc_check_path osc_ref ''/cv''" "m_children (module_at host0 9) = [(1, 8)]"
    "\<not> has_lua_callback (module_at host0 9)" "last_frame host0 = 100"
    by (simp_all add: osc_ref_def host0_def mod0_def)
  from cv_signal_path [OF ref_core.process_contract_axioms osc_ref.osc_lib_axioms q(1) host0_ok(1)
      view_host0 view_host0, where n = 1 and xs = "[?x]" and port_buf = "[0]" and din = ?din and dout = ?dout] q r
  show ?thesis by (fastforce simp: Let_def)
qed

section \<open>MIDI\<close>

lemma midi_in_runs:
  "\<exists>h'. midi_in_process_in osc_ref ref_env True [(3, [144, 60, 100]), (5, [128, 60, 0])] 9 host0 = Some (0, h')"
  by (simp add: midi_in_process_in_def upt_rec host0_def midi_message_eq [OF osc_ref.osc_lib_axioms]
      midi_len_def osc_ref.strlen osc_ref.padded_size ref_run length_osc_str)

text \<open>C20. MIDI into messages. Whenever \<open>midi_in\<close> returns, the host is well formed and its queue has
  gained one message per group of events; the groups in order hold every MIDI event of the period,
  none lost and none twice.\<close>
theorem midi_in_complete:
  assumes "tjost_env E contents cap rok live aok" and "osc_lib Q" and "host_wf rok live aok h"
    and "midi_in_process_in Q E True evs m h = Some (r, h')"
  shows "r = 0 \<and> preserves rok live aok h h' \<and>
    (\<exists>gs. concat (map snd gs) = map snd evs \<and>
      view h' = (view h)(None := fold insert_event (midi_events (Some m) (last_frame h) gs) (view h None)))"
proof -
  let ?gs = "midi_groups evs 0 0 [0..<length evs]"
  from assms(4) have r: "r = 0" "midi_in_loop Q E m (last_frame h) evs 0 0 [0..<length evs] h = Some h'"
    by (auto simp: midi_in_process_in_def split: Option.bind_splits)
  have "concat (map snd ?gs) = map snd evs" using midi_groups_all [of 0 evs 0 0] by simp
  then show ?thesis
    using tjost_env.midi_in_loop_spec [OF assms(1,2,3) r(2)] r(1) config_queue_frame
    by (auto simp: preserves_def intro!: exI [of _ ?gs])
qed

theorem midi_in_complete_witness:
  "\<exists>h'. midi_in_process_in osc_ref ref_env True [(3, [144, 60, 100]), (5, [128, 60, 0])] 9 host0 = Some (0, h') \<and>
    (\<exists>gs. concat (map snd gs) = [[144, 60, 100], [128, 60, 0]] \<and>
      view h' None = fold insert_event (midi_events (Some 9) 100 gs) [])"
proof -
  let ?evs = "[(3, [144, 60, 100]), (5, [128, 60, 0])] :: midi_event list"
  obtain h' where h': "midi_in_process_in osc_ref ref_env True ?evs 9 host0 = Some (0, h')"
    using midi_in_runs by blast
  have "last_frame host0 = 100" by (simp add: host0_def)
  with midi_in_complete [OF ref.tjost_env_axioms osc_ref.osc_lib_axioms host0_ok(1) h'] h' view_host0
  show ?thesis by auto
qed

text \<open>The time of a MIDI event. Two events at different times of a period do not get a message
  each: both go into one message, at the time of the second, so the first is reported late.\<close>
theorem midi_in_late:
  assumes "tjost_env E contents cap rok live aok" and "osc_lib Q" and "host_wf rok live aok h"
    and "t1 < t2" and "midi_in_process_in Q E True [(t1, b1), (t2, b2)] m h = Some (r, h')"
  shows "view h' None = insert_event
    (mk_view (Some m) (t2 + last_frame h) (osc_message ''/midi'' (midi_args [b1, b2]))) (view h None)"
proof -
  let ?evs = "[(t1, b1), (t2, b2)]"
  from assms(5) have "midi_in_loop Q E m (last_frame h) ?evs 0 0 [0..<length ?evs] h = Some h'"
    by (auto simp: midi_in_process_in_def simp del: midi_in_loop.simps split: Option.bind_splits)
  note s = tjost_env.midi_in_loop_spec [OF assms(1,2,3) this]
  have "midi_groups ?evs 0 0 [0..<length ?evs] = [(t2, [b1, b2])]"
    using assms(4) by (simp add: upt_rec)
  with s show ?thesis by (simp add: midi_events_def)
qed

theorem midi_in_late_witness:
  "\<exists>h'. midi_in_process_in osc_ref ref_env True [(3, [144, 60, 100]), (5, [128, 60, 0])] 9 host0 = Some (0, h') \<and>
    map ev_time (view h' None) = [105]"
proof -
  let ?evs = "[(3, [144, 60, 100]), (5, [128, 60, 0])] :: midi_event list"
  obtain h' where h': "midi_in_process_in osc_ref ref_env True ?evs 9 host0 = Some (0, h')"
    using midi_in_runs by blast
  have "last_frame host0 = 100" by (simp add: host0_def)
  with midi_in_late [OF ref.tjost_env_axioms osc_ref.osc_lib_axioms host0_ok(1) _ h'] h' view_host0
  show ?thesis by (simp add: insert_event_def)
qed

text \<open>Messages into MIDI. Of the message \<open>midi_in\<close> makes of a group of events, \<open>midi_out\<close> writes
  the three bytes of every event to the port, in order and at the time of the message, as long as the
  port has room; the host is left alone.\<close>
theorem midi_out_writes:
  assumes "osc_lib Q" and "osc_check_path Q ''/midi''" and "\<And>b. 3 \<le> jack_midi_max_event_size K b"
    and "ev_buf e = osc_message ''/midi'' (midi_args bs)" and "ev_time e = L + i"
  shows "midi_out_body Q K E L e (B, h) =
    Some (fold (\<lambda>b B. jack_midi_event_write K B i [b ! 0, b ! 1, b ! 2]) bs B, h)"
proof -
  have "method_for any_method ''/midi'' (map osc_tag (midi_args bs)) = Some 0"
    by (simp add: method_for_def any_method_def)
  then have "osc_dispatch_method Q i (ev_buf e) any_method =
      [Call i 0 ''/midi'' (map osc_tag (midi_args bs)) (concat (map osc_enc (midi_args bs)))]"
    using osc_lib.dispatch [OF assms(1,2) midi_args_valid, of i bs any_method] assms(4) by simp
  then show ?thesis
    using midi_out_args_eq [OF assms(1,3), of E i bs B h] assms(5) by (simp add: midi_out_body_def)
qed

definition list_port :: "(nframes \<times> byte list) list midi_port_ops" where
  "list_port = \<lparr>jack_midi_max_event_size = (\<lambda>b. 64), jack_midi_event_write = (\<lambda>b t m. b @ [(t, m)])\<rparr>"

theorem midi_out_writes_witness:
  "midi_out_body osc_ref list_port ref_env 100
    (mk_view None 105 (osc_message ''/midi'' (midi_args [[144, 60, 100], [128, 60, 0]]))) ([], host0) =
    Some ([(5, [144, 60, 100]), (5, [128, 60, 0])], host0)"
  using midi_out_writes [OF osc_ref.osc_lib_axioms, of list_port
    "mk_view None 105 (osc_message ''/midi'' (midi_args [[144, 60, 100], [128, 60, 0]]))"
    "[[144, 60, 100], [128, 60, 0]]" 100 5 ref_env "[]" host0]
  by (simp add: list_port_def osc_ref_def)

text \<open>MIDI to a sequencer. The missing \<open>break\<close> makes \<open>seq_out\<close> and \<open>rtmidi_out\<close> skip every other
  event of a message and run past its end: of a message with \<open>k\<close> events and the \<open>k\<close> groups of four
  bytes that lie behind it in the buffer, they send the first, the third and so on, \<open>k\<close> in all.\<close>
theorem seq_midi_skips:
  assumes "osc_lib Q" and "length stale = length bs" and "\<forall>M\<in>set stale. length M = 4"
  shows "seq_midi Q (map osc_tag (midi_args bs)) (concat (map osc_enc (midi_args bs) @ stale)) =
    map (\<lambda>M. [M ! 1, M ! 2, M ! 3]) (every_other (map osc_enc (midi_args bs) @ stale))"
  unfolding midi_tags
  by (rule seq_midi_eq [OF assms(1)]) (use assms(2,3) in \<open>auto simp: midi_args_def\<close>)

theorem seq_midi_skips_witness:
  "seq_midi osc_ref ''mm'' [0, 144, 60, 100, 0, 128, 60, 0, 0, 1, 2, 3, 0, 4, 5, 6] = [[144, 60, 100], [1, 2, 3]]"
  using seq_midi_skips [OF osc_ref.osc_lib_axioms, of "[[0, 1, 2, 3], [0, 4, 5, 6]]" "[[144, 60, 100], [128, 60, 0]]"]
  by (simp add: midi_args_def)

end
