(* ===== verification/Pipe_Modules.thy ===== *)
theory Pipe_Modules
  imports Loopback Midi
begin

text \<open>
  The modules that talk to the event loop thread through a pipe. In the real-time thread they all run
  the same two pieces of code: \<open>process_in\<close> drains the receive pipe into the host queue (\<open>send\<close>,
  \<open>timer\<close>, \<open>seq_in\<close>, \<open>rtmidi_in\<close>, \<open>serial\<close>, \<open>net\<close>, \<open>read\<close>), \<open>process_out\<close> drains the module queue into
  the transmit pipe (\<open>dump\<close>, \<open>seq_out\<close>, \<open>rtmidi_out\<close>, \<open>serial\<close>, \<open>write\<close>; \<open>net\<close> writes its ring itself).
  In the event loop thread each has its own code, which produces into the receive pipe or is called
  back with what the transmit pipe holds.
\<close>

section \<open>The real-time side: input\<close>

text \<open>
  \<open>process_in\<close> with the module's \<open>_alloc\<close> and \<open>_sched\<close>, which are those of \<open>Uplink\<close>. \<open>r\<close> is the
  receive pipe of the module.
\<close>

definition pipe_process_in ::
  "('t, 'r) env \<Rightarrow> string \<Rightarrow> nframes \<Rightarrow> 'r \<times> ('t, 'r) host \<Rightarrow> (int \<times> 'r \<times> ('t, 'r) host) option" where
  "pipe_process_in E name offset S =
     do { (err, r, h1) \<leftarrow> rx_drain E offset (fst S) (snd S);
          h2 \<leftarrow> (if err \<noteq> 0 then tjost_host_message_push E h1 (name @ '': tjost_pipe_consume error'') else Some h1);
          Some (0, r, h2) }"

definition send_process_in :: "('t, 'r) env \<Rightarrow> 'r \<times> ('t, 'r) host \<Rightarrow> (int \<times> 'r \<times> ('t, 'r) host) option" where
  "send_process_in E = pipe_process_in E ''send'' 0"

definition timer_process_in :: "('t, 'r) env \<Rightarrow> 'r \<times> ('t, 'r) host \<Rightarrow> (int \<times> 'r \<times> ('t, 'r) host) option" where
  "timer_process_in E = pipe_process_in E ''timer'' 0"

definition seq_in_process_in :: "('t, 'r) env \<Rightarrow> 'r \<times> ('t, 'r) host \<Rightarrow> (int \<times> 'r \<times> ('t, 'r) host) option" where
  "seq_in_process_in E = pipe_process_in E ''seq_in'' 0"

text \<open>
  The macro \<open>MOD_NAME\<close> of \<open>mod_rtmidi_in.c\<close> is that of \<open>mod_seq_in.c\<close>. The \<open>_alloc\<close> of every module
  finds the host through \<open>tev->module\<close>, which is the module itself where the frames are produced with
  it; \<open>_rtmidic_cb\<close> produces them with another pointer, behind which there is no module.
\<close>

definition rtmidi_in_alloc ::
  "('t, 'r) env \<Rightarrow> addr \<Rightarrow> tev_hdr \<Rightarrow> ('t, 'r) host \<Rightarrow> (addr \<times> ('t, 'r) host) option" where
  "rtmidi_in_alloc E m tev h = (if h_module tev \<noteq> Some m then None else rx_alloc E 0 tev h)"

definition rtmidi_in_process_in ::
  "('t, 'r) env \<Rightarrow> addr \<Rightarrow> 'r \<times> ('t, 'r) host \<Rightarrow> (int \<times> 'r \<times> ('t, 'r) host) option" where
  "rtmidi_in_process_in E m S =
     do { (err, r, h1) \<leftarrow> tjost_pipe_consume (ring_api E) (rtmidi_in_alloc E m) store_event rx_sched (fst S) (snd S);
          h2 \<leftarrow> (if err \<noteq> 0 then tjost_host_message_push E h1 ''seq_in: tjost_pipe_consume error'' else Some h1);
          Some (0, r, h2) }"

definition serial_process_in :: "('t, 'r) env \<Rightarrow> 'r \<times> ('t, 'r) host \<Rightarrow> (int \<times> 'r \<times> ('t, 'r) host) option" where
  "serial_process_in E = pipe_process_in E ''serial'' 0"

definition mod_net_process_in :: "('t, 'r) env \<Rightarrow> 'r \<times> ('t, 'r) host \<Rightarrow> (int \<times> 'r \<times> ('t, 'r) host) option" where
  "mod_net_process_in E = pipe_process_in E ''net'' 0"

text \<open>
  \<open>mod_read.c\<close> shifts every event by the frame of its first period, kept in \<open>offset\<close>, and wakes the
  event loop thread (\<open>k\<close> counts the calls of \<open>uv_async_send\<close>, \<open>uv_err_name\<close> names its error).
\<close>

record read_rt =
  rd_offset :: nframes
  rd_wakes :: nat

definition read_process_in ::
  "('t, 'r) env \<Rightarrow> (int \<Rightarrow> string) \<Rightarrow> read_rt \<Rightarrow> 'r \<times> ('t, 'r) host \<Rightarrow>
   (int \<times> read_rt \<times> 'r \<times> ('t, 'r) host) option" where
  "read_process_in E uv_err_name d S =
     (let d1 = (if rd_offset d = 0 then d\<lparr>rd_offset := last_frame (snd S)\<rparr> else d);
          err = uv_async_send E (rd_wakes d1)
      in do { (z, r, h1) \<leftarrow> pipe_process_in E ''read'' (rd_offset d1) S;
              h2 \<leftarrow> (if err \<noteq> 0 then tjost_host_message_push E h1 (''read: '' @ uv_err_name err) else Some h1);
              Some (0, d1\<lparr>rd_wakes := rd_wakes d1 + 1\<rparr>, r, h2) })"

section \<open>The real-time side: output\<close>

definition pipe_out_body ::
  "('t, 'r) env \<Rightarrow> string \<Rightarrow> nframes \<Rightarrow> addr \<Rightarrow> event \<Rightarrow> 'r \<times> ('t, 'r) host \<Rightarrow> ('r \<times> ('t, 'r) host) option" where
  "pipe_out_body E err_msg base m tev S =
     (let (err, r) = tjost_pipe_produce (ring_api E) (junk E) (fst S) (Some m) (ev_time tev - base) (ev_buf tev)
      in if err \<noteq> 0 then do { h1 \<leftarrow> tjost_host_message_push E (snd S) err_msg; Some (r, h1) }
         else Some (r, snd S))"

definition tjost_pipe_flush :: "('t, 'r) env \<Rightarrow> nat \<Rightarrow> int" where
  "tjost_pipe_flush E k = (if uv_async_send E k \<noteq> 0 then -1 else 0)"

text \<open>\<open>d\<close> is the transmit pipe with the number of times it was flushed.\<close>

definition pipe_process_out ::
  "('t, 'r) env \<Rightarrow> string \<Rightarrow> string \<Rightarrow> nframes \<Rightarrow> nframes \<Rightarrow> addr \<Rightarrow> ('r \<times> nat) \<times> ('t, 'r) host \<Rightarrow>
   (int \<times> ('r \<times> nat) \<times> ('t, 'r) host) option" where
  "pipe_process_out E name err_msg base nframes m S =
     (let h = snd S; q = m_queue (module_at h m); (r, k) = fst S
      in do {
        (r1, h1) \<leftarrow> drain E name (last_frame h) (last_frame h) nframes (Some m)
                      (pipe_out_body E (name @ '': '' @ err_msg) base m) q (r, h);
        if length q > 0 then do {
          h2 \<leftarrow> (if tjost_pipe_flush E k \<noteq> 0
                 then tjost_host_message_push E h1 (name @ '': tjost_pipe_flush error'') else Some h1);
          Some (0, (r1, k + 1), h2) }
        else Some (0, (r1, k), h1) })"

definition dump_process_out ::
  "('t, 'r) env \<Rightarrow> nframes \<Rightarrow> addr \<Rightarrow> ('r \<times> nat) \<times> ('t, 'r) host \<Rightarrow> (int \<times> ('r \<times> nat) \<times> ('t, 'r) host) option" where
  "dump_process_out E = pipe_process_out E ''dump'' ''tjost_pipe_produce error'' 0"

definition serial_process_out ::
  "('t, 'r) env \<Rightarrow> nframes \<Rightarrow> addr \<Rightarrow> ('r \<times> nat) \<times> ('t, 'r) host \<Rightarrow> (int \<times> ('r \<times> nat) \<times> ('t, 'r) host) option" where
  "serial_process_out E = pipe_process_out E ''serial'' ''tjost_pipe_produce error'' 0"

text \<open>The two MIDI outputs send times relative to the period.\<close>

definition seq_out_process_out ::
  "('t, 'r) env \<Rightarrow> nframes \<Rightarrow> addr \<Rightarrow> ('r \<times> nat) \<times> ('t, 'r) host \<Rightarrow> (int \<times> ('r \<times> nat) \<times> ('t, 'r) host) option" where
  "seq_out_process_out E nframes m S =
     pipe_process_out E ''seq_out'' ''ringbuffer overflow'' (last_frame (snd S)) nframes m S"

definition rtmidi_out_process_out ::
  "('t, 'r) env \<Rightarrow> nframes \<Rightarrow> addr \<Rightarrow> ('r \<times> nat) \<times> ('t, 'r) host \<Rightarrow> (int \<times> ('r \<times> nat) \<times> ('t, 'r) host) option" where
  "rtmidi_out_process_out E nframes m S =
     pipe_process_out E ''rtmidi_out'' ''tjost_pipe_produce error'' (last_frame (snd S)) nframes m S"

text \<open>
  \<open>mod_write.c\<close> sends times relative to its first period. The test of \<open>tjost_pipe_flush\<close> is missing,
  so the error message is pushed at every flush.
\<close>

record 'r write_rt =
  wr_pipe :: 'r
  wr_flushes :: nat
  wr_offset :: nframes

definition write_process_out ::
  "('t, 'r) env \<Rightarrow> nframes \<Rightarrow> addr \<Rightarrow> 'r write_rt \<times> ('t, 'r) host \<Rightarrow> (int \<times> 'r write_rt \<times> ('t, 'r) host) option" where
  "write_process_out E nframes m S =
     (let h = snd S; q = m_queue (module_at h m);
          d = (if wr_offset (fst S) = 0 then (fst S)\<lparr>wr_offset := last_frame h\<rparr> else fst S)
      in do {
        (r1, h1) \<leftarrow> drain E ''write'' (last_frame h) (last_frame h) nframes (Some m)
                      (pipe_out_body E ''write: tjost_pipe_produce error'' (wr_offset d) m) q (wr_pipe d, h);
        if length q > 0 then do {
          h2 \<leftarrow> tjost_host_message_push E h1 ''write: tjost_pipe_flush error'';
          Some (0, d\<lparr>wr_pipe := r1, wr_flushes := wr_flushes d + 1\<rparr>, h2) }
        else Some (0, d\<lparr>wr_pipe := r1\<rparr>, h1) })"

text \<open>\<open>mod_net.c\<close> writes the event structure of the queue and its payload into its ring.\<close>

definition net_out_body ::
  "('t, 'r) env \<Rightarrow> event \<Rightarrow> 'r \<times> ('t, 'r) host \<Rightarrow> ('r \<times> ('t, 'r) host) option" where
  "net_out_body E tev S =
     (let J = ring_api E; r = fst S; size = length (ev_buf tev);
          image = event_image (junk E) \<lparr>h_module = ev_module tev, h_time = ev_time tev, h_size = size\<rparr>
      in if rb_write_space J r < size_add sizeof_event size
         then do { h1 \<leftarrow> tjost_host_message_push E (snd S) ''net: ringbuffer overflow''; Some (r, h1) }
         else Some (snd (rb_write J (snd (rb_write J r image)) (ev_buf tev)), snd S))"

definition mod_net_process_out ::
  "('t, 'r) env \<Rightarrow> (int \<Rightarrow> string) \<Rightarrow> nframes \<Rightarrow> addr \<Rightarrow> ('r \<times> nat) \<times> ('t, 'r) host \<Rightarrow>
   (int \<times> ('r \<times> nat) \<times> ('t, 'r) host) option" where
  "mod_net_process_out E uv_err_name nframes m S =
     (let h = snd S; q = m_queue (module_at h m); (r, k) = fst S; err = uv_async_send E k
      in do {
        (r1, h1) \<leftarrow> drain E ''net'' (last_frame h) (last_frame h) nframes (Some m) (net_out_body E) q (r, h);
        if length q > 0 then do {
          h2 \<leftarrow> (if err \<noteq> 0 then tjost_host_message_push E h1 (''net: '' @ uv_err_name err) else Some h1);
          Some (0, (r1, k + 1), h2) }
        else Some (0, (r1, k), h1) })"

section \<open>What they do to the pipes\<close>

definition out_frame :: "('t, 'r) env \<Rightarrow> addr \<Rightarrow> nframes \<Rightarrow> event \<Rightarrow> frame" where
  "out_frame E m base e = \<lparr>f_stk = junk E, f_module = Some m, f_time = ev_time e - base, f_buf = ev_buf e\<rparr>"

lemma out_frame_simps [simp]:
  "f_stk (out_frame E m base e) = junk E" "f_module (out_frame E m base e) = Some m"
  "f_time (out_frame E m base e) = ev_time e - base" "f_buf (out_frame E m base e) = ev_buf e"
  by (simp_all add: out_frame_def)

lemma length_pipe_bytes: "length (pipe_bytes fs) = (\<Sum>f\<leftarrow>fs. 48 + length (f_buf f))"
  by (induction fs) simp_all

definition produced :: "('t, 'r) env \<Rightarrow> addr \<Rightarrow> nframes \<Rightarrow> event \<Rightarrow> 'r \<Rightarrow> 'r" where
  "produced E m base e r = snd (tjost_pipe_produce (ring_api E) (junk E) r (Some m) (ev_time e - base) (ev_buf e))"

context tjost_env
begin

lemma pipe_out_handler:
  "event_handler E contents cap rok live aok (Some m) (pipe_out_body E msg base m) (produced E m base)"
proof unfold_locales
  show "host_ok h' \<and> (used_inv h \<longrightarrow> used_inv h') \<and> queue_of h' (Some m) = queue_of h (Some m) \<and>
      s' = produced E m base e s"
    if "host_ok h" "pipe_out_body E msg base m e (s, h) = Some (s', h')" for h :: "('t, 'r) host" and e s s' h'
  proof -
    have s': "s' = produced E m base e s" and h': "h' = h \<or> tjost_host_message_push E h msg = Some h'"
      using that(2) by (auto simp: pipe_out_body_def produced_def split: prod.splits if_splits Option.bind_splits)
    show ?thesis
      using h' that(1) s' message_push_ok [of h msg h'] message_push_used [of h msg h']
        message_push_frame(1) [of E h msg h'] queue_of_frame [of h h'] by (auto simp del: queue_of_simps)
  qed
qed

lemma fold_produced:
  assumes m: "valid_ptr (Some m)"
  shows "rok r \<Longrightarrow> contents r = pipe_bytes fs \<Longrightarrow> \<forall>e\<in>set es. length (ev_buf e) + 48 < 2 ^ 64 \<Longrightarrow>
    length (pipe_bytes (fs @ map (out_frame E m base) es)) \<le> cap r \<Longrightarrow>
    rok (fold (produced E m base) es r) \<and> cap (fold (produced E m base) es r) = cap r \<and>
    contents (fold (produced E m base) es r) = pipe_bytes (fs @ map (out_frame E m base) es)"
proof (induction es arbitrary: r fs)
  case (Cons e es)
  let ?f = "out_frame E m base e"
  have v: "valid_frame ?f" using Cons.prems(3) m by (simp add: valid_frame_def)
  have "48 + length (f_buf ?f) \<le> rb_write_space (ring_api E) r"
    using Cons.prems(1,2,4) by (simp add: ring.write_space)
  from ring.produce_ok [OF Cons.prems(1) v this] obtain r1 where
    r1: "produced E m base e r = r1" "rok r1" "cap r1 = cap r" "contents r1 = contents r @ frame_bytes ?f"
    by (auto simp: produced_def)
  have "contents r1 = pipe_bytes (fs @ [?f])" using r1(4) Cons.prems(2) by (simp add: frame_bytes_def)
  from Cons.IH [OF r1(2) this] Cons.prems(3,4) r1(1,3) show ?case by simp
qed simp

text \<open>An output module sends exactly its due events, in order, when they fit the pipe.\<close>

lemma pipe_out_drain:
  assumes ok: "host_ok h" and m: "valid_ptr (Some m)"
    and r: "rok r" "contents r = pipe_bytes fs"
    and d: "drain E name late (last_frame h) n (Some m) (pipe_out_body E msg base m) (m_queue (module_at h m)) (r, h) =
      Some (r', h')"
  defines "es \<equiv> map (stamped late (last_frame h)) (filter (due (last_frame h) n) (m_queue (module_at h m)))"
  assumes fit: "\<forall>e\<in>set es. length (ev_buf e) + 48 < 2 ^ 64"
      "length (pipe_bytes (fs @ map (out_frame E m base) es)) \<le> cap r"
  shows "host_ok h' \<and> (used_inv h \<longrightarrow> used_inv h') \<and>
    m_queue (module_at h' m) = filter (\<lambda>e. \<not> due (last_frame h) n e) (m_queue (module_at h m)) \<and>
    rok r' \<and> cap r' = cap r \<and> contents r' = pipe_bytes (fs @ map (out_frame E m base) es)"
proof -
  have q: "queue_of h (Some m) = m_queue (module_at h m)" by simp
  note p = event_handler.drain_partition [OF pipe_out_handler ok d [folded q]]
  have "r' = fold (produced E m base) es r" using p(4) by (simp add: es_def fold_map o_def)
  then show ?thesis using p(1-3) fold_produced [OF m r fit] by simp
qed

lemma pipe_in_spec:
  assumes ok: "host_ok (snd S)" and r: "rok (fst S)" "\<forall>f\<in>set fs. valid_frame f" "contents (fst S) = pipe_bytes fs"
    and p: "pipe_process_in E name offset S = Some (z, r', h')"
  shows "z = 0 \<and> preserves rok live aok (snd S) h' \<and> rok r' \<and> cap r' = cap (fst S) \<and> contents r' = [] \<and>
    view h' = (view (snd S))(None := rx_view offset fs (view (snd S) None))"
proof -
  from p obtain err h1 where d: "rx_drain E offset (fst S) (snd S) = Some (err, r', h1)"
    and h': "(if err \<noteq> 0 then tjost_host_message_push E h1 (name @ '': tjost_pipe_consume error'') else Some h1) = Some h'"
    and z: "z = 0" by (auto simp: pipe_process_in_def split: Option.bind_splits)
  note s = rx_drain_spec [OF ok r d]
  with h' have "h' = h1" by simp
  with s z show ?thesis by (auto simp: preserves_def intro: config_queue_frame)
qed

end

section \<open>The event loop side: a static buffer\<close>

text \<open>
  The \<open>_alloc\<close> of the output modules answers the module's own buffer, without a look at the size of
  the event: a longer one is written past its end.
\<close>

definition static_alloc :: "tev_hdr \<Rightarrow> byte list \<times> 's \<Rightarrow> (unit \<times> byte list \<times> 's) option" where
  "static_alloc tev S = (if h_size tev > length (fst S) then None else Some ((), S))"

definition static_store :: "unit \<Rightarrow> byte list \<Rightarrow> byte list \<times> 's \<Rightarrow> byte list \<times> 's" where
  "static_store u bs S = (bs @ drop (length bs) (fst S), snd S)"

text \<open>\<open>_asio\<close> of \<open>tjost_pipe.c\<close>, called by the event loop when the pipe was flushed.\<close>

definition pipe_asio ::
  "'r ring_ops \<Rightarrow> (tev_hdr \<Rightarrow> unit \<Rightarrow> byte list \<times> 's \<Rightarrow> (bool \<times> byte list \<times> 's) option) \<Rightarrow>
   'r \<Rightarrow> byte list \<times> 's \<Rightarrow> ('r \<times> byte list \<times> 's) option" where
  "pipe_asio J sched r S =
     do { (err, r1, S1) \<leftarrow> tjost_pipe_consume J static_alloc static_store sched r S; Some (r1, S1) }"

definition handles :: "(nframes \<Rightarrow> byte list \<Rightarrow> 's \<Rightarrow> 's) \<Rightarrow>
    (tev_hdr \<Rightarrow> unit \<Rightarrow> byte list \<times> 's \<Rightarrow> (bool \<times> byte list \<times> 's) option) \<Rightarrow> bool" where
  "handles g sched \<longleftrightarrow> (\<forall>tev b s. h_size tev \<le> length b \<longrightarrow>
     sched tev () (b, s) = Some (False, b, g (h_time tev) (take (h_size tev) b) s))"

lemma static_simps:
  "static_alloc tev (b, s) = (if h_size tev > length b then None else Some ((), b, s))"
  "static_store u bs (b, s) = (bs @ drop (length bs) b, s)"
  by (simp_all add: static_alloc_def static_store_def)

lemma deliver_static:
  assumes g: "handles g sched"
  shows "\<forall>f\<in>set fs. length (f_buf f) \<le> length b \<Longrightarrow>
    \<exists>b'. length b' = length b \<and> deliver_all static_alloc static_store sched fs (b, s) =
      Some ([], b', fold (\<lambda>f. g (f_time f) (f_buf f)) fs s)"
proof (induction fs arbitrary: b s)
  case (Cons f fs)
  let ?b = "f_buf f @ drop (length (f_buf f)) b"
  have b: "length ?b = length b" using Cons.prems by simp
  have "h_size (hdr f) \<le> length ?b" "take (length (f_buf f)) ?b = f_buf f" using Cons.prems by simp_all
  with g have "sched (hdr f) () (?b, s) = Some (False, ?b, g (f_time f) (f_buf f) s)"
    unfolding handles_def by (simp add: hdr_def)
  moreover obtain b' where "length b' = length ?b" "deliver_all static_alloc static_store sched fs
      (?b, g (f_time f) (f_buf f) s) = Some ([], b', fold (\<lambda>f. g (f_time f) (f_buf f)) fs (g (f_time f) (f_buf f) s))"
    using Cons.IH [of ?b] Cons.prems b by auto
  ultimately show ?case using Cons.prems by (simp add: static_simps)
qed simp

context jack_ringbuffer
begin

lemma pipe_asio_spec:
  assumes r: "ok r" "\<forall>f\<in>set fs. valid_frame f" "contents r = pipe_bytes fs"
    and g: "handles g sched" and b: "\<forall>f\<in>set fs. length (f_buf f) \<le> length b"
  shows "\<exists>r' b'. pipe_asio J sched r (b, s) = Some (r', b', fold (\<lambda>f. g (f_time f) (f_buf f)) fs s) \<and>
    ok r' \<and> cap r' = cap r \<and> contents r' = [] \<and> length b' = length b"
proof -
  obtain b' where b': "length b' = length b" and d: "deliver_all static_alloc static_store sched fs (b, s) =
      Some ([], b', fold (\<lambda>f. g (f_time f) (f_buf f)) fs s)" using deliver_static [OF g b, of s] by blast
  from consume_refines [OF r, of static_alloc static_store sched "(b, s)"] d b' show ?thesis
    by (auto simp: pipe_asio_def)
qed

lemma pipe_asio_overflow:
  assumes r: "ok r" "\<forall>f\<in>set (f # fs). valid_frame f" "contents r = pipe_bytes (f # fs)"
    and b: "length b < length (f_buf f)"
  shows "pipe_asio J sched r (b, s) = None"
  using consume_refines [OF r, of static_alloc static_store sched "(b, s)"] b
  by (simp add: pipe_asio_def static_simps)

end

end
