(* ===== verification/Recorder.thy ===== *)
theory Recorder
  imports Pipe_Modules
begin

text \<open>
  The recorder \<open>mod_write.c\<close> and the player \<open>mod_read.c\<close>: the file format (a header, then records of
  time, size and payload in network order) and the two callbacks of the event loop thread, one
  appending what the transmit pipe holds to the file, the other filling the receive pipe from it.
\<close>

section \<open>Writing\<close>

text \<open>\<open>add\<close> writes the header; \<open>_sched\<close> writes one record.\<close>

definition write_header :: "32 word \<Rightarrow> byte list" where
  "write_header srate = bytes_of_string ''tjostbin'' @ enc_be 4 (unat srate)"

definition write_sched ::
  "tev_hdr \<Rightarrow> unit \<Rightarrow> byte list \<times> byte list \<Rightarrow> (bool \<times> byte list \<times> byte list) option" where
  "write_sched tev u S =
     (let (buf, f) = S
      in Some (False, buf, f @ enc_be 4 (unat (h_time tev)) @ enc_be 4 (h_size tev mod 2 ^ 32) @
           take (h_size tev) buf))"

section \<open>Reading\<close>

record stdio =
  fl_bytes :: "byte list"
  fl_eof :: bool

text \<open>\<open>fread\<close>: the bytes that could be read, with the end-of-file indicator set by a short read.\<close>

definition fread :: "nat \<Rightarrow> stdio \<Rightarrow> byte list \<times> stdio" where
  "fread n f = (take n (fl_bytes f),
     f\<lparr>fl_bytes := drop n (fl_bytes f), fl_eof := fl_eof f \<or> length (fl_bytes f) < n\<rparr>)"

text \<open>
  \<open>_asio\<close>. The variables \<open>ntime\<close> and \<open>nsize\<close> are not initialised and \<open>fread\<close> is not checked: what
  is not read is what the stack held, \<open>stk\<close>. A payload longer than \<open>buffer\<close> is written, and a size
  beyond it is checked, past its end.
\<close>

function read_asio ::
  "osc_ops \<Rightarrow> 'r ring_ops \<Rightarrow> byte list \<Rightarrow> addr \<Rightarrow> 'r \<times> byte list \<times> stdio \<Rightarrow> string list \<Rightarrow>
   (('r \<times> byte list \<times> stdio) \<times> string list) option" where
  "read_asio Q J stk m (r, buffer, f) err =
     (if \<not> fl_eof f \<and> tjost_pipe_space J r > TJOST_BUF_SIZE then
        let (t, f1) = fread 4 f; ntime = dec_be (overlay (fill_to 4 stk) t);
            (s, f2) = fread 4 f1; nsize = dec_be (overlay (fill_to 4 (drop 4 stk)) s);
            (p, f3) = fread nsize f2
        in if length p > length buffer \<or> nsize > length buffer then None
           else let b = overlay buffer p
                in if osc_check_message Q (take nsize b) then
                     let (e, r1) = tjost_pipe_produce J stk r (Some m) (of_nat ntime) (take nsize b)
                     in read_asio Q J stk m (r1, b, f3)
                          (if e \<noteq> 0 then err @ [''read: tjost_pipe_produce error''] else err)
                   else read_asio Q J stk m (r, b, f3) (err @ [''read: rx OSC message invalid''])
      else Some ((r, buffer, f), err))"
  by pat_completeness auto

termination
  by (relation "measure (\<lambda>(Q, J, stk, m, (r, buffer, f), err). length (fl_bytes f) + (if fl_eof f then 0 else 1))")
    (auto simp: fread_def split: if_splits)

declare read_asio.simps [simp del]

text \<open>The checks of \<open>add\<close> on the header, after the file was opened.\<close>

definition read_header :: "byte list \<Rightarrow> stdio \<Rightarrow> bool \<times> stdio" where
  "read_header stk f =
     (let (head, f1) = fread 8 f; (nsrate, f2) = fread 4 f1
      in (overlay (fill_to 8 stk) head = bytes_of_string ''tjostbin'', f2))"

section \<open>The file of a list of frames\<close>

definition record_bytes :: "nframes \<Rightarrow> byte list \<Rightarrow> byte list" where
  "record_bytes t b = enc_be 4 (unat t) @ enc_be 4 (length b) @ b"

definition recording :: "frame list \<Rightarrow> byte list" where
  "recording fs = concat (map (\<lambda>f. record_bytes (f_time f) (f_buf f)) fs)"

lemma recording_simps [simp]:
  "recording [] = []" "recording (f # fs) = record_bytes (f_time f) (f_buf f) @ recording fs"
  by (simp_all add: recording_def)

lemma enc_le_mod: "enc_le k (v mod 256 ^ k) = enc_le k v"
proof (induction k arbitrary: v)
  case (Suc k)
  have "(of_nat (v mod 256 ^ Suc k) :: byte) = of_nat v"
    by (rule word_unat_eq_iff [THEN iffD2]) (simp add: unat_of_nat_byte mod_mod_cancel)
  moreover have "v mod 256 ^ Suc k div 256 = v div 256 mod 256 ^ k"
    using mod_mult2_eq [of v 256 "256 ^ k"] by simp
  ultimately show ?case using Suc.IH [of "v div 256"] by simp
qed simp

lemma write_sched_handles: "handles (\<lambda>t b out. out @ record_bytes t b) write_sched"
  using enc_le_mod [of 4]
  by (simp add: handles_def write_sched_def record_bytes_def enc_be_def)

lemma fold_recording: "fold (\<lambda>f out. out @ record_bytes (f_time f) (f_buf f)) fs out = out @ recording fs"
  by (induction fs arbitrary: out) simp_all

lemma fread_append: "length bs = n \<Longrightarrow> fread n \<lparr>fl_bytes = bs @ rest, fl_eof = e\<rparr> = (bs, \<lparr>fl_bytes = rest, fl_eof = e\<rparr>)"
  by (simp add: fread_def)

lemma fread_empty: "0 < n \<Longrightarrow> fread n \<lparr>fl_bytes = [], fl_eof = e\<rparr> = ([], \<lparr>fl_bytes = [], fl_eof = True\<rparr>)"
  by (simp add: fread_def)

definition read_frame :: "byte list \<Rightarrow> addr \<Rightarrow> frame \<Rightarrow> frame" where
  "read_frame stk m f = f\<lparr>f_stk := stk, f_module := Some m\<rparr>"

context jack_ringbuffer
begin

lemma read_record:
  assumes ok: "ok r" and m: "valid_ptr (Some m)" and b: "length buffer = TJOST_BUF_SIZE"
    and f: "length (f_buf f) + 48 \<le> TJOST_BUF_SIZE" "osc_check_message Q (f_buf f)"
    and s: "rb_write_space J r > TJOST_BUF_SIZE"
  shows "\<exists>r' b'. read_asio Q J stk m (r, buffer, \<lparr>fl_bytes = record_bytes (f_time f) (f_buf f) @ rest, fl_eof = False\<rparr>) err =
      read_asio Q J stk m (r', b', \<lparr>fl_bytes = rest, fl_eof = False\<rparr>) err \<and>
    ok r' \<and> cap r' = cap r \<and> contents r' = contents r @ frame_bytes (read_frame stk m f) \<and> length b' = TJOST_BUF_SIZE"
proof -
  let ?f = "read_frame stk m f" and ?n = "length (f_buf f)"
  let ?b = "overlay buffer (f_buf f)"
  have n: "?n < 256 ^ 4" "?n \<le> length buffer" using f(1) b by (simp_all add: TJOST_BUF_SIZE_def)
  have v: "valid_frame ?f" using m f(1) by (simp add: valid_frame_def read_frame_def TJOST_BUF_SIZE_def)
  have "48 + length (f_buf ?f) \<le> rb_write_space J r" using f(1) s by (simp add: read_frame_def)
  from produce_ok [OF ok v this] obtain r' where
    p: "tjost_pipe_produce J stk r (Some m) (f_time f) (f_buf f) = (0, r')"
    and r': "ok r'" "cap r' = cap r" "contents r' = contents r @ frame_bytes ?f"
    by (auto simp: read_frame_def)
  have t: "take ?n ?b = f_buf f" "length ?b = TJOST_BUF_SIZE" using b n(2) by (simp_all add: overlay_def)
  have "read_asio Q J stk m (r, buffer, \<lparr>fl_bytes = record_bytes (f_time f) (f_buf f) @ rest, fl_eof = False\<rparr>) err =
      read_asio Q J stk m (r', ?b, \<lparr>fl_bytes = rest, fl_eof = False\<rparr>) err"
    using s n p f(2) t(1)
    by (subst read_asio.simps)
      (simp add: tjost_pipe_space_def record_bytes_def fread_append overlay_full)
  with r' t(2) show ?thesis by blast
qed

lemma read_records:
  assumes m: "valid_ptr (Some m)"
  shows "ok r \<Longrightarrow> length buffer = TJOST_BUF_SIZE \<Longrightarrow>
    \<forall>f\<in>set fs. length (f_buf f) + 48 \<le> TJOST_BUF_SIZE \<and> osc_check_message Q (f_buf f) \<Longrightarrow>
    length (contents r) + length (pipe_bytes fs) + TJOST_BUF_SIZE < cap r \<Longrightarrow>
    \<exists>r' b'. read_asio Q J stk m (r, buffer, \<lparr>fl_bytes = recording fs, fl_eof = False\<rparr>) err =
      read_asio Q J stk m (r', b', \<lparr>fl_bytes = [], fl_eof = False\<rparr>) err \<and>
    ok r' \<and> cap r' = cap r \<and> contents r' = contents r @ pipe_bytes (map (read_frame stk m) fs) \<and>
    length b' = TJOST_BUF_SIZE"
proof (induction fs arbitrary: r buffer)
  case Nil
  then show ?case by auto
next
  case (Cons f fs)
  have s: "rb_write_space J r > TJOST_BUF_SIZE" using Cons.prems(1,4) by (simp add: write_space)
  from Cons.prems(3) have f: "length (f_buf f) + 48 \<le> TJOST_BUF_SIZE" "osc_check_message Q (f_buf f)" by simp_all
  from read_record [OF Cons.prems(1) m Cons.prems(2) f s, where rest = "recording fs" and err = err and stk = stk] obtain r1 b1 where
    r1: "read_asio Q J stk m (r, buffer, \<lparr>fl_bytes = recording (f # fs), fl_eof = False\<rparr>) err =
      read_asio Q J stk m (r1, b1, \<lparr>fl_bytes = recording fs, fl_eof = False\<rparr>) err"
    "ok r1" "cap r1 = cap r" "contents r1 = contents r @ frame_bytes (read_frame stk m f)"
    "length b1 = TJOST_BUF_SIZE" by auto
  have "length (contents r1) + length (pipe_bytes fs) + TJOST_BUF_SIZE < cap r1"
    using Cons.prems(4) r1(3,4) by (simp add: frame_bytes_def read_frame_def)
  from Cons.IH [OF r1(2,5) _ this] Cons.prems(3) r1 show ?case
    by (auto simp: frame_bytes_def pipe_bytes_def)
qed

text \<open>Behind the last record the loop goes round once more, with whatever the variables hold.\<close>

lemma read_end:
  assumes s: "rb_write_space J r > TJOST_BUF_SIZE" and b: "length buffer = TJOST_BUF_SIZE"
  shows "read_asio Q J stk m (r, buffer, \<lparr>fl_bytes = [], fl_eof = False\<rparr>) err =
    (let n = dec_be (fill_to 4 (drop 4 stk))
     in if n > TJOST_BUF_SIZE then None
        else if osc_check_message Q (take n buffer) then
          let (e, r') = tjost_pipe_produce J stk r (Some m) (of_nat (dec_be (fill_to 4 stk))) (take n buffer)
          in Some ((r', buffer, \<lparr>fl_bytes = [], fl_eof = True\<rparr>),
               if e \<noteq> 0 then err @ [''read: tjost_pipe_produce error''] else err)
        else Some ((r, buffer, \<lparr>fl_bytes = [], fl_eof = True\<rparr>), err @ [''read: rx OSC message invalid'']))"
proof -
  have stop: "read_asio Q J stk m (r', b', \<lparr>fl_bytes = [], fl_eof = True\<rparr>) e =
      Some ((r', b', \<lparr>fl_bytes = [], fl_eof = True\<rparr>), e)" for r' b' e
    by (simp add: read_asio.simps)
  have "fread n \<lparr>fl_bytes = [], fl_eof = True\<rparr> = ([], \<lparr>fl_bytes = [], fl_eof = True\<rparr>)" for n
    by (simp add: fread_def)
  then show ?thesis
    using s b by (subst read_asio.simps)
      (simp add: tjost_pipe_space_def fread_empty overlay_def Let_def stop split: prod.splits)
qed

end

end
