(* ===== verification/Recorder_Properties.thy ===== *)
theory Recorder_Properties
  imports Runtime_Properties Recorder Osc
begin

text \<open>The properties of the recorder and the player.\<close>

definition buffer0 :: "byte list" where
  "buffer0 = replicate TJOST_BUF_SIZE 0"

lemma length_buffer0 [simp]: "length buffer0 = TJOST_BUF_SIZE"
  by (simp only: buffer0_def length_replicate)

lemma recording_as_map: "recording fs = concat (map (\<lambda>f. record_bytes (f_time f) (f_buf f)) fs)"
  by (simp add: recording_def)

text \<open>C22. Recording. Over one period, \<open>write\<close> takes exactly the due events from its queue; once the
  event loop has run its callback, the file has grown by one record per due event, in order, each with
  the event's time relative to the start of the recording and its payload, and the transmit pipe is
  empty. (Events no longer than the module's buffer, that fit the pipe together.)\<close>
theorem recorder_records:
  assumes "tjost_env E contents cap rok live aok" and "host_wf rok live aok h" and "valid_ptr (Some m)"
    and "rok (wr_pipe d)" and "contents (wr_pipe d) = []" and "wr_offset d \<noteq> 0"
    and "write_process_out E n m (d, h) = Some (z, d', h')"
    and "es = map (stamped (last_frame h) (last_frame h)) (filter (due (last_frame h) n) (m_queue (module_at h m)))"
    and "\<forall>e\<in>set es. length (ev_buf e) \<le> TJOST_BUF_SIZE"
    and "length (pipe_bytes (map (out_frame E m (wr_offset d)) es)) \<le> cap (wr_pipe d)"
    and "length buf = TJOST_BUF_SIZE"
  shows "m_queue (module_at h' m) = filter (\<lambda>e. \<not> due (last_frame h) n e) (m_queue (module_at h m)) \<and>
    (\<exists>r b. pipe_asio (ring_api E) write_sched (wr_pipe d') (buf, out) =
      Some (r, b, out @ concat (map (\<lambda>e. record_bytes (ev_time e - wr_offset d) (ev_buf e)) es)) \<and> contents r = [])"
proof -
  let ?q = "m_queue (module_at h m)" and ?fs = "map (out_frame E m (wr_offset d)) es"
  note j = tjost_env.axioms(1) [OF assms(1)]
  from assms(6,7) obtain r1 h1 where
    dr: "drain E ''write'' (last_frame h) (last_frame h) n (Some m)
      (pipe_out_body E ''write: tjost_pipe_produce error'' (wr_offset d) m) ?q (wr_pipe d, h) = Some (r1, h1)"
    and d': "wr_pipe d' = r1"
    and h': "h' = h1 \<or> tjost_host_message_push E h1 ''write: tjost_pipe_flush error'' = Some h'"
    by (auto simp: write_process_out_def Let_def split: Option.bind_splits if_splits)
  have "\<forall>e\<in>set es. length (ev_buf e) + 48 < 2 ^ 64" using assms(9) by (fastforce simp: TJOST_BUF_SIZE_def)
  with tjost_env.pipe_out_drain [OF assms(1,2,3,4) _ dr, of "[]"] assms(5,8,10)
  have s: "m_queue (module_at h1 m) = filter (\<lambda>e. \<not> due (last_frame h) n e) ?q" "rok r1" "contents r1 = pipe_bytes ?fs"
    by auto
  have "m_queue (module_at h' m) = m_queue (module_at h1 m)"
    using h' message_push_frame(1) [of E h1 _ h'] queue_of_frame [of h1 h'] by (metis queue_of_simps(2))
  moreover have "\<forall>f\<in>set ?fs. valid_frame f" "\<forall>f\<in>set ?fs. length (f_buf f) \<le> length buf"
    using assms(3,9,11) by (auto simp: valid_frame_def TJOST_BUF_SIZE_def)
  from jack_ringbuffer.pipe_asio_spec [OF j s(2) this(1) s(3) write_sched_handles this(2), of out]
  obtain r b where "pipe_asio (ring_api E) write_sched r1 (buf, out) = Some (r, b, out @ recording ?fs)" "contents r = []"
    by (auto simp: fold_recording)
  ultimately show ?thesis using s(1) by (auto simp: d' recording_as_map o_def)
qed

definition host3 :: "(region, circ) host" where
  "host3 = host0\<lparr>module_at := (\<lambda>m. if m = 8 then mod0\<lparr>m_queue := [mk_event 1 None 110 [47, 97, 0, 0, 44, 0, 0, 0]]\<rparr> else mod0),
     tlsf := \<lparr>g_next = 100, g_room = 1000, g_blocks = [(1, 56)]\<rparr>, used := 56\<rparr>"

lemma queue_of_host3: "queue_of host3 = (\<lambda>i. [])(Some 8 := [mk_event 1 None 110 [47, 97, 0, 0, 44, 0, 0, 0]])"
  by (rule ext) (simp add: queue_of_def host3_def host0_def mod0_def split: option.splits)

lemma host3_ok: "host_wf circ_ok region_live region_ok host3"
  unfolding host_wf_def queues_ok_def queue_of_host3
  by (simp add: host3_def host0_def region_ok_def region_live_def)

lemma circ_produce_200:
  "tjost_pipe_produce circ_ops [] (circ_with [] 200) (Some 8) 10 [47, 97, 0, 0, 44, 0, 0, 0] =
    (0, snd (tjost_pipe_produce circ_ops [] (circ_with [] 200) (Some 8) 10 [47, 97, 0, 0, 44, 0, 0, 0]))"
  using circ.produce_ok [of "circ_with [] 200" "\<lparr>f_stk = [], f_module = Some 8, f_time = 10, f_buf = [47, 97, 0, 0, 44, 0, 0, 0]\<rparr>"]
    circ.write_space [of "circ_with [] 200"]
  by (auto simp: valid_frame_def valid_ptr_def)

theorem recorder_records_witness:
  "\<exists>d' h' r b. write_process_out ref_env 64 8 (\<lparr>wr_pipe = circ_with [] 200, wr_flushes = 0, wr_offset = 100\<rparr>, host3) =
      Some (0, d', h') \<and>
    pipe_asio circ_ops write_sched (wr_pipe d') (buffer0, []) =
      Some (r, b, [0, 0, 0, 10, 0, 0, 0, 8, 47, 97, 0, 0, 44, 0, 0, 0])"
proof -
  let ?d = "\<lparr>wr_pipe = circ_with [] 200, wr_flushes = 0, wr_offset = 100\<rparr>"
  have q: "m_queue (module_at host3 8) = [mk_event 1 None 110 [47, 97, 0, 0, 44, 0, 0, 0]]" "last_frame host3 = 100"
    by (simp_all add: host3_def host0_def)
  obtain r where p: "tjost_pipe_produce circ_ops [] (circ_with [] 200) (Some 8) 10 [47, 97, 0, 0, 44, 0, 0, 0] = (0, r)"
    using circ_produce_200 by blast
  have "drain ref_env ''write'' 100 100 64 (Some 8) (pipe_out_body ref_env ''write: tjost_pipe_produce error'' 100 8)
      [mk_event 1 None 110 [47, 97, 0, 0, 44, 0, 0, 0]] (circ_with [] 200, host3) =
      Some (r, tjost_free ref_env (dequeue (Some 8) 1 host3) (Some 1))"
    by (simp add: stamp_def pipe_out_body_def p del: One_nat_def)
  moreover obtain h2 where "tjost_host_message_push ref_env (tjost_free ref_env (dequeue (Some 8) 1 host3) (Some 1))
      ''write: tjost_pipe_flush error'' = Some h2"
    using message_push_Some [THEN iffD2, of "''write: tjost_pipe_flush error''"] by fastforce
  ultimately have "\<exists>d' h'. write_process_out ref_env 64 8 (?d, host3) = Some (0, d', h')"
    by (simp add: write_process_out_def q del: drain.simps One_nat_def)
  then obtain d' h' where w: "write_process_out ref_env 64 8 (?d, host3) = Some (0, d', h')" by blast
  have es: "map (stamped 100 100) (filter (due 100 64) (m_queue (module_at host3 8))) =
      [mk_event 1 None 110 [47, 97, 0, 0, 44, 0, 0, 0]]"
    by (simp add: q due_def stamped_def)
  have l: "length (pipe_bytes (map (out_frame ref_env 8 100) [mk_event 1 None 110 [47, 97, 0, 0, 44, 0, 0, 0]])) = 56"
    by simp
  have "valid_ptr (Some 8)" "length buffer0 = TJOST_BUF_SIZE" by (simp_all add: valid_ptr_def)
  from recorder_records [OF ref.tjost_env_axioms host3_ok this(1) _ _ _ w es [symmetric, folded q(2)] _ _ this(2), of "[]"] l
  show ?thesis using w by (auto simp: record_bytes_def enc_be_4 TJOST_BUF_SIZE_def)
qed


lemma osc_ref_checks: "osc_check_message osc_ref (f_buf frame1)" "\<not> osc_check_message osc_ref []"
  by (simp_all add: osc_ref_def frame1_def)


text \<open>The end of the file. When the file ends behind a record, the player's callback goes round once
  more on its uninitialised variables; if the size they hold is beyond the buffer, it reads past the
  buffer's end.\<close>
theorem read_past_end:
  assumes "jack_ringbuffer J contents cap ok" and "ok r" and "length buffer = TJOST_BUF_SIZE"
    and "valid_ptr (Some m)"
    and "\<forall>f\<in>set fs. length (f_buf f) + 48 \<le> TJOST_BUF_SIZE \<and> osc_check_message Q (f_buf f)"
    and "length (contents r) + length (pipe_bytes fs) + TJOST_BUF_SIZE < cap r"
    and "dec_be (fill_to 4 (drop 4 stk)) > TJOST_BUF_SIZE"
  shows "read_asio Q J stk m (r, buffer, \<lparr>fl_bytes = recording fs, fl_eof = False\<rparr>) err = None"
proof -
  note j = assms(1)
  from jack_ringbuffer.read_records [OF j assms(4,2,3,5,6), where err = err and stk = stk] obtain r1 b1 where
    r1: "read_asio Q J stk m (r, buffer, \<lparr>fl_bytes = recording fs, fl_eof = False\<rparr>) err =
      read_asio Q J stk m (r1, b1, \<lparr>fl_bytes = [], fl_eof = False\<rparr>) err"
    "ok r1" "cap r1 = cap r" "contents r1 = contents r @ pipe_bytes (map (read_frame stk m) fs)" "length b1 = TJOST_BUF_SIZE"
    by auto
  have "length (pipe_bytes (map (read_frame stk m) fs)) = length (pipe_bytes fs)"
    by (simp add: length_pipe_bytes read_frame_def o_def)
  then have "rb_write_space J r1 > TJOST_BUF_SIZE"
    using jack_ringbuffer.write_space [OF j r1(2)] r1(3,4) assms(6) by simp
  from jack_ringbuffer.read_end [OF j this r1(5), of Q stk m err] assms(7) r1(1) show ?thesis by simp
qed

theorem read_past_end_witness:
  "read_asio osc_ref circ_ops [0, 0, 0, 0, 0, 1, 0, 0] 8 (circ_with [] 20000, buffer0,
    \<lparr>fl_bytes = recording [frame1], fl_eof = False\<rparr>) [] = None"
proof (rule read_past_end [OF circ.jack_ringbuffer_axioms])
  show "TJOST_BUF_SIZE < dec_be (fill_to 4 (drop 4 [0, 0, 0, 0, 0, 1, 0, 0]))"
    by (simp add: dec_be_def fill_to_def TJOST_BUF_SIZE_def)
  show "\<forall>f\<in>set [frame1]. length (f_buf f) + 48 \<le> TJOST_BUF_SIZE \<and> osc_check_message osc_ref (f_buf f)"
    using osc_ref_checks by (simp add: TJOST_BUF_SIZE_def)
qed (simp_all add: TJOST_BUF_SIZE_def valid_ptr_def)

end
