(* ===== verification/Event_Sources.thy ===== *)
theory Event_Sources
  imports Pipe_Modules
begin

text \<open>
  Where the input modules get their events: the timer, the ALSA sequencer, the RtMidi device (in the
  event loop thread or the device's own, into the receive pipe), the OSC port and the transport of
  JACK (in the real-time thread, into the host queue).
\<close>

section \<open>Producing a checked message\<close>

text \<open>
  The common end of the callbacks: \<open>w\<close> is what the \<open>osc_set\<close> calls have written to the local buffer of
  \<open>len\<close> bytes, \<open>None\<close> if they answered NULL; the lines printed to standard error are returned.
\<close>

definition produce_checked ::
  "osc_ops \<Rightarrow> 'r ring_ops \<Rightarrow> byte list \<Rightarrow> string \<Rightarrow> addr \<Rightarrow> nat \<Rightarrow> byte list option \<Rightarrow> 'r \<Rightarrow> 'r \<times> string list" where
  "produce_checked Q J stk name m len w r =
     (case w of
        None \<Rightarrow> (r, [name @ '': rx OSC message invalid''])
      | Some bs \<Rightarrow>
          let buf = overlay (fill_to len (drop 28 stk)) bs
          in if osc_check_message Q buf then
               let (e, r1) = tjost_pipe_produce J stk r (Some m) 0 buf
               in (r1, if e \<noteq> 0 then [name @ '': tjost_pipe_produce error''] else [])
             else (r, [name @ '': rx OSC message invalid'']))"

section \<open>The timer\<close>

definition timer_timeup ::
  "osc_ops \<Rightarrow> 'r ring_ops \<Rightarrow> byte list \<Rightarrow> addr \<Rightarrow> 'r \<Rightarrow> 'r \<times> string list" where
  "timer_timeup Q J stk m r =
     produce_checked Q J stk ''timer'' m 12 (osc_set_fmt Q 12 (osc_set_path Q 12 (Some []) ''/timeup'') []) r"

section \<open>MIDI from the sequencer and the device\<close>

definition midi_of :: "osc_ops \<Rightarrow> byte list \<Rightarrow> byte list option" where
  "midi_of Q m = osc_set_arg Q 16 (osc_set_fmt Q 16 (osc_set_path Q 16 (Some []) ''/midi'') ''m'') (Osc_Midi m)"

text \<open>
  One round of the loop in \<open>_poll\<close>: the result of \<open>snd_midi_event_decode\<close>, the bytes it wrote behind
  the first of the four bytes of \<open>m\<close> (it may write sixteen), and whether freeing the event failed.
\<close>

record seq_event =
  sq_result :: int
  sq_bytes :: "byte list"
  sq_free_failed :: bool

definition seq_in_event ::
  "osc_ops \<Rightarrow> 'r ring_ops \<Rightarrow> byte list \<Rightarrow> addr \<Rightarrow> seq_event \<Rightarrow> byte list \<times> 'r \<Rightarrow> (byte list \<times> 'r \<times> string list) option" where
  "seq_in_event Q J stk m sev S =
     (if length (sq_bytes sev) > 3 then None
      else let m4 = take 1 (fst S) @ overlay (drop 1 (fst S)) (sq_bytes sev);
               (r, err) = (if sq_result sev = 3 then produce_checked Q J stk ''seq_in'' m 16 (midi_of Q m4) (snd S)
                           else (snd S, [''seq_in: event decode failed'']))
           in Some (m4, r, err @ (if sq_free_failed sev then [''seq_in: event free failed''] else [])))"

fun seq_in_rounds ::
  "osc_ops \<Rightarrow> 'r ring_ops \<Rightarrow> byte list \<Rightarrow> addr \<Rightarrow> seq_event list \<Rightarrow> byte list \<times> 'r \<Rightarrow> ('r \<times> string list) option" where
  "seq_in_rounds Q J stk m [] S = Some (snd S, [])"
| "seq_in_rounds Q J stk m (sev # sevs) S =
     do { (m4, r, err) \<leftarrow> seq_in_event Q J stk m sev S;
          (r1, errs) \<leftarrow> seq_in_rounds Q J stk m sevs (m4, r);
          Some (r1, err @ errs) }"

text \<open>\<open>sevs\<close> are the events until none is pending, at least one.\<close>

definition seq_in_poll ::
  "osc_ops \<Rightarrow> 'r ring_ops \<Rightarrow> (int \<Rightarrow> string) \<Rightarrow> byte list \<Rightarrow> addr \<Rightarrow> int \<Rightarrow> seq_event list \<Rightarrow> 'r \<Rightarrow>
   ('r \<times> string list) option" where
  "seq_in_poll Q J uv_err_name stk m status sevs r =
     (if status < 0 then Some (r, [''seq_in: '' @ uv_err_name status])
      else seq_in_rounds Q J stk m sevs ([0, 0, 0, 0], r))"

text \<open>
  \<open>_rtmidic_cb\<close>. From the address of the module's data it computes the module as if the data were
  embedded in it: \<open>offsetof(Tjost_Module, dat)\<close> is 72 on an LP64 target (the three list pointers, four
  callbacks, the type with its padding, the host pointer).
\<close>

definition offsetof_dat :: nat where "offsetof_dat = 72"

definition rtmidi_in_cb ::
  "osc_ops \<Rightarrow> 'r ring_ops \<Rightarrow> byte list \<Rightarrow> addr \<Rightarrow> byte list \<Rightarrow> 'r \<Rightarrow> ('r \<times> string list) option" where
  "rtmidi_in_cb Q J stk dat message r =
     (if length message < 3 then None
      else Some (produce_checked Q J stk ''seq_in'' (dat - offsetof_dat) 16
                   (midi_of Q [0, message ! 0, message ! 1, message ! 2]) r))"

section \<open>The OSC port\<close>

fun osc_in_loop ::
  "('t, 'r) env \<Rightarrow> addr \<Rightarrow> nframes \<Rightarrow> (nframes \<times> byte list) list \<Rightarrow> ('t, 'r) host \<Rightarrow> ('t, 'r) host option" where
  "osc_in_loop E m last_t [] h = Some h"
| "osc_in_loop E m last_t ((t, buf) # jevs) h =
     do { h1 \<leftarrow> tjost_host_schedule E h (Some m) (t + last_t) buf; osc_in_loop E m last_t jevs h1 }"

definition osc_in_process_in ::
  "('t, 'r) env \<Rightarrow> bool \<Rightarrow> addr \<Rightarrow> (nframes \<times> byte list) list \<Rightarrow> ('t, 'r) host \<Rightarrow> (int \<times> ('t, 'r) host) option" where
  "osc_in_process_in E port m jevs h =
     (if \<not> port then Some (0, h) else do { h1 \<leftarrow> osc_in_loop E m (last_frame h) jevs h; Some (0, h1) })"

section \<open>The transport\<close>

text \<open>
  The position of JACK, its \<open>valid\<close> flags as truth values. A state is its number: the fifth,
  \<open>JackTransportNetStarting\<close>, is missing in the table of paths.
\<close>

record position =
  pos_bar :: "32 word"
  pos_beat :: "32 word"
  pos_tick :: "32 word"
  pos_bbt_offset :: nframes
  pos_valid_bbt :: bool
  pos_valid_offset :: bool

record transport_data =
  tr_state :: nat
  tr_bar :: "32 word"
  tr_tick :: "32 word"
  tr_beat :: "32 word"
  tr_offset :: nframes

definition state_path :: "string list" where
  "state_path = [''/transport/stopped'', ''/transport/rolling'', ''/transport/looping'', ''/transport/starting'']"

definition transport_message :: "osc_ops \<Rightarrow> nat \<Rightarrow> position \<Rightarrow> byte list option" where
  "transport_message Q state pos =
     (let i = (\<lambda>b v w. osc_set_arg Q 44 w (Osc_Int32 (if b then v else 0)));
          w = osc_set_fmt Q 44 (osc_set_path Q 44 (Some []) (state_path ! state)) ''iiii''
      in i (pos_valid_offset pos) (pos_bbt_offset pos) (i (pos_valid_bbt pos) (pos_tick pos)
           (i (pos_valid_bbt pos) (pos_beat pos) (i (pos_valid_bbt pos) (pos_bar pos) w))))"

definition transport_process_in ::
  "osc_ops \<Rightarrow> ('t, 'r) env \<Rightarrow> addr \<Rightarrow> nat \<Rightarrow> position \<Rightarrow> transport_data \<times> ('t, 'r) host \<Rightarrow>
   (int \<times> transport_data \<times> ('t, 'r) host) option" where
  "transport_process_in Q E m state pos S =
     (let dat = fst S; h = snd S
      in if state \<noteq> tr_state dat \<or> pos_bar pos \<noteq> tr_bar dat \<or> pos_beat pos \<noteq> tr_beat dat \<or>
            pos_tick pos \<noteq> tr_tick dat \<or> pos_bbt_offset pos \<noteq> tr_offset dat then
           do { (a, h1) \<leftarrow> tjost_host_schedule_inline E h (Some m) (last_frame h) 44;
                bs \<leftarrow> (if state < length state_path then transport_message Q state pos else None);
                Some (0, dat\<lparr>tr_state := state, tr_bar := pos_bar pos, tr_beat := pos_beat pos,
                          tr_tick := pos_tick pos, tr_offset := pos_bbt_offset pos\<rparr>, store_event a bs h1) }
         else Some (0, S))"

end
