(* ===== verification/Event_Sinks.thy ===== *)
theory Event_Sinks
  imports Pipe_Modules
begin

text \<open>
  Where the output modules put their events: the OSC port (in the real-time thread), and in the event
  loop thread the ALSA sequencer, the RtMidi device and the serial line, as the callbacks of the
  transmit pipe. What is sent is returned as a list.
\<close>

section \<open>The OSC port\<close>

record 'b osc_port_ops =
  jack_osc_max_event_size :: "'b \<Rightarrow> nat"
  jack_osc_event_write :: "'b \<Rightarrow> nframes \<Rightarrow> byte list \<Rightarrow> 'b"

definition osc_out_body ::
  "'b osc_port_ops \<Rightarrow> ('t, 'r) env \<Rightarrow> nframes \<Rightarrow> event \<Rightarrow> 'b \<times> ('t, 'r) host \<Rightarrow> ('b \<times> ('t, 'r) host) option" where
  "osc_out_body K E last_t tev S =
     (if jack_osc_max_event_size K (fst S) < length (ev_buf tev)
      then do { h1 \<leftarrow> tjost_host_message_push E (snd S) ''osc_out: buffer overflow''; Some (fst S, h1) }
      else Some (jack_osc_event_write K (fst S) (ev_time tev - last_t) (ev_buf tev), snd S))"

text \<open>\<open>port_buf\<close> is the cleared buffer of the port.\<close>

definition osc_out_process_out ::
  "'b osc_port_ops \<Rightarrow> ('t, 'r) env \<Rightarrow> bool \<Rightarrow> nframes \<Rightarrow> addr \<Rightarrow> 'b \<Rightarrow> ('t, 'r) host \<Rightarrow>
   (int \<times> 'b \<times> ('t, 'r) host) option" where
  "osc_out_process_out K E port nframes m port_buf h =
     (if \<not> port then Some (0, port_buf, h)
      else do { (b, h1) \<leftarrow> drain E ''osc_out'' (last_frame h) (last_frame h) nframes (Some m)
                  (osc_out_body K E (last_frame h)) (m_queue (module_at h m)) (port_buf, h);
                Some (0, b, h1) })"

section \<open>MIDI to the sequencer and the device\<close>

text \<open>
  The sequencer gets each message with its time relative to the period, the device gets it at once.
  \<open>beyond\<close> is the memory behind the arguments of a message (see \<open>seq_midi\<close>).
\<close>

fun seq_out_calls :: "osc_ops \<Rightarrow> byte list \<Rightarrow> osc_call list \<Rightarrow> (nframes \<times> byte list) list" where
  "seq_out_calls Q beyond [] = []"
| "seq_out_calls Q beyond (Call t k p f args # cs) =
     map (\<lambda>M. (t, M)) (seq_midi Q f (args @ beyond)) @ seq_out_calls Q beyond cs"
| "seq_out_calls Q beyond (c # cs) = seq_out_calls Q beyond cs"

definition seq_out_sched ::
  "osc_ops \<Rightarrow> byte list \<Rightarrow> tev_hdr \<Rightarrow> unit \<Rightarrow> byte list \<times> (nframes \<times> byte list) list \<Rightarrow>
   (bool \<times> byte list \<times> (nframes \<times> byte list) list) option" where
  "seq_out_sched Q beyond tev u S =
     Some (False, fst S, snd S @
       seq_out_calls Q beyond (osc_dispatch_method Q (h_time tev) (take (h_size tev) (fst S)) any_method))"

fun rtmidi_out_calls :: "osc_ops \<Rightarrow> byte list \<Rightarrow> osc_call list \<Rightarrow> byte list list" where
  "rtmidi_out_calls Q beyond [] = []"
| "rtmidi_out_calls Q beyond (Call t k p f args # cs) =
     rtmidi_midi Q f (args @ beyond) @ rtmidi_out_calls Q beyond cs"
| "rtmidi_out_calls Q beyond (c # cs) = rtmidi_out_calls Q beyond cs"

definition rtmidi_out_sched ::
  "osc_ops \<Rightarrow> byte list \<Rightarrow> tev_hdr \<Rightarrow> unit \<Rightarrow> byte list \<times> byte list list \<Rightarrow>
   (bool \<times> byte list \<times> byte list list) option" where
  "rtmidi_out_sched Q beyond tev u S =
     Some (False, fst S, snd S @
       rtmidi_out_calls Q beyond (osc_dispatch_method Q (h_time tev) (take (h_size tev) (fst S)) any_method))"

section \<open>The serial line\<close>

definition serial_tx_sched ::
  "tev_hdr \<Rightarrow> unit \<Rightarrow> byte list \<times> byte list list \<Rightarrow> (bool \<times> byte list \<times> byte list list) option" where
  "serial_tx_sched tev u S = Some (False, fst S, snd S @ [take (h_size tev) (fst S)])"

end
