(* ===== verification/Net.thy ===== *)
theory Net
  imports Pipe_Modules
begin

text \<open>
  The event loop side of \<open>mod_net.c\<close> (used by \<open>net_in\<close> and \<open>net_out\<close>) and the receiving side of
  \<open>mod_serial.c\<close>: packets from the stream are unrolled into the receive pipe; the frames of the
  transmit ring are sent one at a time, the next when the stream reports that the last is out.
\<close>

section \<open>Receiving\<close>

text \<open>
  What \<open>osc_unroll_packet\<close> of the OSC library calls for a packet, in order, and whether the packet was
  valid. \<open>F\<close> is the frame of a time tag: the code converts it over the wall clock in doubles and
  asks JACK.
\<close>

datatype inject = Inject_Stamp "64 word" | Inject_Message "byte list" | Inject_Bundle "byte list"

record 'r net_rx =
  nr_pipe :: 'r
  nr_tstamp :: nframes

definition inject_stamp :: "(64 word \<Rightarrow> nframes) \<Rightarrow> 64 word \<Rightarrow> 'r net_rx \<Rightarrow> 'r net_rx" where
  "inject_stamp F tstamp N = N\<lparr>nr_tstamp := (if tstamp = 1 then 0 else F tstamp)\<rparr>"

definition inject_message ::
  "'r ring_ops \<Rightarrow> string \<Rightarrow> byte list \<Rightarrow> addr \<Rightarrow> byte list \<Rightarrow> 'r net_rx \<Rightarrow> 'r net_rx \<times> string list" where
  "inject_message J name stk m buf N =
     (let (e, r) = tjost_pipe_produce J stk (nr_pipe N) (Some m) (nr_tstamp N) buf
      in (N\<lparr>nr_pipe := r\<rparr>, if e \<noteq> 0 then [name @ '': tjost_pipe_produce error''] else []))"

text \<open>The time tag of a bundle is behind its first eight bytes.\<close>

definition inject_bundle ::
  "'r ring_ops \<Rightarrow> string \<Rightarrow> (64 word \<Rightarrow> nframes) \<Rightarrow> byte list \<Rightarrow> addr \<Rightarrow> byte list \<Rightarrow> 'r net_rx \<Rightarrow>
   ('r net_rx \<times> string list) option" where
  "inject_bundle J name F stk m buf N =
     (if length buf < 16 then None
      else Some (inject_message J name stk m buf (inject_stamp F (of_nat (dec_be (take 8 (drop 8 buf)))) N)))"

fun inject_all ::
  "'r ring_ops \<Rightarrow> string \<Rightarrow> (64 word \<Rightarrow> nframes) \<Rightarrow> byte list \<Rightarrow> addr \<Rightarrow> inject list \<Rightarrow> 'r net_rx \<Rightarrow>
   ('r net_rx \<times> string list) option" where
  "inject_all J name F stk m [] N = Some (N, [])"
| "inject_all J name F stk m (i # is) N =
     do { (N1, err) \<leftarrow> (case i of
            Inject_Stamp t \<Rightarrow> Some (inject_stamp F t N, [])
          | Inject_Message b \<Rightarrow> Some (inject_message J name stk m b N)
          | Inject_Bundle b \<Rightarrow> inject_bundle J name F stk m b N);
          (N2, errs) \<leftarrow> inject_all J name F stk m is N1;
          Some (N2, err @ errs) }"

definition mod_net_recv_cb ::
  "'r ring_ops \<Rightarrow> (64 word \<Rightarrow> nframes) \<Rightarrow> (byte list \<Rightarrow> inject list \<times> bool) \<Rightarrow> byte list \<Rightarrow> addr \<Rightarrow>
   byte list \<Rightarrow> 'r net_rx \<Rightarrow> ('r net_rx \<times> string list) option" where
  "mod_net_recv_cb J F osc_unroll_packet stk m buf N =
     (let (is, valid) = osc_unroll_packet buf
      in do { (N1, err) \<leftarrow> inject_all J ''net'' F stk m is N;
              Some (N1, if valid then err else err @ [''net: OSC packet not valid'']) })"

text \<open>The serial line does not convert time tags (the code returns before it would): all is immediate.\<close>

definition serial_frame_of :: "64 word \<Rightarrow> nframes" where
  "serial_frame_of tstamp = 0"

definition serial_recv_cb ::
  "'r ring_ops \<Rightarrow> (byte list \<Rightarrow> inject list \<times> bool) \<Rightarrow> byte list \<Rightarrow> addr \<Rightarrow>
   byte list \<Rightarrow> 'r net_rx \<Rightarrow> ('r net_rx \<times> string list) option" where
  "serial_recv_cb J osc_unroll_packet stk m buf N =
     (let (is, valid) = osc_unroll_packet buf
      in do { (N1, err) \<leftarrow> inject_all J ''serial'' serial_frame_of stk m is N;
              Some (N1, if valid then err else err @ [''serial: OSC packet unroll failed'']) })"

section \<open>Sending\<close>

text \<open>
  The bytes handed to \<open>osc_stream_send2\<close>: of the two pieces of the ring's read vector, as much as
  the size says. Only packets that begin like OSC ones are sent. \<open>ch\<close> is not initialised: if nothing
  can be peeked it is what the stack held.
\<close>

definition net_packet :: "'r ring_ops \<Rightarrow> byte \<Rightarrow> nat \<Rightarrow> 'r \<Rightarrow> byte list option" where
  "net_packet J stk_ch sz r =
     (let ch = (case rb_peek J r 1 of [] \<Rightarrow> stk_ch | b # bs \<Rightarrow> b); (v0, v1) = rb_read_vector J r
      in if ch = 35 \<or> ch = 47
         then Some (if sz \<le> length v0 then take sz v0 else v0 @ take (sz - length v0) v1)
         else None)"

text \<open>
  \<open>_next\<close>: the packet to send, if any, and the ring without the header. (The code also computes a time
  stamp here, which it does not use.)
\<close>

definition net_next :: "'r ring_ops \<Rightarrow> byte \<Rightarrow> 'r \<Rightarrow> byte list option \<times> 'r" where
  "net_next J stk_ch r =
     (if rb_read_space J r \<ge> sizeof_event then
        let sz = h_size (image_event (rb_peek J r sizeof_event))
        in if rb_read_space J r \<ge> size_add sizeof_event sz then
             let r1 = rb_read_advance J r sizeof_event in (net_packet J stk_ch (sz mod 2 ^ 32) r1, r1)
           else (None, r)
      else (None, r))"

definition mod_net_asio :: "'r ring_ops \<Rightarrow> byte \<Rightarrow> 'r \<Rightarrow> byte list option \<times> 'r" where
  "mod_net_asio J stk_ch r = net_next J stk_ch r"

definition mod_net_send_cb :: "'r ring_ops \<Rightarrow> byte \<Rightarrow> nat \<Rightarrow> 'r \<Rightarrow> byte list option \<times> 'r" where
  "mod_net_send_cb J stk_ch len r = net_next J stk_ch (rb_read_advance J r len)"

text \<open>
  The sending loop the two make together: a send is started, and each time the stream reports its
  bytes as sent the next one is started. The packets sent and the ring when no send is left; the
  number of rounds is bounded by the first argument.
\<close>

fun net_pump :: "nat \<Rightarrow> 'r ring_ops \<Rightarrow> byte \<Rightarrow> byte list option \<times> 'r \<Rightarrow> (byte list list \<times> 'r) option" where
  "net_pump n J stk_ch (None, r) = Some ([], r)"
| "net_pump 0 J stk_ch (Some b, r) = None"
| "net_pump (Suc n) J stk_ch (Some b, r) =
     do { (bs, r') \<leftarrow> net_pump n J stk_ch (mod_net_send_cb J stk_ch (length b) r); Some (b # bs, r') }"

section \<open>What is sent\<close>

definition osc_packet :: "byte list \<Rightarrow> bool" where
  "osc_packet b \<longleftrightarrow> b \<noteq> [] \<and> hd b \<in> {35, 47} \<and> length b < 2 ^ 32"

context jack_ringbuffer
begin

lemma net_next_frame:
  assumes ok: "ok r" and v: "valid_frame f" and p: "osc_packet (f_buf f)" and c: "contents r = frame_bytes f @ rest"
  obtains r1 where "net_next J ch r = (Some (f_buf f), r1)" "ok r1" "cap r1 = cap r" "contents r1 = f_buf f @ rest"
proof -
  let ?h = "event_image (f_stk f) (hdr f)" and ?r1 = "rb_read_advance J r sizeof_event"
  have c': "contents r = ?h @ f_buf f @ rest" using c by (simp add: frame_bytes_def)
  have r1: "ok ?r1" "cap ?r1 = cap r" "contents ?r1 = f_buf f @ rest"
    using advance [OF ok, of sizeof_event] c' by auto
  have pk: "rb_peek J r sizeof_event = ?h" using peek [OF ok] c' by simp
  have rs: "rb_read_space J r = sizeof_event + length (f_buf f) + length rest"
    using read_space [OF ok] c' by simp
  obtain b bs where b: "f_buf f = b # bs" "b = 35 \<or> b = 47" "length (f_buf f) < 2 ^ 32"
    using p by (cases "f_buf f") (auto simp: osc_packet_def)
  obtain v0 v1 where vec: "rb_read_vector J ?r1 = (v0, v1)" by fastforce
  then have vc: "v0 @ v1 = f_buf f @ rest" using vector [OF r1(1)] r1(3) by simp
  have "(if length (f_buf f) \<le> length v0 then take (length (f_buf f)) v0
      else v0 @ take (length (f_buf f) - length v0) v1) = take (length (f_buf f)) (v0 @ v1)" by simp
  also have "... = f_buf f" unfolding vc by simp
  finally have t: "(if length (f_buf f) \<le> length v0 then take (length (f_buf f)) v0
      else v0 @ take (length (f_buf f) - length v0) v1) = f_buf f" .
  have pk1: "rb_peek J ?r1 1 = [b]" using peek [OF r1(1), of 1] r1(3) b(1) by simp
  have "net_packet J ch (length (f_buf f)) ?r1 = Some (f_buf f)"
    unfolding net_packet_def pk1 vec Let_def list.case prod.case t using b(2) by simp
  then have "net_next J ch r = (Some (f_buf f), ?r1)"
    using b(3) by (simp add: net_next_def pk rs valid_frame_image [OF v] valid_frame_size_add [OF v] Let_def)
  with r1 that show thesis by blast
qed

lemma net_next_empty: "ok r \<Longrightarrow> contents r = [] \<Longrightarrow> net_next J ch r = (None, r)"
  by (simp add: net_next_def read_space)

lemma net_pump_sends:
  "ok r \<Longrightarrow> \<forall>f\<in>set fs. valid_frame f \<and> osc_packet (f_buf f) \<Longrightarrow> contents r = pipe_bytes fs \<Longrightarrow>
   \<exists>r'. net_pump (length fs) J ch (net_next J ch r) = Some (map f_buf fs, r') \<and> ok r' \<and> contents r' = []"
proof (induction fs arbitrary: r)
  case Nil
  then show ?case by (simp add: net_next_empty)
next
  case (Cons f fs)
  have f: "valid_frame f" "osc_packet (f_buf f)" using Cons.prems(2) by simp_all
  have "contents r = frame_bytes f @ pipe_bytes fs" using Cons.prems(3) by (simp add: frame_bytes_def)
  from net_next_frame [OF Cons.prems(1) f this, of ch] obtain r1 where
    r1: "net_next J ch r = (Some (f_buf f), r1)" "ok r1" "contents r1 = f_buf f @ pipe_bytes fs" by blast
  let ?r2 = "rb_read_advance J r1 (length (f_buf f))"
  have r2: "ok ?r2" "contents ?r2 = pipe_bytes fs" using advance [OF r1(2), of "length (f_buf f)"] r1(3) by simp_all
  from Cons.IH [OF r2(1) _ r2(2)] Cons.prems(2) show ?case
    by (auto simp: r1(1) mod_net_send_cb_def)
qed

text \<open>
  \<open>mod_net_asio\<close> while a send is under way: the ring begins with the packet being sent, whose bytes
  are taken for a header and dropped.
\<close>

lemma net_asio_during_send:
  assumes ok: "ok r" and c: "contents r = b @ rest" and len: "48 \<le> length b"
    and n: "size_add 48 (h_size (image_event (take 48 b))) \<le> length b + length rest"
  shows "contents (snd (mod_net_asio J ch r)) = drop 48 b @ rest"
    "length b \<le> length (drop 48 b @ rest) \<Longrightarrow>
      contents (rb_read_advance J (snd (mod_net_asio J ch r)) (length b)) = drop 48 rest"
proof -
  let ?r1 = "snd (mod_net_asio J ch r)"
  have pk: "rb_peek J r 48 = take 48 b" using peek [OF ok] c len by simp
  have rs: "rb_read_space J r = length b + length rest" using read_space [OF ok] c by simp
  have a: "ok (rb_read_advance J r 48)" "contents (rb_read_advance J r 48) = drop 48 b @ rest"
    using advance [OF ok, of 48] c len by simp_all
  have r1: "?r1 = rb_read_advance J r 48"
    using n len by (simp add: mod_net_asio_def net_next_def pk rs Let_def)
  show "contents ?r1 = drop 48 b @ rest" using a r1 by simp
  show "contents (rb_read_advance J ?r1 (length b)) = drop 48 rest"
    if "length b \<le> length (drop 48 b @ rest)"
    using advance [OF a(1), of "length b"] that len unfolding r1 a(2) by simp
qed

end

section \<open>The clock\<close>

definition JAN_1970 :: nat where "JAN_1970 = 0x83aa7e80"

text \<open>\<open>mod_net_sync\<close>: the wall clock in OSC seconds with the time of JACK at the same moment.\<close>

record net_clock =
  sync_sec :: nat
  sync_nsec :: nat
  sync_jack :: "64 word"

definition mod_net_sync :: "nat \<Rightarrow> nat \<Rightarrow> 64 word \<Rightarrow> net_clock" where
  "mod_net_sync sec nsec jack = \<lparr>sync_sec = sec + JAN_1970, sync_nsec = nsec, sync_jack = jack\<rparr>"

end
