(* ===== verification/Dump.thy ===== *)
theory Dump
  imports Pipe_Modules
begin

text \<open>
  The printer \<open>mod_dump.c\<close>: OSC packets as text on standard output. Its functions return the text with
  the lines printed to standard error. How \<open>printf\<close> prints a float or a double is an argument.
\<close>

section \<open>Formats\<close>

definition hex_digit :: "nat \<Rightarrow> char" where
  "hex_digit n = char_of (if n < 10 then 48 + n else 55 + n)"

text \<open>\<open>%0kX\<close> of a number of \<open>k\<close> digits.\<close>

fun show_hexn :: "nat \<Rightarrow> nat \<Rightarrow> string" where
  "show_hexn 0 v = []"
| "show_hexn (Suc k) v = show_hexn k (v div 16) @ [hex_digit (v mod 16)]"

text \<open>\<open>%4zu\<close>.\<close>

definition pad4 :: "string \<Rightarrow> string" where
  "pad4 s = replicate (4 - length s) (CHR '' '') @ s"

record printf_ops =
  show_float :: "32 word \<Rightarrow> string"
  show_double :: "64 word \<Rightarrow> string"

section \<open>Messages\<close>

text \<open>What is printed for an argument that was read.\<close>

definition dump_arg :: "printf_ops \<Rightarrow> bool \<Rightarrow> osc_arg \<Rightarrow> string" where
  "dump_arg P verbose a =
     (case a of
        Osc_Int32 i \<Rightarrow> '' '' @ show_int (sint i)
      | Osc_Float f \<Rightarrow> '' '' @ show_float P f
      | Osc_String s \<Rightarrow> '' '' @ [CHR 0x27] @ s @ [CHR 0x27]
      | Osc_Blob b \<Rightarrow> '' ('' @ show_int (int (length b)) @ '')'' @
          (if verbose then ''['' @ concat (map (\<lambda>x. show_hexn 2 (unat x) @ '','') b) @ [CHR 0x08] @ '']'' else [])
      | Osc_Int64 h \<Rightarrow> '' '' @ show_int (sint h)
      | Osc_Double d \<Rightarrow> '' '' @ show_double P d
      | Osc_Timetag t \<Rightarrow> '' '' @ show_hexn 8 (unat (drop_bit 32 t)) @ ''.'' @ show_hexn 8 (unat (t AND 0xFFFFFFFF))
      | Osc_Symbol s \<Rightarrow> '' '' @ [CHR 0x27] @ s @ [CHR 0x27]
      | Osc_Char c \<Rightarrow> '' '' @ [char_of (unat c)]
      | Osc_Midi m \<Rightarrow> '' ['' @ show_hexn 2 (unat (m ! 0)) @ '','' @ show_hexn 2 (unat (m ! 1)) @ '','' @
          show_hexn 2 (unat (m ! 2)) @ '','' @ show_hexn 2 (unat (m ! 3)) @ '']'')"

text \<open>The loop over the types; a symbol is read as a string, an unknown type is skipped.\<close>

fun dump_args :: "osc_ops \<Rightarrow> printf_ops \<Rightarrow> bool \<Rightarrow> string \<Rightarrow> byte list \<Rightarrow> string" where
  "dump_args Q P verbose [] p = []"
| "dump_args Q P verbose (c # cs) p =
     (if c \<in> set ''ifsbhdtcmS'' then
        let (a, p1) = osc_get_arg Q (if c = CHR ''S'' then CHR ''s'' else c) p
        in dump_arg P verbose a @ dump_args Q P verbose cs p1
      else dump_args Q P verbose cs (osc_skip Q c p))"

definition dump_message :: "osc_ops \<Rightarrow> printf_ops \<Rightarrow> bool \<Rightarrow> byte list \<Rightarrow> string" where
  "dump_message Q P verbose buf =
     (let (path, p1) = osc_get_path Q buf; (fmt, p2) = osc_get_fmt Q p1
      in '' '' @ path @ '' '' @ tl fmt @ dump_args Q P verbose (tl fmt) p2 @ [CHR 0x0A])"

section \<open>Bundles\<close>

definition tabs :: "nat \<Rightarrow> string" where
  "tabs n = replicate n (CHR 0x09)"

definition bundle_head :: "nat \<Rightarrow> byte list \<Rightarrow> string" where
  "bundle_head indent b =
     '' #bundle '' @ show_hexn 8 (dec_be (take 4 (drop 8 b))) @ ''.'' @ show_hexn 8 (dec_be (take 4 (drop 12 b))) @
     [CHR 0x0A] @ tabs indent @ ''['' @ [CHR 0x0A]"

text \<open>
  The items of a bundle of indentation \<open>indent\<close>, behind its header of sixteen bytes. An item that is
  neither a bundle nor a message ends the printing of its bundle, whose closing bracket is then
  missing; a size that leaves the bundle is a read outside it (\<open>None\<close>).
\<close>

function dump_items ::
  "osc_ops \<Rightarrow> printf_ops \<Rightarrow> bool \<Rightarrow> nat \<Rightarrow> byte list \<Rightarrow> (string \<times> string list) option" where
  "dump_items Q P verbose indent bs =
     (if bs = [] then Some (tabs indent @ '']'' @ [CHR 0x0A], [])
      else if length bs < 5 then None
      else let h = sint (of_nat (dec_be (take 4 bs)) :: 32 word); n = nat h; item = take n (drop 4 bs);
               c = bs ! 4; pre = tabs (indent + 1) @ show_int h @ '':''
           in if c \<noteq> 35 \<and> c \<noteq> 47 then
                Some ([], [''dump: not an OSC bundle item '' @ [CHR 0x27, char_of (unat c), CHR 0x27]])
              else if h < 1 \<or> length bs < n + 4 then None
              else do {
                (o1, e1) \<leftarrow> (if c = 35 then
                   if n < 16 then None
                   else do { (o1, e1) \<leftarrow> dump_items Q P verbose (indent + 1) (drop 16 item);
                             Some (bundle_head (indent + 1) item @ o1, e1) }
                 else Some (dump_message Q P verbose item, []));
                (o2, e2) \<leftarrow> dump_items Q P verbose indent (drop (n + 4) bs);
                Some (pre @ o1 @ o2, e1 @ e2) })"
  by pat_completeness auto

termination
  by (relation "measure (\<lambda>(Q, P, verbose, indent, bs). length bs)") auto

declare dump_items.simps [simp del]

definition dump_bundle ::
  "osc_ops \<Rightarrow> printf_ops \<Rightarrow> bool \<Rightarrow> nat \<Rightarrow> byte list \<Rightarrow> (string \<times> string list) option" where
  "dump_bundle Q P verbose indent b =
     (if length b < 16 then None
      else do { (o1, e1) \<leftarrow> dump_items Q P verbose indent (drop 16 b); Some (bundle_head indent b @ o1, e1) })"

section \<open>Packets\<close>

definition dump_packet ::
  "osc_ops \<Rightarrow> printf_ops \<Rightarrow> bool \<Rightarrow> nframes \<Rightarrow> byte list \<Rightarrow> byte \<Rightarrow> (string \<times> string list) option" where
  "dump_packet Q P verbose time buf first =
     (let pre = show_hexn 8 (unat time) @ '' '' @ pad4 (show_nat (length buf)) @ '':'' in
      if first = 35 then
        if osc_check_bundle Q buf
        then do { (o1, e1) \<leftarrow> dump_bundle Q P verbose 0 buf; Some (pre @ o1, e1) }
        else Some (pre, [''dump: tx OSC bundle invalid''])
      else if first = 47 then
        if osc_check_message Q buf then Some (pre @ dump_message Q P verbose buf, [])
        else Some (pre, [''dump: tx OSC message invalid''])
      else Some (pre, [''dump: tx OSC packet invalid'']))"

text \<open>\<open>_sched\<close>: the packet is in the module's buffer.\<close>

definition dump_sched ::
  "osc_ops \<Rightarrow> printf_ops \<Rightarrow> bool \<Rightarrow> tev_hdr \<Rightarrow> unit \<Rightarrow> byte list \<times> (string \<times> string list) \<Rightarrow>
   (bool \<times> byte list \<times> (string \<times> string list)) option" where
  "dump_sched Q P verbose tev u S =
     (let (buf, txt, err) = S
      in do { (o1, e1) \<leftarrow> dump_packet Q P verbose (h_time tev) (take (h_size tev) buf) (buf ! 0);
              Some (False, buf, txt @ o1, err @ e1) })"

section \<open>A message prints all its arguments\<close>

lemma dump_args_eq:
  assumes q: "osc_lib Q"
  shows "list_all osc_valid args \<Longrightarrow>
    dump_args Q P verbose (map osc_tag args) (concat (map osc_enc args)) = concat (map (dump_arg P verbose) args)"
proof (induction args)
  case (Cons a args)
  have v: "osc_valid a" using Cons.prems by simp
  have t: "osc_tag a \<in> set ''ifsbhdtcmS''" by (cases a) simp_all
  have "\<exists>a'. osc_get_arg Q (if osc_tag a = CHR ''S'' then CHR ''s'' else osc_tag a)
      (osc_enc a @ rest) = (a', rest) \<and> dump_arg P verbose a' = dump_arg P verbose a" for rest
  proof (cases a)
    case (Osc_Symbol s)
    then have "osc_get_arg Q (CHR ''s'') (osc_enc a @ rest) = (Osc_String s, rest)"
      using osc_lib.get_arg [OF q, of "Osc_String s" rest] v by simp
    then show ?thesis by (simp add: Osc_Symbol dump_arg_def)
  qed (use osc_lib.get_arg [OF q v, of rest] in \<open>simp_all\<close>)
  then obtain a' where g: "osc_get_arg Q (if osc_tag a = CHR ''S'' then CHR ''s'' else osc_tag a)
      (osc_enc a @ concat (map osc_enc args)) = (a', concat (map osc_enc args))"
    "dump_arg P verbose a' = dump_arg P verbose a" by blast
  have "dump_args Q P verbose (osc_tag a # map osc_tag args) (osc_enc a @ concat (map osc_enc args)) =
      dump_arg P verbose a' @ dump_args Q P verbose (map osc_tag args) (concat (map osc_enc args))"
    by (simp only: dump_args.simps t if_True g(1) prod.case Let_def)
  then show ?case using Cons g(2) by simp
qed simp

lemma dump_message_eq:
  assumes q: "osc_lib Q" and p: "osc_check_path Q p" and v: "list_all osc_valid args"
  shows "dump_message Q P verbose (osc_message p args) =
    '' '' @ p @ '' '' @ map osc_tag args @ concat (map (dump_arg P verbose) args) @ [CHR 0x0A]"
  by (simp add: dump_message_def osc_message_def osc_lib.get_path [OF q p] osc_lib.get_fmt [OF q] dump_args_eq [OF q v])

end
