(* ===== verification/Send.thy ===== *)
theory Send
  imports Pipe_Modules
begin

text \<open>
  The module \<open>mod_send.c\<close>: a line typed on the terminal is cut into a path, a format and one token per
  argument, made into an OSC message and put into the receive pipe. The conversions of \<open>sscanf\<close>
  are an argument: \<open>None\<close> where it converts nothing.
\<close>

section \<open>Tokens\<close>

text \<open>\<open>isprint\<close> and \<open>isspace\<close> in the C locale.\<close>

definition c_isprint :: "byte \<Rightarrow> bool" where
  "c_isprint b \<longleftrightarrow> 32 \<le> b \<and> b < 127"

definition c_isspace :: "byte \<Rightarrow> bool" where
  "c_isspace b \<longleftrightarrow> b = 32 \<or> 9 \<le> b \<and> b < 14"

definition token_char :: "byte \<Rightarrow> bool" where
  "token_char b \<longleftrightarrow> c_isprint b \<and> b \<noteq> 32"

text \<open>
  The scanner is the rest of the line buffer from \<open>end\<close> on, with the number of bytes left of those that
  were read (\<open>end\<close> may pass them). A token is everything up to a blank, which is overwritten by a NUL;
  nothing stops the search at the end of what was read, only the end of the buffer does (\<open>None\<close>).
\<close>

type_synonym scanner = "int \<times> byte list"

definition next_token :: "scanner \<Rightarrow> (string \<times> scanner) option" where
  "next_token S =
     (let (n, rest) = S; tok = takeWhile token_char rest
      in if length tok = length rest then None
         else Some (string_of_bytes tok, n - int (length tok) - 1, drop (length tok + 1) rest))"

fun skip_space :: "scanner \<Rightarrow> scanner" where
  "skip_space (n, []) = (n, [])"
| "skip_space (n, b # bs) = (if n > 0 \<and> c_isspace b then skip_space (n - 1, bs) else (n, b # bs))"

section \<open>Arguments\<close>

record scan_ops =
  scan_int32 :: "string \<Rightarrow> 32 word option"
  scan_float :: "string \<Rightarrow> 32 word option"
  scan_int64 :: "string \<Rightarrow> 64 word option"
  scan_double :: "string \<Rightarrow> 64 word option"
  scan_timetag :: "string \<Rightarrow> 64 word option"
  scan_hex8 :: "string \<Rightarrow> byte option"
  scan_midi :: "string \<Rightarrow> byte list option"

definition mismatch :: "char \<Rightarrow> string" where
  "mismatch c = ''send: type mismatch at '' @ [CHR 0x27, c, CHR 0x27]"

text \<open>The bytes of a blob, two digits each; one that does not convert stays zero.\<close>

fun scan_blob :: "scan_ops \<Rightarrow> nat \<Rightarrow> string \<Rightarrow> byte list \<times> string list" where
  "scan_blob P 0 cur = ([], [])"
| "scan_blob P (Suc k) cur =
     (let (bs, err) = scan_blob P k (drop 2 cur)
      in case scan_hex8 P cur of
           Some b \<Rightarrow> (b # bs, err)
         | None \<Rightarrow> (0 # bs, mismatch (CHR ''b'') # err))"

definition converted :: "char \<Rightarrow> (byte list option \<Rightarrow> 'v \<Rightarrow> byte list option) \<Rightarrow> byte list option \<Rightarrow> 'v option \<Rightarrow>
    byte list option \<times> string list" where
  "converted c set_arg w v = (case v of Some x \<Rightarrow> (set_arg w x, []) | None \<Rightarrow> (w, [mismatch c]))"

definition send_put :: "osc_ops \<Rightarrow> ('v \<Rightarrow> osc_arg) \<Rightarrow> byte list option \<Rightarrow> 'v \<Rightarrow> byte list option" where
  "send_put Q f w x = osc_set_arg Q TJOST_BUF_SIZE w (f x)"

text \<open>The switch over the type; \<open>cur\<close> is the current token.\<close>

definition send_arg ::
  "osc_ops \<Rightarrow> scan_ops \<Rightarrow> char \<Rightarrow> string \<Rightarrow> byte list option \<Rightarrow> byte list option \<times> string list" where
  "send_arg Q P c cur w =
     (if c = CHR ''i'' then converted c (send_put Q Osc_Int32) w (scan_int32 P cur)
      else if c = CHR ''f'' then converted c (send_put Q Osc_Float) w (scan_float P cur)
      else if c = CHR ''s'' then (send_put Q Osc_String w cur, [])
      else if c = CHR ''b'' then
        let (bs, err) = scan_blob P (length cur div 2) cur in (send_put Q Osc_Blob w bs, err)
      else if c = CHR ''h'' then converted c (send_put Q Osc_Int64) w (scan_int64 P cur)
      else if c = CHR ''d'' then converted c (send_put Q Osc_Double) w (scan_double P cur)
      else if c = CHR ''t'' then converted c (send_put Q Osc_Timetag) w (scan_timetag P cur)
      else if c = CHR ''S'' then (send_put Q Osc_Symbol w cur, [])
      else if c = CHR ''c'' then (send_put Q Osc_Char w (case cur of [] \<Rightarrow> 0 | x # xs \<Rightarrow> of_char x), [])
      else if c = CHR ''m'' then converted c (send_put Q Osc_Midi) w (scan_midi P cur)
      else (w, []))"

text \<open>The loop over the types. Where a token is missing, \<open>cur\<close> stays the token before.\<close>

fun send_args ::
  "osc_ops \<Rightarrow> scan_ops \<Rightarrow> string \<Rightarrow> string \<Rightarrow> scanner \<Rightarrow> byte list option \<Rightarrow>
   (byte list option \<times> string list) option" where
  "send_args Q P [] cur S w = Some (w, [])"
| "send_args Q P (c # cs) cur S w =
     (if c \<in> set ''TFNI'' then
        send_args Q P cs cur S w
      else do {
        (tok, S1, miss) \<leftarrow> (if fst S > 0 then do { (t, S1) \<leftarrow> next_token S; Some (t, S1, []) }
                            else Some (cur, S, [''send: argument '' @ [CHR 0x27, c, CHR 0x27] @ '' missing'']));
        let (w1, e) = send_arg Q P c tok w
        in do { (w2, errs) \<leftarrow> send_args Q P cs tok (skip_space S1) w1; Some (w2, miss @ e @ errs) } })"

section \<open>The line\<close>

text \<open>
  \<open>_tty_recv_cb\<close> for a line: \<open>line\<close> is the whole buffer of 1024 bytes, \<open>nread\<close> of them just read. The pipe
  and the lines printed.
\<close>

definition send_recv ::
  "osc_ops \<Rightarrow> scan_ops \<Rightarrow> 'r ring_ops \<Rightarrow> byte list \<Rightarrow> addr \<Rightarrow> nat \<Rightarrow> byte list \<Rightarrow> 'r \<Rightarrow> ('r \<times> string list) option" where
  "send_recv Q P J stk m nread line r =
     do {
       (path, S1) \<leftarrow> next_token (int nread, line);
       if \<not> osc_check_path Q path then Some (r, [''send: invalid path: '' @ path])
       else do {
         let S2 = skip_space S1;
         (fmt, S3) \<leftarrow> (if fst S2 > 0 then next_token S2 else Some ([], S2));
         if \<not> osc_check_fmt Q fmt then Some (r, [''send: invalid format: '' @ fmt])
         else do {
           (w, errs) \<leftarrow> send_args Q P fmt (if fst S2 > 0 then fmt else path) (skip_space S3)
             (osc_set_fmt Q TJOST_BUF_SIZE (osc_set_path Q TJOST_BUF_SIZE (Some []) path) fmt);
           case w of
             None \<Rightarrow> Some (r, errs @ [''send: rx OSC message invalid''])
           | Some buf \<Rightarrow>
               if osc_check_message Q buf then
                 let (e, r1) = tjost_pipe_produce J stk r (Some m) 0 buf
                 in Some (r1, errs @ (if e \<noteq> 0 then [''send: tjost_pipe_produce error''] else []))
               else Some (r, errs @ [''send: rx OSC message invalid''])
         }
       }
     }"

text \<open>The end of the input: the errors of stopping and of the stream are printed.\<close>

definition send_eof :: "(int \<Rightarrow> string) \<Rightarrow> int \<Rightarrow> int \<Rightarrow> string list" where
  "send_eof uv_err_name stop nread =
     (if nread < 0 then (if stop \<noteq> 0 then [''send: '' @ uv_err_name stop] else []) @ [''send: '' @ uv_err_name nread]
      else [])"

section \<open>A well-formed line\<close>

text \<open>Which argument a token stands for.\<close>

fun reads :: "scan_ops \<Rightarrow> string \<Rightarrow> osc_arg \<Rightarrow> bool" where
  "reads P tok (Osc_Int32 v) \<longleftrightarrow> scan_int32 P tok = Some v"
| "reads P tok (Osc_Float v) \<longleftrightarrow> scan_float P tok = Some v"
| "reads P tok (Osc_String s) \<longleftrightarrow> tok = s"
| "reads P tok (Osc_Blob b) \<longleftrightarrow> length tok = 2 * length b \<and> (\<forall>i<length b. scan_hex8 P (drop (2 * i) tok) = Some (b ! i))"
| "reads P tok (Osc_Int64 v) \<longleftrightarrow> scan_int64 P tok = Some v"
| "reads P tok (Osc_Double v) \<longleftrightarrow> scan_double P tok = Some v"
| "reads P tok (Osc_Timetag v) \<longleftrightarrow> scan_timetag P tok = Some v"
| "reads P tok (Osc_Symbol s) \<longleftrightarrow> tok = s"
| "reads P tok (Osc_Char c) \<longleftrightarrow> (\<exists>x xs. tok = x # xs \<and> c = of_char x)"
| "reads P tok (Osc_Midi m) \<longleftrightarrow> scan_midi P tok = Some m"

lemma scan_blob_reads:
  "\<forall>i<length b. scan_hex8 P (drop (2 * i) tok) = Some (b ! i) \<Longrightarrow> scan_blob P (length b) tok = (b, [])"
proof (induction b arbitrary: tok)
  case (Cons x b)
  have "scan_hex8 P tok = Some x" using Cons.prems by (metis drop0 length_greater_0_conv list.discI mult_0_right nth_Cons_0)
  moreover have "\<forall>i<length b. scan_hex8 P (drop (2 * i) (drop 2 tok)) = Some (b ! i)"
    using Cons.prems by (metis Suc_less_eq add.commute drop_drop length_Cons mult_Suc_right nth_Cons_Suc)
  ultimately show ?case using Cons.IH [of "drop 2 tok"] by simp
qed simp

lemma send_arg_reads:
  "reads P tok a \<Longrightarrow> send_arg Q P (osc_tag a) tok w = (osc_set_arg Q TJOST_BUF_SIZE w a, [])"
  by (cases a) (auto simp: send_arg_def converted_def send_put_def scan_blob_reads)

text \<open>A token as it is typed, and the words of a line with a blank after each but a newline at the end.\<close>

definition token :: "string \<Rightarrow> bool" where
  "token t \<longleftrightarrow> t \<noteq> [] \<and> (\<forall>b\<in>set (bytes_of_string t). token_char b)"

fun words_text :: "string list \<Rightarrow> byte list" where
  "words_text [] = []"
| "words_text [t] = bytes_of_string t @ [10]"
| "words_text (t # ts) = bytes_of_string t @ [32] @ words_text ts"

lemma words_text_Cons: "words_text (t # ts) = bytes_of_string t @ [if ts = [] then 10 else 32] @ words_text ts"
  by (cases ts) simp_all

lemma next_token_word:
  assumes "token t"
  shows "next_token (int (length (words_text (t # ts))), words_text (t # ts) @ rest) =
    Some (t, int (length (words_text ts)), words_text ts @ rest)"
proof -
  let ?d = "if ts = [] then 10 else 32 :: byte" and ?r = "words_text ts @ rest"
  have d: "\<not> token_char ?d" by (simp add: token_char_def c_isprint_def)
  have w: "words_text (t # ts) @ rest = bytes_of_string t @ ?d # ?r" by (simp add: words_text_Cons del: words_text.simps)
  have t: "takeWhile token_char (bytes_of_string t @ ?d # ?r) = bytes_of_string t"
    using assms d by (subst takeWhile_append2) (auto simp: token_def)
  have "length (words_text (t # ts)) = length t + 1 + length (words_text ts)"
    by (simp add: words_text_Cons del: words_text.simps)
  then show ?thesis unfolding w next_token_def Let_def prod.case t by simp
qed

lemma skip_space_word: "ts = [] \<or> token (hd ts) \<Longrightarrow>
  skip_space (int (length (words_text ts)), words_text ts @ rest) = (int (length (words_text ts)), words_text ts @ rest)"
proof (cases ts)
  case Nil
  then show ?thesis by (cases rest) simp_all
next
  case (Cons t ts')
  assume "ts = [] \<or> token (hd ts)"
  then have t: "token t" using Cons by simp
  then obtain b bs where b: "bytes_of_string t = b # bs" "token_char b"
    by (cases "bytes_of_string t") (auto simp: token_def bytes_of_string_def)
  have "\<not> c_isspace b" using b(2) by (auto simp: c_isspace_def token_char_def c_isprint_def word_le_nat_alt word_less_nat_alt)
  then show ?thesis using b(1) by (simp add: Cons words_text_Cons del: words_text.simps)
qed

lemma words_text_pos: "ts \<noteq> [] \<Longrightarrow> 0 < length (words_text ts)"
  by (cases ts) (simp_all add: words_text_Cons del: words_text.simps)

lemma send_args_words:
  assumes q: "osc_lib Q"
  shows "list_all2 (reads P) toks args \<Longrightarrow> list_all token toks \<Longrightarrow> list_all osc_valid args \<Longrightarrow>
    length w + length (concat (map osc_enc args)) \<le> TJOST_BUF_SIZE \<Longrightarrow>
    send_args Q P (map osc_tag args) cur (int (length (words_text toks)), words_text toks @ rest) (Some w) =
      Some (Some (w @ concat (map osc_enc args)), [])"
proof (induction toks args arbitrary: cur w rule: list_all2_induct)
  case (Cons tok toks a args)
  have c: "osc_tag a \<notin> set ''TFNI''" by (cases a) simp_all
  have t: "token tok" "toks = [] \<or> token (hd toks)" using Cons.prems(1) by (cases toks; simp)+
  have put: "send_arg Q P (osc_tag a) tok (Some w) = (Some (w @ osc_enc a), [])"
    using send_arg_reads [OF Cons.hyps(1), of Q "Some w"] osc_lib.set_arg [OF q, of a TJOST_BUF_SIZE "Some w"] Cons.prems(2,3)
    by simp
  have "send_args Q P (map osc_tag args) tok (int (length (words_text toks)), words_text toks @ rest) (Some (w @ osc_enc a)) =
      Some (Some ((w @ osc_enc a) @ concat (map osc_enc args)), [])"
    using Cons.prems by (intro Cons.IH) simp_all
  moreover have "0 < length (words_text (tok # toks))" by (rule words_text_pos) simp
  ultimately show ?case
    using c by (simp add: next_token_word [OF t(1)] skip_space_word [OF t(2)] put del: words_text.simps set_simps)
qed simp

definition line_words :: "string \<Rightarrow> osc_arg list \<Rightarrow> string list \<Rightarrow> string list" where
  "line_words p args toks = p # (if args = [] then [] else map osc_tag args # toks)"

lemma token_tags: "args \<noteq> [] \<Longrightarrow> token (map osc_tag args)"
proof -
  have "token_char (of_char (osc_tag a))" for a
    by (cases a) (simp_all add: token_char_def c_isprint_def)
  then show "args \<noteq> [] \<Longrightarrow> token (map osc_tag args)"
    by (auto simp: token_def bytes_of_string_def)
qed

context jack_ringbuffer
begin

lemma send_line:
  assumes q: "osc_lib Q" and ok: "ok r" and m: "valid_ptr (Some m)"
    and p: "osc_check_path Q p" "token p" and f: "osc_check_fmt Q (map osc_tag args)"
    and a: "list_all2 (reads P) toks args" "list_all token toks" "list_all osc_valid args"
    and len: "length (osc_message p args) \<le> TJOST_BUF_SIZE" "48 + length (osc_message p args) \<le> rb_write_space J r"
  defines "text \<equiv> words_text (line_words p args toks)"
  shows "\<exists>r'. send_recv Q P J stk m (length text) (text @ rest) r = Some (r', []) \<and> ok r' \<and> cap r' = cap r \<and>
    contents r' = contents r @ frame_bytes \<lparr>f_stk = stk, f_module = Some m, f_time = 0, f_buf = osc_message p args\<rparr>"
proof -
  let ?msg = "osc_message p args"
  let ?f = "\<lparr>f_stk = stk, f_module = Some m, f_time = 0, f_buf = ?msg\<rparr>"
  let ?ws = "if args = [] then [] else map osc_tag args # toks"
  let ?w = "osc_str p @ osc_tags (map osc_tag args)"
  have v: "valid_frame ?f" using m len(1) by (simp add: valid_frame_def TJOST_BUF_SIZE_def)
  have "48 + length (f_buf ?f) \<le> rb_write_space J r" using len(2) by simp
  from produce_ok [OF ok v this] obtain r' where pr: "tjost_pipe_produce J stk r (Some m) 0 ?msg = (0, r')"
    "ok r'" "cap r' = cap r" "contents r' = contents r @ frame_bytes ?f" by auto
  have n1: "next_token (int (length text), text @ rest) = Some (p, int (length (words_text ?ws)), words_text ?ws @ rest)"
    unfolding text_def line_words_def by (rule next_token_word [OF p(2)])
  have "?ws = [] \<or> token (hd ?ws)" using token_tags [of args] by simp
  note s1 = skip_space_word [OF this, of rest]
  have set: "osc_set_fmt Q TJOST_BUF_SIZE (osc_set_path Q TJOST_BUF_SIZE (Some []) p) (map osc_tag args) = Some ?w"
    using len(1) by (simp add: osc_lib.set_path [OF q] osc_lib.set_fmt [OF q] osc_message_def)
  have wl: "length ?w + length (concat (map osc_enc args)) \<le> TJOST_BUF_SIZE" using len(1) by (simp add: osc_message_def)
  have msg: "?w @ concat (map osc_enc args) = ?msg" by (simp add: osc_message_def)
  have chk: "osc_check_message Q ?msg" using osc_lib.check [OF q p(1) a(3)] .
  show ?thesis
  proof (cases "args = []")
    case True
    then have z: "?w = ?msg" using msg by simp
    show ?thesis using n1 s1 p(1) f set chk pr(1) True unfolding z
      by (intro exI [of _ r']) (auto simp: send_recv_def pr(2-4))
  next
    case False
    then have ws: "?ws = map osc_tag args # toks" by simp
    have "toks \<noteq> []" using False a(1) by auto
    have tk: "toks = [] \<or> token (hd toks)" using a(2) by (cases toks) simp_all
    note n2 = next_token_word [OF token_tags [OF False], of toks rest]
    have pos: "0 < length (words_text (map osc_tag args # toks))" by (rule words_text_pos) simp
    note sa = send_args_words [OF q a wl, of "map osc_tag args" rest, unfolded msg]
    show ?thesis
      using n1 s1 p(1) f chk pr(1) pos unfolding ws
      by (intro exI [of _ r'])
        (simp add: send_recv_def n2 skip_space_word [OF tk] set sa pr(2-4) Let_def del: words_text.simps)
  qed
qed

end

end
