(* ===== verification/Module_Add.thy ===== *)
theory Module_Add
  imports Loopback
begin

text \<open>
  \<open>add\<close> and \<open>del\<close> of the plugin modules. \<open>add\<close> allocates the module's data, makes its library calls
  one by one and gives up at the first that fails with \<open>MOD_ADD_ERR\<close> (a message, -1); \<open>del\<close> undoes the
  library calls, prints what fails and frees the data. The results of the library calls are
  arguments; the options read from the Lua table only go into those calls.
\<close>

section \<open>The common shape\<close>

text \<open>A step: whether its call failed, and the message.\<close>

type_synonym add_step = "bool \<times> string"

fun add_steps ::
  "('t, 'r) env \<Rightarrow> string \<Rightarrow> add_step list \<Rightarrow> ('t, 'r) host \<Rightarrow> (int \<times> ('t, 'r) host) option" where
  "add_steps E name [] h = Some (0, h)"
| "add_steps E name ((failed, msg) # ss) h =
     (if failed then do { h1 \<leftarrow> tjost_host_message_push E h (name @ '': '' @ msg); Some (-1, h1) }
      else add_steps E name ss h)"

text \<open>A libuv call: its error code and the name \<open>uv_err_name\<close> has for it.\<close>

definition uv_step :: "(int \<Rightarrow> string) \<Rightarrow> int \<Rightarrow> add_step" where
  "uv_step uv_err_name err = (err \<noteq> 0, uv_err_name err)"

definition pipe_step_init :: "bool \<Rightarrow> add_step" where
  "pipe_step_init failed = (failed, ''could not initialize tjost pipe'')"

text \<open>
  The modules with data of their own. \<open>memset\<close> dereferences a failed allocation. The second result
  is what \<open>module->dat\<close> is set to, if it is.
\<close>

definition module_add ::
  "('t, 'r) env \<Rightarrow> string \<Rightarrow> nat \<Rightarrow> add_step list \<Rightarrow> 32 word \<Rightarrow> addr \<Rightarrow> ('t, 'r) host \<Rightarrow>
   (int \<times> addr option \<times> ('t, 'r) host) option" where
  "module_add E name sizeof_Data steps ty m h =
     do { (p, h1) \<leftarrow> tjost_alloc E h sizeof_Data;
          dat \<leftarrow> p;
          (r, h2) \<leftarrow> add_steps E name steps h1;
          if r = 0 then Some (0, Some dat, upd_module m (\<lambda>M. M\<lparr>m_type := ty\<rparr>) h2)
          else Some (r, None, h2) }"

text \<open>The modules whose data is the JACK port.\<close>

definition port_add ::
  "('t, 'r) env \<Rightarrow> string \<Rightarrow> addr \<Rightarrow> add_step list \<Rightarrow> 32 word \<Rightarrow> addr \<Rightarrow> ('t, 'r) host \<Rightarrow>
   (int \<times> addr option \<times> ('t, 'r) host) option" where
  "port_add E name port steps ty m h =
     do { (r, h1) \<leftarrow> add_steps E name ((port = 0, ''could not register jack port'') # steps) h;
          if r = 0 then Some (0, Some port, upd_module m (\<lambda>M. M\<lparr>m_type := ty\<rparr>) h1)
          else Some (r, None, h1) }"

section \<open>JACK ports\<close>

text \<open>With \<open>HAS_METADATA_API\<close>. \<open>pretty\<close> and \<open>kind\<close> tell that the property could not be set.\<close>

definition cv_in_add :: "('t, 'r) env \<Rightarrow> nat \<Rightarrow> addr \<Rightarrow> bool \<Rightarrow> bool \<Rightarrow> addr \<Rightarrow> ('t, 'r) host \<Rightarrow>
   (int \<times> addr option \<times> ('t, 'r) host) option" where
  "cv_in_add E sizeof_Data port pretty kind =
     module_add E ''cv_in'' sizeof_Data [(port = 0, ''could not register jack port''),
       (pretty, ''could not set prettyname''), (kind, ''could not set CV event type'')] TJOST_MODULE_INPUT"

definition cv_out_add :: "('t, 'r) env \<Rightarrow> nat \<Rightarrow> addr \<Rightarrow> bool \<Rightarrow> bool \<Rightarrow> addr \<Rightarrow> ('t, 'r) host \<Rightarrow>
   (int \<times> addr option \<times> ('t, 'r) host) option" where
  "cv_out_add E sizeof_Data port pretty kind =
     module_add E ''cv_out'' sizeof_Data [(port = 0, ''could not register jack port''),
       (pretty, ''could not set prettyname''), (kind, ''could not set CV event type'')] TJOST_MODULE_OUTPUT"

definition midi_in_add :: "('t, 'r) env \<Rightarrow> addr \<Rightarrow> bool \<Rightarrow> addr \<Rightarrow> ('t, 'r) host \<Rightarrow>
   (int \<times> addr option \<times> ('t, 'r) host) option" where
  "midi_in_add E port pretty = port_add E ''midi_in'' port [(pretty, ''could not set prettyname'')] TJOST_MODULE_INPUT"

definition midi_out_add :: "('t, 'r) env \<Rightarrow> addr \<Rightarrow> bool \<Rightarrow> addr \<Rightarrow> ('t, 'r) host \<Rightarrow>
   (int \<times> addr option \<times> ('t, 'r) host) option" where
  "midi_out_add E port pretty = port_add E ''midi_out'' port [(pretty, ''could not set prettyname'')] TJOST_MODULE_OUTPUT"

definition osc_in_add :: "('t, 'r) env \<Rightarrow> addr \<Rightarrow> bool \<Rightarrow> bool \<Rightarrow> addr \<Rightarrow> ('t, 'r) host \<Rightarrow>
   (int \<times> addr option \<times> ('t, 'r) host) option" where
  "osc_in_add E port pretty kind = port_add E ''osc_in'' port
     [(pretty, ''could not set prettyname''), (kind, ''could not set OSC event type'')] TJOST_MODULE_INPUT"

definition osc_out_add :: "('t, 'r) env \<Rightarrow> addr \<Rightarrow> bool \<Rightarrow> bool \<Rightarrow> addr \<Rightarrow> ('t, 'r) host \<Rightarrow>
   (int \<times> addr option \<times> ('t, 'r) host) option" where
  "osc_out_add E port pretty kind = port_add E ''osc_out'' port
     [(pretty, ''could not set prettyname''), (kind, ''could not set OSC event type'')] TJOST_MODULE_OUTPUT"

text \<open>\<open>mod_transport.c\<close> neither clears nor checks its data.\<close>

definition transport_add :: "('t, 'r) env \<Rightarrow> nat \<Rightarrow> addr \<Rightarrow> ('t, 'r) host \<Rightarrow>
   (int \<times> addr option \<times> ('t, 'r) host) option" where
  "transport_add E sizeof_Data m h =
     do { (p, h1) \<leftarrow> tjost_alloc E h sizeof_Data;
          Some (0, p, upd_module m (\<lambda>M. M\<lparr>m_type := TJOST_MODULE_INPUT\<rparr>) h1) }"

section \<open>Pipes and the event loop\<close>

definition send_add :: "('t, 'r) env \<Rightarrow> nat \<Rightarrow> (int \<Rightarrow> string) \<Rightarrow> bool \<Rightarrow> int \<Rightarrow> int \<Rightarrow> addr \<Rightarrow> ('t, 'r) host \<Rightarrow>
   (int \<times> addr option \<times> ('t, 'r) host) option" where
  "send_add E sizeof_Data uv_err_name pipe tty_init read_start =
     module_add E ''send'' sizeof_Data [pipe_step_init pipe, uv_step uv_err_name tty_init,
       uv_step uv_err_name read_start] TJOST_MODULE_INPUT"

definition timer_add :: "('t, 'r) env \<Rightarrow> nat \<Rightarrow> (int \<Rightarrow> string) \<Rightarrow> bool \<Rightarrow> int \<Rightarrow> int \<Rightarrow> addr \<Rightarrow> ('t, 'r) host \<Rightarrow>
   (int \<times> addr option \<times> ('t, 'r) host) option" where
  "timer_add E sizeof_Data uv_err_name pipe timer_init timer_start =
     module_add E ''timer'' sizeof_Data [pipe_step_init pipe, uv_step uv_err_name timer_init,
       uv_step uv_err_name timer_start] TJOST_MODULE_INPUT"

definition dump_add :: "('t, 'r) env \<Rightarrow> nat \<Rightarrow> bool \<Rightarrow> bool \<Rightarrow> addr \<Rightarrow> ('t, 'r) host \<Rightarrow>
   (int \<times> addr option \<times> ('t, 'r) host) option" where
  "dump_add E sizeof_Data pipe listen =
     module_add E ''dump'' sizeof_Data [pipe_step_init pipe,
       (listen, ''could not start listening in tjost pipe'')] TJOST_MODULE_OUTPUT"

text \<open>\<open>path\<close> tells whether a file was named; else standard input or output is used.\<close>

definition write_add :: "('t, 'r) env \<Rightarrow> nat \<Rightarrow> bool \<Rightarrow> bool \<Rightarrow> bool \<Rightarrow> addr \<Rightarrow> ('t, 'r) host \<Rightarrow>
   (int \<times> addr option \<times> ('t, 'r) host) option" where
  "write_add E sizeof_Data path opened pipe =
     module_add E ''write'' sizeof_Data [(path \<and> \<not> opened, ''could not open file handle''),
       pipe_step_init pipe] TJOST_MODULE_OUTPUT"

text \<open>\<open>header\<close> tells that the file begins with \<open>tjostbin\<close>.\<close>

definition read_add :: "('t, 'r) env \<Rightarrow> nat \<Rightarrow> (int \<Rightarrow> string) \<Rightarrow> bool \<Rightarrow> bool \<Rightarrow> bool \<Rightarrow> int \<Rightarrow> bool \<Rightarrow> addr \<Rightarrow>
   ('t, 'r) host \<Rightarrow> (int \<times> addr option \<times> ('t, 'r) host) option" where
  "read_add E sizeof_Data uv_err_name path opened header async_init pipe =
     module_add E ''read'' sizeof_Data [(path \<and> \<not> opened, ''could not open file handle''),
       (\<not> header, ''not an OSC binary file''), uv_step uv_err_name async_init, pipe_step_init pipe]
       TJOST_MODULE_INPUT"

definition serial_add :: "('t, 'r) env \<Rightarrow> nat \<Rightarrow> bool \<Rightarrow> bool \<Rightarrow> bool \<Rightarrow> bool \<Rightarrow> addr \<Rightarrow> ('t, 'r) host \<Rightarrow>
   (int \<times> addr option \<times> ('t, 'r) host) option" where
  "serial_add E sizeof_Data tx listen rx stream =
     module_add E ''serial'' sizeof_Data [(tx, ''could not initialize pipe_tx''),
       (listen, ''could not initialize pipe_tx''), (rx, ''could not initialize pipe_rx''),
       (stream, ''could not initialize pipe'')] TJOST_MODULE_IN_OUT"

section \<open>Sequencers and devices\<close>

text \<open>\<open>port\<close> and \<open>queue\<close> are the numbers ALSA answers.\<close>

definition seq_in_add :: "('t, 'r) env \<Rightarrow> nat \<Rightarrow> (int \<Rightarrow> string) \<Rightarrow> bool \<Rightarrow> bool \<Rightarrow> int \<Rightarrow> int \<Rightarrow> bool \<Rightarrow> int \<Rightarrow> bool \<Rightarrow> int \<Rightarrow>
   int \<Rightarrow> addr \<Rightarrow> ('t, 'r) host \<Rightarrow> (int \<times> addr option \<times> ('t, 'r) host) option" where
  "seq_in_add E sizeof_Data uv_err_name opened name port seq_queue event descriptors pipe poll_init poll_start =
     module_add E ''seq_in'' sizeof_Data [(opened, ''could not open sequencer''), (name, ''could not set name''),
       (port < 0, ''could not create port''), (seq_queue < 0, ''could not allocate queue''),
       (event, ''could not create event''), (descriptors \<noteq> 1, ''could not get poll descriptors''),
       pipe_step_init pipe, uv_step uv_err_name poll_init, uv_step uv_err_name poll_start] TJOST_MODULE_INPUT"

definition seq_out_add :: "('t, 'r) env \<Rightarrow> nat \<Rightarrow> bool \<Rightarrow> bool \<Rightarrow> int \<Rightarrow> int \<Rightarrow> bool \<Rightarrow> bool \<Rightarrow> addr \<Rightarrow> ('t, 'r) host \<Rightarrow>
   (int \<times> addr option \<times> ('t, 'r) host) option" where
  "seq_out_add E sizeof_Data opened name port seq_queue event pipe =
     module_add E ''seq_out'' sizeof_Data [(opened, ''could not create sequencer''), (name, ''could not set name''),
       (port < 0, ''could not create port''), (seq_queue < 0, ''could not allocate queue''),
       (event, ''could not create event''), pipe_step_init pipe] TJOST_MODULE_OUTPUT"

definition rtmidi_in_add :: "('t, 'r) env \<Rightarrow> nat \<Rightarrow> bool \<Rightarrow> bool \<Rightarrow> bool \<Rightarrow> bool \<Rightarrow> addr \<Rightarrow> ('t, 'r) host \<Rightarrow>
   (int \<times> addr option \<times> ('t, 'r) host) option" where
  "rtmidi_in_add E sizeof_Data dev port cb pipe =
     module_add E ''seq_in'' sizeof_Data [(\<not> dev, ''could not create device''),
       (port, ''could not open virtual port''), (cb, ''could not set callback''), pipe_step_init pipe] TJOST_MODULE_INPUT"

definition rtmidi_out_add :: "('t, 'r) env \<Rightarrow> nat \<Rightarrow> bool \<Rightarrow> bool \<Rightarrow> bool \<Rightarrow> addr \<Rightarrow> ('t, 'r) host \<Rightarrow>
   (int \<times> addr option \<times> ('t, 'r) host) option" where
  "rtmidi_out_add E sizeof_Data dev port pipe =
     module_add E ''rtmidi_out'' sizeof_Data [(\<not> dev, ''could not create device''),
       (port, ''could not open virtual port''), pipe_step_init pipe] TJOST_MODULE_OUTPUT"

section \<open>Sockets\<close>

text \<open>
  The steps \<open>net_in\<close> and \<open>net_out\<close> share; both go by the name \<open>net_in\<close>. The thread is created when the
  module is already set up, so a failure there leaves \<open>dat\<close> and \<open>type\<close> set.
\<close>

record net_calls =
  nc_rb_tx :: bool
  nc_pipe_rx :: bool
  nc_loop :: int
  nc_quit :: int
  nc_asio :: int
  nc_timer_init :: int
  nc_timer_start :: int
  nc_stream :: bool
  nc_thread :: int

definition net_steps :: "(int \<Rightarrow> string) \<Rightarrow> net_calls \<Rightarrow> add_step list" where
  "net_steps uv_err_name c =
     [(\<not> nc_rb_tx c, ''could not initialize ringbuffer''), (nc_pipe_rx c, ''could not initialize pipe_rx''),
      (nc_loop c \<noteq> 0, ''uv_loop_init failed''), uv_step uv_err_name (nc_quit c), uv_step uv_err_name (nc_asio c),
      uv_step uv_err_name (nc_timer_init c), uv_step uv_err_name (nc_timer_start c),
      (nc_stream c, ''could not initialize socket'')]"

definition net_add ::
  "('t, 'r) env \<Rightarrow> nat \<Rightarrow> (int \<Rightarrow> string) \<Rightarrow> net_calls \<Rightarrow> 32 word \<Rightarrow> addr \<Rightarrow> ('t, 'r) host \<Rightarrow>
   (int \<times> addr option \<times> ('t, 'r) host) option" where
  "net_add E sizeof_Data uv_err_name c ty m h =
     do { (r, dat, h1) \<leftarrow> module_add E ''net_in'' sizeof_Data (net_steps uv_err_name c) ty m h;
          if r = 0 then do {
            (r2, h2) \<leftarrow> add_steps E ''net_in'' [uv_step uv_err_name (nc_thread c)] h1;
            Some (r2, dat, h2) }
          else Some (r, dat, h1) }"

definition net_in_add ::
  "('t, 'r) env \<Rightarrow> nat \<Rightarrow> (int \<Rightarrow> string) \<Rightarrow> net_calls \<Rightarrow> bool \<Rightarrow> addr \<Rightarrow> ('t, 'r) host \<Rightarrow>
   (int \<times> addr option \<times> ('t, 'r) host) option" where
  "net_in_add E sizeof_Data uv_err_name c udp =
     net_add E sizeof_Data uv_err_name c (if udp then TJOST_MODULE_INPUT else TJOST_MODULE_IN_OUT)"

definition net_out_add ::
  "('t, 'r) env \<Rightarrow> nat \<Rightarrow> (int \<Rightarrow> string) \<Rightarrow> net_calls \<Rightarrow> addr \<Rightarrow> ('t, 'r) host \<Rightarrow>
   (int \<times> addr option \<times> ('t, 'r) host) option" where
  "net_out_add E sizeof_Data uv_err_name c = net_add E sizeof_Data uv_err_name c TJOST_MODULE_IN_OUT"

text \<open>The option \<open>unroll\<close>; any other word leaves the mode of the cleared structure.\<close>

datatype unroll_mode = Unroll_None | Unroll_Partial | Unroll_Full

definition unroll_option :: "unroll_mode \<Rightarrow> string \<Rightarrow> unroll_mode" where
  "unroll_option cleared s =
     (if s = ''none'' then Unroll_None else if s = ''partial'' then Unroll_Partial
      else if s = ''full'' then Unroll_Full else cleared)"

section \<open>Removing a module\<close>

text \<open>The lines printed for the calls that fail, and the host with the data freed.\<close>

definition del_lines :: "string \<Rightarrow> add_step list \<Rightarrow> string list" where
  "del_lines name ss = map (\<lambda>s. name @ '': '' @ snd s) (filter fst ss)"

definition module_del ::
  "('t, 'r) env \<Rightarrow> string \<Rightarrow> add_step list \<Rightarrow> addr option \<Rightarrow> ('t, 'r) host \<Rightarrow> string list \<times> ('t, 'r) host" where
  "module_del E name ss dat h = (del_lines name ss, tjost_free E h dat)"

text \<open>These only undo their registrations, whose results are not looked at.\<close>

definition cv_in_del :: "('t, 'r) env \<Rightarrow> addr option \<Rightarrow> ('t, 'r) host \<Rightarrow> string list \<times> ('t, 'r) host" where
  "cv_in_del E = module_del E ''cv_in'' []"

definition cv_out_del :: "('t, 'r) env \<Rightarrow> addr option \<Rightarrow> ('t, 'r) host \<Rightarrow> string list \<times> ('t, 'r) host" where
  "cv_out_del E = module_del E ''cv_out'' []"

definition send_del :: "('t, 'r) env \<Rightarrow> addr option \<Rightarrow> ('t, 'r) host \<Rightarrow> string list \<times> ('t, 'r) host" where
  "send_del E = module_del E ''send'' []"

definition dump_del :: "('t, 'r) env \<Rightarrow> addr option \<Rightarrow> ('t, 'r) host \<Rightarrow> string list \<times> ('t, 'r) host" where
  "dump_del E = module_del E ''dump'' []"

definition serial_del :: "('t, 'r) env \<Rightarrow> addr option \<Rightarrow> ('t, 'r) host \<Rightarrow> string list \<times> ('t, 'r) host" where
  "serial_del E = module_del E ''serial'' []"

definition transport_del :: "('t, 'r) env \<Rightarrow> addr option \<Rightarrow> ('t, 'r) host \<Rightarrow> string list \<times> ('t, 'r) host" where
  "transport_del E = module_del E ''transport'' []"

text \<open>
  The file modules close their file unless it is standard output (the player as well, whose default
  is standard input). The first result tells whether the file is closed.
\<close>

datatype stream = Stdin | Stdout | File addr

definition write_del ::
  "('t, 'r) env \<Rightarrow> stream option \<Rightarrow> addr option \<Rightarrow> ('t, 'r) host \<Rightarrow> bool \<times> ('t, 'r) host" where
  "write_del E f dat h = (f \<noteq> None \<and> f \<noteq> Some Stdout, tjost_free E h dat)"

definition read_del ::
  "('t, 'r) env \<Rightarrow> stream option \<Rightarrow> addr option \<Rightarrow> ('t, 'r) host \<Rightarrow> bool \<times> ('t, 'r) host" where
  "read_del E f dat h = (f \<noteq> None \<and> f \<noteq> Some Stdout, tjost_free E h dat)"

definition timer_del ::
  "('t, 'r) env \<Rightarrow> (int \<Rightarrow> string) \<Rightarrow> int \<Rightarrow> addr option \<Rightarrow> ('t, 'r) host \<Rightarrow> string list \<times> ('t, 'r) host" where
  "timer_del E uv_err_name stop = module_del E ''timer'' [uv_step uv_err_name stop]"

definition seq_in_del ::
  "('t, 'r) env \<Rightarrow> bool \<Rightarrow> bool \<Rightarrow> bool \<Rightarrow> addr option \<Rightarrow> ('t, 'r) host \<Rightarrow> string list \<times> ('t, 'r) host" where
  "seq_in_del E drained freed closed = module_del E ''seq_in''
     [(drained, ''draining output failed''), (freed, ''freeing queue failed''), (closed, ''close sequencer failed'')]"

definition seq_out_del ::
  "('t, 'r) env \<Rightarrow> bool \<Rightarrow> bool \<Rightarrow> bool \<Rightarrow> addr option \<Rightarrow> ('t, 'r) host \<Rightarrow> string list \<times> ('t, 'r) host" where
  "seq_out_del E drained freed closed = module_del E ''seq_out''
     [(drained, ''draining queue failed''), (freed, ''freeing queue failed''), (closed, ''closing sequencer failed'')]"

definition rtmidi_in_del ::
  "('t, 'r) env \<Rightarrow> bool \<Rightarrow> bool \<Rightarrow> bool \<Rightarrow> addr option \<Rightarrow> ('t, 'r) host \<Rightarrow> string list \<times> ('t, 'r) host" where
  "rtmidi_in_del E cb closed freed = module_del E ''seq_in''
     [(cb, ''could not unset callback''), (closed, ''could not close port''), (freed, ''could not free device'')]"

definition rtmidi_out_del ::
  "('t, 'r) env \<Rightarrow> bool \<Rightarrow> bool \<Rightarrow> addr option \<Rightarrow> ('t, 'r) host \<Rightarrow> string list \<times> ('t, 'r) host" where
  "rtmidi_out_del E closed freed = module_del E ''rtmidi_out''
     [(closed, ''could not close port''), (freed, ''could not free device'')]"

definition net_del ::
  "('t, 'r) env \<Rightarrow> (int \<Rightarrow> string) \<Rightarrow> int \<Rightarrow> int \<Rightarrow> int \<Rightarrow> addr option \<Rightarrow> ('t, 'r) host \<Rightarrow> string list \<times> ('t, 'r) host" where
  "net_del E uv_err_name quit join stop = module_del E ''net_in''
     [uv_step uv_err_name quit, uv_step uv_err_name join, uv_step uv_err_name stop]"

section \<open>What they do to the host\<close>

lemma add_steps_result:
  "add_steps E name ss h = Some (r, h') \<Longrightarrow>
   r = (if \<exists>s\<in>set ss. fst s then -1 else 0) \<and> (h' = h \<or> (\<exists>msg. tjost_host_message_push E h msg = Some h'))"
proof (induction ss)
  case (Cons s ss)
  obtain failed msg where s: "s = (failed, msg)" by fastforce
  show ?case
  proof (cases failed)
    case True
    with Cons.prems s show ?thesis by (auto split: Option.bind_splits)
  next
    case False
    with Cons.prems s have "add_steps E name ss h = Some (r, h')" by simp
    from Cons.IH [OF this] False show ?thesis by (simp add: s)
  qed
qed simp

lemma add_steps_total: "\<forall>s\<in>set ss. length name + length (snd s) < 1000 \<Longrightarrow> \<exists>x. add_steps E name ss h = Some x"
proof (induction ss)
  case (Cons s ss)
  obtain failed msg where s: "s = (failed, msg)" by fastforce
  with Cons.prems have "length (name @ '': '' @ msg) < 1024" by simp
  then obtain h1 where "tjost_host_message_push E h (name @ '': '' @ msg) = Some h1"
    unfolding message_push_Some [symmetric, of _ E h] by blast
  with Cons s show ?case by simp
qed simp

context tjost_env
begin

lemma add_steps_keeps:
  assumes ok: "host_ok h" and r: "add_steps E name ss h = Some (r, h')"
  shows "host_ok h'" "used_inv h' = used_inv h" "tlsf h' = tlsf h" "mem_frame h h'"
  using add_steps_result [OF r] ok message_push_ok [of h _ h'] message_push_used [of h _ h']
    message_push_frame(1,2) [of E h _ h'] by auto

lemma set_type_keeps:
  "queue_of (upd_module m (\<lambda>M. M\<lparr>m_type := ty\<rparr>) h) = queue_of h"
  "tlsf (upd_module m f h) = tlsf h" "used (upd_module m f h) = used h" "rb_msg (upd_module m f h) = rb_msg h"
  "m_type (module_at (upd_module m (\<lambda>M. M\<lparr>m_type := ty\<rparr>) h) m) = ty"
  by (auto simp: queue_of_def upd_module_def fun_eq_iff split: option.splits)

lemma module_add_spec:
  assumes ok: "host_ok h" and r: "module_add E name sz ss ty m h = Some (r, dat, h')"
  shows "host_ok h' \<and> (used_inv h \<longrightarrow> used_inv h') \<and> queue_of h' = queue_of h \<and>
    (\<exists>a s. live (tlsf h) a = None \<and> sz \<le> s \<and> live (tlsf h') = (live (tlsf h))(a \<mapsto> s) \<and>
      (if \<exists>s\<in>set ss. fst s then r = -1 \<and> dat = None \<and> module_at h' = module_at h
       else r = 0 \<and> dat = Some a \<and> m_type (module_at h' m) = ty))"
proof -
  from r obtain p h1 a r1 h2 where al: "tjost_alloc E h sz = Some (p, h1)" "p = Some a"
    and st: "add_steps E name ss h1 = Some (r1, h2)"
    and h': "(if r1 = 0 then Some (0, Some a, upd_module m (\<lambda>M. M\<lparr>m_type := ty\<rparr>) h2) else Some (r1, None, h2)) =
      Some (r, dat, h')"
    by (auto simp: module_add_def split: Option.bind_splits)
  have o: "aok (tlsf h)" "rok (rb_msg h)" using ok by (simp_all add: host_wf_def)
  note a = alloc_spec [OF o al(1)]
  have lv: "live (tlsf h) a = None" "\<exists>s\<ge>sz. live (tlsf h1) = (live (tlsf h))(a \<mapsto> s)"
    using a(5) [of a] al(2) by simp_all
  have ok1: "host_ok h1"
    using a(1-3) lv(2) ok queue_of_frame [OF a(1)]
    by (auto simp: host_wf_def intro: queues_ok_mono)
  note k = add_steps_keeps [OF ok1 st]
  have q: "queue_of h2 = queue_of h" "module_at h2 = module_at h"
    using queue_of_frame [OF k(4)] queue_of_frame [OF a(1)] a(1) k(4) by (simp_all add: mem_frameD)
  have h'2: "h' = h2 \<or> h' = upd_module m (\<lambda>M. M\<lparr>m_type := ty\<rparr>) h2" using h' by (auto split: if_splits)
  then have "queue_of h' = queue_of h2" "tlsf h' = tlsf h2" "used h' = used h2" "rb_msg h' = rb_msg h2"
    using set_type_keeps(1) [of m ty h2] set_type_keeps(2-4) [of m "\<lambda>M. M\<lparr>m_type := ty\<rparr>" h2] by auto
  then have c: "host_ok h'" "used_inv h \<longrightarrow> used_inv h'" "queue_of h' = queue_of h" "tlsf h' = tlsf h1"
    using k a(6) q(1) by (simp_all add: host_wf_def used_exact_def)
  show ?thesis
    using c lv add_steps_result [OF st] h' q(2) set_type_keeps(5) [of m ty h2]
    by (cases "\<exists>s\<in>set ss. fst s") auto
qed

end

end
