(* ===== verification/Stream_Properties.thy ===== *)
theory Stream_Properties
  imports Recorder_Properties Event_Sources Event_Sinks Net Dump Send Module_Add
begin

text \<open>
  The properties of the modules that connect the host with the world: how they are added, the typed
  lines of \<open>send\<close>, the packets of \<open>net\<close>, the device of \<open>rtmidi_in\<close>, the text of \<open>dump\<close>.
\<close>

section \<open>Adding a module\<close>

text \<open>C29. Adding a module. Whenever \<open>add\<close> returns, the host is well formed, no queue has changed, and one
  new block large enough for the module's data is allocated. If every step succeeded the module has
  that block as its data and its type is set; if one failed the answer is -1, the module is as it was,
  and the new block is still allocated although nothing points to it: it is lost.\<close>
theorem module_add_correct:
  assumes "tjost_env E contents cap rok live aok" and "host_wf rok live aok h"
    and "module_add E name sz steps ty m h = Some (r, dat, h')"
  shows "host_wf rok live aok h' \<and> (used_exact live h \<longrightarrow> used_exact live h') \<and> queue_of h' = queue_of h \<and>
    (\<exists>a s. live (tlsf h) a = None \<and> sz \<le> s \<and> live (tlsf h') = (live (tlsf h))(a \<mapsto> s) \<and>
      (if \<exists>s\<in>set steps. fst s then r = -1 \<and> dat = None \<and> module_at h' = module_at h
       else r = 0 \<and> dat = Some a \<and> m_type (module_at h' m) = ty))"
  using assms(2,3) by (rule tjost_env.module_add_spec [OF assms(1)])

theorem module_add_correct_witness:
  "\<exists>h'. timer_add ref_env 100 (\<lambda>e. ''EINVAL'') False (-22) 0 8 host0 = Some (-1, None, h') \<and>
    (\<exists>a s. 100 \<le> s \<and> region_live (tlsf h') = [a \<mapsto> s])"
proof -
  let ?ss = "[pipe_step_init False, uv_step (\<lambda>e. ''EINVAL'') (-22), uv_step (\<lambda>e. ''EINVAL'') 0]"
  obtain p h1 where a: "tjost_alloc ref_env host0 100 = Some (Some p, h1)"
    by (auto simp: tjost_alloc_def host0_def region_ops_def region_malloc_def)
  obtain h2 where "tjost_host_message_push ref_env h1 ''timer: EINVAL'' = Some h2"
    using message_push_Some [THEN iffD2, of "''timer: EINVAL''"] by fastforce
  then have t: "timer_add ref_env 100 (\<lambda>e. ''EINVAL'') False (-22) 0 8 host0 = Some (-1, None, h2)"
    by (simp add: timer_add_def module_add_def a pipe_step_init_def uv_step_def)
  have "region_live (tlsf host0) = (\<lambda>a. None)" by (simp add: host0_def region_live_def)
  with module_add_correct [OF ref.tjost_env_axioms host0_ok(1) t [unfolded timer_add_def]] t
  show ?thesis by auto
qed

section \<open>Typed lines\<close>

text \<open>C30. A typed line. A line of words with a blank after each, its first a valid path, the second a
  valid format and one more per type that stands for an argument of that type, becomes the OSC message
  with that path and those arguments: one frame for immediate execution is put into the pipe and
  nothing is printed, whatever the line buffer holds behind the line.\<close>
theorem send_line_correct:
  assumes "jack_ringbuffer J contents cap ok" and "osc_lib Q" and "ok r" and "valid_ptr (Some m)"
    and "osc_check_path Q p" and "token p" and "osc_check_fmt Q (map osc_tag args)"
    and "list_all2 (reads P) toks args" and "list_all token toks" and "list_all osc_valid args"
    and "length (osc_message p args) \<le> TJOST_BUF_SIZE" and "48 + length (osc_message p args) \<le> rb_write_space J r"
    and "text = words_text (line_words p args toks)"
  shows "\<exists>r'. send_recv Q P J stk m (length text) (text @ rest) r = Some (r', []) \<and>
    contents r' = contents r @ frame_bytes \<lparr>f_stk = stk, f_module = Some m, f_time = 0, f_buf = osc_message p args\<rparr>"
  using jack_ringbuffer.send_line [OF assms(1-12)] unfolding assms(13) by blast

definition no_scan :: scan_ops where
  "no_scan = \<lparr>scan_int32 = (\<lambda>s. if s = ''7'' then Some 7 else None), scan_float = (\<lambda>s. None), scan_int64 = (\<lambda>s. None),
     scan_double = (\<lambda>s. None), scan_timetag = (\<lambda>s. None), scan_hex8 = (\<lambda>s. None), scan_midi = (\<lambda>s. None)\<rparr>"

theorem send_line_correct_witness:
  "\<exists>r'. send_recv osc_ref no_scan circ_ops [] 8 11 (bytes_of_string ''/a is 7 xy'' @ 10 # replicate 100 0)
    (circ_with [] 200) = Some (r', []) \<and>
    circ_contents r' = frame_bytes \<lparr>f_stk = [], f_module = Some 8, f_time = 0,
      f_buf = osc_message ''/a'' [Osc_Int32 7, Osc_String ''xy'']\<rparr>"
proof -
  let ?args = "[Osc_Int32 7, Osc_String ''xy'']"
  have s: "rb_write_space circ_ops (circ_with [] 200) = 200" using circ.write_space [of "circ_with [] 200"] by simp
  have l: "length (osc_message ''/a'' ?args) = 16"
    by (simp add: osc_message_def length_osc_str length_osc_tags)
  have t: "token ''/a''" "list_all token [''7'', ''xy'']"
    by (simp_all add: token_def bytes_of_string_def token_char_def c_isprint_def)
  have c: "osc_check_path osc_ref ''/a''" "osc_check_fmt osc_ref (map osc_tag ?args)" "list_all osc_valid ?args"
    "list_all2 (reads no_scan) [''7'', ''xy''] ?args" "valid_ptr (Some 8)"
    by (simp_all add: osc_ref_def no_scan_def valid_ptr_def)
  have w: "words_text (line_words ''/a'' ?args [''7'', ''xy'']) = bytes_of_string ''/a is 7 xy'' @ [10]"
    by (simp add: line_words_def bytes_of_string_def)
  have k: "circ_ok (circ_with [] 200)" "length (osc_message ''/a'' ?args) \<le> TJOST_BUF_SIZE"
    "48 + length (osc_message ''/a'' ?args) \<le> rb_write_space circ_ops (circ_with [] 200)"
    by (simp_all only: l s, simp_all add: TJOST_BUF_SIZE_def)
  from send_line_correct [OF circ.jack_ringbuffer_axioms osc_ref.osc_lib_axioms k(1) c(5,1) t(1) c(2,4) t(2) c(3) k(2,3) refl,
      where stk = "[]" and rest = "replicate 100 0"]
  moreover have "length (bytes_of_string ''/a is 7 xy'' @ [10]) = 11" by simp
  ultimately show ?thesis unfolding w by (simp only: append_assoc append.simps, simp)
qed

section \<open>Packets to the network\<close>

text \<open>C31. Sending. Woken once, with nothing under way, \<open>net\<close> sends the payload of every frame in its
  ring, in order, each after the one before it is reported as sent, and leaves the ring empty (if all
  are OSC packets).\<close>
theorem net_sends_all:
  assumes "jack_ringbuffer J contents cap ok" and "ok r"
    and "\<forall>f\<in>set fs. valid_frame f \<and> osc_packet (f_buf f)" and "contents r = pipe_bytes fs"
  shows "\<exists>r'. net_pump (length fs) J ch (mod_net_asio J ch r) = Some (map f_buf fs, r') \<and> contents r' = []"
  using jack_ringbuffer.net_pump_sends [OF assms] by (auto simp: mod_net_asio_def)

theorem net_sends_all_witness:
  "\<exists>r'. net_pump 2 circ_ops 0 (mod_net_asio circ_ops 0 (circ_with (pipe_bytes [frame1, frame1]) 10)) =
    Some ([f_buf frame1, f_buf frame1], r') \<and> circ_contents r' = []"
proof -
  have "osc_packet (f_buf frame1)" by (simp add: osc_packet_def frame1_def)
  then have "\<forall>f\<in>set [frame1, frame1]. valid_frame f \<and> osc_packet (f_buf f)" by simp
  from net_sends_all [OF circ.jack_ringbuffer_axioms _ this, of "circ_with (pipe_bytes [frame1, frame1]) 10" 0]
  show ?thesis by (simp add: numeral_2_eq_2)
qed

text \<open>Woken while sending. The real-time thread wakes \<open>net\<close> in every period with events, also while a
  packet is under way. Then the packet at the front of the ring is taken for the header of a frame:
  its first 48 bytes are dropped, and when the send is reported as done, so are the first 48 bytes of
  what follows, which are the header of the next frame.\<close>
theorem net_woken_while_sending:
  assumes "jack_ringbuffer J contents cap ok" and "ok r" and "contents r = b @ frame_bytes f @ rest"
    and "48 \<le> length b" and "length b \<le> length (drop 48 b @ frame_bytes f @ rest)"
    and "size_add 48 (h_size (image_event (take 48 b))) \<le> length b + length (frame_bytes f @ rest)"
  shows "contents (rb_read_advance J (snd (mod_net_asio J ch r)) (length b)) = f_buf f @ rest"
proof -
  have "drop 48 (frame_bytes f @ rest) = f_buf f @ rest" by (simp add: frame_bytes_def)
  then show ?thesis using jack_ringbuffer.net_asio_during_send(2) [OF assms(1-4,6,5)] by simp
qed

theorem net_woken_while_sending_witness:
  "circ_contents (rb_read_advance circ_ops
    (snd (mod_net_asio circ_ops 0 (circ_with (replicate 48 0 @ frame_bytes frame1) 10))) 48) = f_buf frame1"
proof -
  let ?b = "replicate 48 0 :: byte list"
  have z: "dec_le (replicate n 0) = 0" for n by (induction n) simp_all
  have "drop 40 ?b = replicate 8 0" "take 8 (replicate 8 0) = (replicate 8 0 :: byte list)" by (simp_all only: drop_replicate take_replicate, simp_all)
  then have "h_size (image_event (take 48 ?b)) = 0" using z [of 8] by (simp add: image_event_def)
  then show ?thesis
    using net_woken_while_sending [OF circ.jack_ringbuffer_axioms, of "circ_with (?b @ frame_bytes frame1) 10" ?b frame1 "[]" 0]
    by (simp add: size_add_def frame_bytes_def)
qed

section \<open>The MIDI device\<close>

text \<open>A device message. The callback of \<open>rtmidi_in\<close> computes its module as if the module's data were
  part of it, and puts a frame with that pointer into the pipe; draining the pipe then follows the
  pointer to a host that is not there. With data and module in blocks of their own, the first MIDI
  message of the device makes the next period of the module undefined.\<close>
theorem rtmidi_in_faults:
  assumes "tjost_env E contents cap rok live aok" and "osc_lib Q" and "osc_check_path Q ''/midi''"
    and "rok r" and "contents r = []" and "64 \<le> cap r" and "3 \<le> length message"
    and "offsetof_dat < dat" and "dat < 2 ^ 64" and "dat \<noteq> m + offsetof_dat"
  shows "\<exists>r'. rtmidi_in_cb Q (ring_api E) stk dat message r = Some (r', []) \<and>
    rtmidi_in_process_in E m (r', h) = None"
proof -
  note j = tjost_env.axioms(1) [OF assms(1)]
  let ?m4 = "[0, message ! 0, message ! 1, message ! 2]" and ?mod = "dat - offsetof_dat"
  let ?msg = "osc_message ''/midi'' [Osc_Midi ?m4]"
  let ?f = "\<lparr>f_stk = stk, f_module = Some ?mod, f_time = 0, f_buf = ?msg\<rparr>"
  have len: "length ?msg = 16" by (simp add: osc_message_def length_osc_str length_osc_tags)
  have w: "midi_of Q ?m4 = Some ?msg"
    by (simp add: midi_of_def osc_lib.set_path [OF assms(2)] osc_lib.set_fmt [OF assms(2)] osc_lib.set_arg [OF assms(2)]
        length_osc_str length_osc_tags osc_message_def)
  have chk: "osc_check_message Q ?msg" using osc_lib.check [OF assms(2,3)] by simp
  have v: "valid_frame ?f" using assms(8,9) len by (simp add: valid_frame_def valid_ptr_def offsetof_dat_def)
  have "48 + length (f_buf ?f) \<le> rb_write_space (ring_api E) r"
    using jack_ringbuffer.write_space [OF j assms(4)] assms(5,6) len by simp
  from jack_ringbuffer.produce_ok [OF j assms(4) v this] obtain r' where
    p: "tjost_pipe_produce (ring_api E) stk r (Some ?mod) 0 ?msg = (0, r')" "rok r'" "contents r' = pipe_bytes [?f]"
    using assms(5) by (auto simp: frame_bytes_def)
  have cb: "rtmidi_in_cb Q (ring_api E) stk dat message r = Some (r', [])"
    using assms(7) p(1) w chk len by (simp add: rtmidi_in_cb_def produce_checked_def overlay_full)
  have "?mod \<noteq> m" using assms(8,10) by (simp add: offsetof_dat_def)
  then have "rtmidi_in_process_in E m (r', h) = None"
    using jack_ringbuffer.consume_refines [OF j p(2) _ p(3), of "rtmidi_in_alloc E m" store_event rx_sched h] v
    by (simp add: rtmidi_in_process_in_def rtmidi_in_alloc_def hdr_def)
  with cb show ?thesis by blast
qed

theorem rtmidi_in_faults_witness:
  "\<exists>r'. rtmidi_in_cb osc_ref circ_ops [] 20000 [144, 60, 100] (circ_with [] 200) = Some (r', []) \<and>
    rtmidi_in_process_in ref_env 8 (r', host0) = None"
  using rtmidi_in_faults [OF ref.tjost_env_axioms osc_ref.osc_lib_axioms, of "circ_with [] 200" "[144, 60, 100]" 20000 8 "[]" host0]
  by (simp add: osc_ref_def offsetof_dat_def)

section \<open>The printer\<close>

text \<open>Printing a message. \<open>dump\<close> prints of a valid message its path, its format and, in order, every
  argument with its value, none skipped or misread.\<close>
theorem dump_prints_message:
  assumes "osc_lib Q" and "osc_check_path Q p" and "list_all osc_valid args"
  shows "dump_message Q P verbose (osc_message p args) =
    '' '' @ p @ '' '' @ map osc_tag args @ concat (map (dump_arg P verbose) args) @ [CHR 0x0A]"
  using assms by (rule dump_message_eq)

theorem dump_prints_message_witness:
  "dump_message osc_ref \<lparr>show_float = (\<lambda>f. ''0.0''), show_double = (\<lambda>d. ''0.0'')\<rparr> False
    (osc_message ''/a'' [Osc_Int32 7, Osc_String ''xy'']) =
    '' /a is 7 '' @ [CHR 0x27] @ ''xy'' @ [CHR 0x27, CHR 0x0A]"
proof -
  have "of_char (CHR ''7'') = (55 :: nat)" by simp
  then have "char_of (55 :: nat) = CHR ''7''" by (metis char_of_char)
  then have "show_int 7 = ''7''" by (simp add: show_int_def show_nat.simps [of 7])
  then show ?thesis
    using dump_prints_message [OF osc_ref.osc_lib_axioms, of "''/a''" "[Osc_Int32 7, Osc_String ''xy'']"
      "\<lparr>show_float = (\<lambda>f. ''0.0''), show_double = (\<lambda>d. ''0.0'')\<rparr>" False]
    by (simp add: osc_ref_def dump_arg_def)
qed

end
