(* ===== verification/Ieee.thy ===== *)
theory Ieee
  imports Tjost_Prelude
begin

text \<open>
  The conversions of C between integers, \<open>float\<close> and \<open>double\<close> on their IEEE 754 bit patterns, with
  rounding to nearest even. Lua keeps its numbers as doubles, so every number an OSC message carries
  to or from Lua goes through one of them.
\<close>

section \<open>Conversions\<close>

fun ilog :: "nat \<Rightarrow> nat" where
  "ilog n = (if n < 2 then 0 else Suc (ilog (n div 2)))"

declare ilog.simps [simp del]

text \<open>\<open>x / 2 ^ k\<close>, rounded to nearest, ties to even.\<close>

definition rne :: "nat \<Rightarrow> nat \<Rightarrow> nat" where
  "rne x k =
     (let q = x div 2 ^ k; r = x mod 2 ^ k; half = 2 ^ (k - 1)
      in if k = 0 then x else if half < r \<or> (r = half \<and> odd q) then q + 1 else q)"

text \<open>The fields of a double: sign, exponent, mantissa.\<close>

definition double_of :: "nat \<Rightarrow> nat \<Rightarrow> nat \<Rightarrow> 64 word" where
  "double_of s e m = of_nat ((s * 2048 + e) * 4503599627370496 + m)"

definition dsign :: "64 word \<Rightarrow> nat" where "dsign d = unat d div 4503599627370496 div 2048"
definition dexp :: "64 word \<Rightarrow> nat" where "dexp d = unat d div 4503599627370496 mod 2048"
definition dman :: "64 word \<Rightarrow> nat" where "dman d = unat d mod 4503599627370496"

definition float_of :: "nat \<Rightarrow> nat \<Rightarrow> nat \<Rightarrow> 32 word" where
  "float_of s e m = of_nat ((s * 256 + e) * 8388608 + m)"

definition fsign :: "32 word \<Rightarrow> nat" where "fsign f = unat f div 8388608 div 256"
definition fexp :: "32 word \<Rightarrow> nat" where "fexp f = unat f div 8388608 mod 256"
definition fman :: "32 word \<Rightarrow> nat" where "fman f = unat f mod 8388608"

definition is_nan :: "32 word \<Rightarrow> bool" where
  "is_nan f \<longleftrightarrow> fexp f = 255 \<and> fman f \<noteq> 0"

text \<open>A signalling NaN becomes a quiet one.\<close>

definition float_to_double :: "32 word \<Rightarrow> 64 word" where
  "float_to_double f =
     (let s = fsign f; e = fexp f; m = fman f; k = ilog m in
      if e = 255 then double_of s 2047 (m * 2 ^ 29 + (if m \<noteq> 0 \<and> m < 2 ^ 22 then 2 ^ 51 else 0))
      else if e = 0 then
        (if m = 0 then double_of s 0 0 else double_of s (k + 874) ((m - 2 ^ k) * 2 ^ (52 - k)))
      else double_of s (e + 896) (m * 2 ^ 29))"

definition double_to_float :: "64 word \<Rightarrow> 32 word" where
  "double_to_float d =
     (let s = dsign d; e = dexp d; x = 4503599627370496 + dman d in
      if e = 2047 then
        (if dman d = 0 then float_of s 255 0 else float_of s 255 (2 ^ 22 + dman d div 2 ^ 29 mod 2 ^ 22))
      else if e = 0 then float_of s 0 0
      else if 897 \<le> e then float_of s 0 (min (255 * 8388608) ((e - 897) * 8388608 + rne x 29))
      else float_of s 0 (rne x (926 - e)))"

definition int_to_double :: "int \<Rightarrow> 64 word" where
  "int_to_double i =
     (let n = nat \<bar>i\<bar>; k = ilog n; s = (if i < 0 then 1 else 0) in
      if n = 0 then double_of 0 0 0
      else double_of s (k + 1022) (if k \<le> 52 then n * 2 ^ (52 - k) else rne n (k - 52)))"

text \<open>Truncation; infinities and NaNs have no integer value.\<close>

definition double_to_int :: "64 word \<Rightarrow> int option" where
  "double_to_int d =
     (let e = dexp d; x = 4503599627370496 + dman d;
          n = (if e = 0 then 0 else if 1075 \<le> e then x * 2 ^ (e - 1075) else x div 2 ^ (1075 - e))
      in if e = 2047 then None else Some (if dsign d = 1 then - int n else int n))"

section \<open>The fields\<close>

lemma double_fields:
  assumes "s < 2" "e < 2048" "m < 4503599627370496"
  shows "dsign (double_of s e m) = s" "dexp (double_of s e m) = e" "dman (double_of s e m) = m"
proof -
  have "(s * 2048 + e) * 4503599627370496 + m < 2 ^ LENGTH(64)" using assms by simp
  then have u: "unat (double_of s e m) = (s * 2048 + e) * 4503599627370496 + m"
    unfolding double_of_def by (rule of_nat_inverse [OF refl])
  have d: "unat (double_of s e m) div 4503599627370496 = s * 2048 + e"
    "unat (double_of s e m) mod 4503599627370496 = m"
    unfolding u using assms(3) by (simp_all only: div_mult_self3 mod_mult_self3 div_less mod_less)
  show "dsign (double_of s e m) = s" "dexp (double_of s e m) = e" "dman (double_of s e m) = m"
    unfolding dsign_def dexp_def dman_def d using assms(2) by simp_all
qed

lemma float_of_fields: "float_of (fsign f) (fexp f) (fman f) = f"
  unfolding float_of_def fsign_def fexp_def fman_def by simp

lemma float_carry: "float_of s 0 (e * 8388608 + m) = float_of s e m"
  by (simp add: float_of_def algebra_simps)

lemma float_bounds: "fsign f < 2" "fexp f < 256" "fman f < 8388608"
proof -
  have "unat f < 4294967296" by simp
  then show "fsign f < 2" unfolding fsign_def by (simp add: less_mult_imp_div_less)
qed (simp_all add: fexp_def fman_def)

lemma ilog_bounds: "0 < n \<Longrightarrow> 2 ^ ilog n \<le> n \<and> n < 2 * 2 ^ ilog n"
proof (induction n rule: ilog.induct)
  case (1 n)
  show ?case
  proof (cases "n < 2")
    case True
    with 1 show ?thesis by (simp add: ilog.simps [of n])
  next
    case False
    with 1 have "2 ^ ilog (n div 2) \<le> n div 2 \<and> n div 2 < 2 * 2 ^ ilog (n div 2)" by simp
    with False show ?thesis by (auto simp: ilog.simps [of n])
  qed
qed

lemma ilog_less: "0 < n \<Longrightarrow> n < 2 ^ j \<Longrightarrow> ilog n < j"
  using ilog_bounds [of n] by (meson le_less_trans power_less_imp_less_exp one_less_numeral_iff semiring_norm(76))

section \<open>Round trips\<close>

text \<open>Integers of up to 53 bits are doubles.\<close>

lemma double_to_int_scaled:
  assumes k: "k \<le> 52" and x: "x = n * 2 ^ (52 - k)" "4503599627370496 \<le> x" "x < 9007199254740992" and s: "s < 2"
  shows "double_to_int (double_of s (k + 1022) x) = Some (if s = 1 then - int n else int n)"
proof -
  have "double_of s (k + 1022) x = double_of s (k + 1023) (x - 4503599627370496)"
    using x(2) by (simp add: double_of_def algebra_simps)
  then have f: "dsign (double_of s (k + 1022) x) = s" "dexp (double_of s (k + 1022) x) = k + 1023"
    "4503599627370496 + dman (double_of s (k + 1022) x) = x"
    using double_fields [of s "k + 1023" "x - 4503599627370496"] k s x(2,3) by simp_all
  have e: "1075 - (k + 1023) = 52 - k" "1075 \<le> k + 1023 \<longleftrightarrow> k = 52" using k by auto
  have "(if k + 1023 = 0 then 0 else if k = 52 then x * 2 ^ (k + 1023 - 1075) else x div 2 ^ (52 - k)) = n"
    unfolding x(1) by (cases "k = 52") simp_all
  then show ?thesis unfolding double_to_int_def f Let_def e using k by simp
qed

lemma double_to_int_of_int:
  assumes "\<bar>i\<bar> < 2 ^ 53"
  shows "double_to_int (int_to_double i) = Some i"
proof (cases "i = 0")
  case True
  then show ?thesis using double_fields [of 0 0 0] by (simp add: int_to_double_def double_to_int_def Let_def)
next
  case False
  define n k where "n = nat \<bar>i\<bar>" and "k = ilog n"
  have n: "0 < n" "n < 2 ^ 53" using False assms by (simp_all add: n_def nat_less_iff)
  from ilog_less [OF n] have k: "k \<le> 52" by (simp add: k_def)
  then have p: "(2 :: nat) ^ k * 2 ^ (52 - k) = 4503599627370496" by (simp flip: power_add)
  have "2 ^ k * 2 ^ (52 - k) \<le> n * 2 ^ (52 - k)" "n * 2 ^ (52 - k) < 2 * 2 ^ k * 2 ^ (52 - k)"
    using ilog_bounds [OF n(1)] by (simp_all add: k_def)
  then have x: "4503599627370496 \<le> n * 2 ^ (52 - k)" "n * 2 ^ (52 - k) < 9007199254740992"
    using p by (simp_all only: mult.assoc)
  have "int_to_double i = double_of (if i < 0 then 1 else 0) (k + 1022) (n * 2 ^ (52 - k))"
    using n(1) k by (simp add: int_to_double_def Let_def flip: n_def k_def)
  also have "double_to_int \<dots> = Some (if i < 0 then - int n else int n)"
    using double_to_int_scaled [OF k refl x, of "if i < 0 then 1 else 0"] by simp
  finally show ?thesis by (simp add: n_def)
qed

text \<open>A float that is not a NaN survives the way through a double.\<close>

lemma rne_exact: "rne (q * 2 ^ k) k = q"
  by (auto simp: rne_def Let_def)

lemma double_to_float_of_float:
  assumes "\<not> is_nan f"
  shows "double_to_float (float_to_double f) = f"
proof -
  let ?s = "fsign f" let ?e = "fexp f" let ?m = "fman f" let ?k = "ilog ?m"
  note b = float_bounds [of f]
  consider (inf) "?e = 255" "?m = 0" | (zero) "?e = 0" "?m = 0" | (sub) "?e = 0" "0 < ?m" | (norm) "0 < ?e" "?e < 255"
    using assms b by (fastforce simp: is_nan_def)
  then show ?thesis
  proof cases
    case inf
    then show ?thesis using double_fields [of ?s 2047 0] b float_of_fields [of f]
      by (simp add: float_to_double_def double_to_float_def Let_def)
  next
    case zero
    then show ?thesis using double_fields [of ?s 0 0] b float_of_fields [of f]
      by (simp add: float_to_double_def double_to_float_def Let_def)
  next
    case sub
    have k: "?k < 23" using ilog_less [of ?m 23] sub b by simp
    then have p: "(2 :: nat) ^ ?k * 2 ^ (52 - ?k) = 4503599627370496" by (simp flip: power_add)
    have i: "2 ^ ?k \<le> ?m" "?m < 2 * 2 ^ ?k" using ilog_bounds [OF sub(2)] by simp_all
    let ?M = "(?m - 2 ^ ?k) * 2 ^ (52 - ?k)"
    have "?M < 2 ^ ?k * 2 ^ (52 - ?k)" using i by simp
    then have M: "?M < 4503599627370496" by (simp only: p)
    have "4503599627370496 + ?M = 2 ^ ?k * 2 ^ (52 - ?k) + ?M" by (simp only: p)
    also have "\<dots> = ?m * 2 ^ (52 - ?k)" using i(1) by (simp flip: add_mult_distrib)
    finally have x: "4503599627370496 + ?M = ?m * 2 ^ (52 - ?k)" .
    have "double_to_float (float_to_double f) = float_of ?s 0 (rne (?m * 2 ^ (52 - ?k)) (52 - ?k))"
      using double_fields [of ?s "?k + 874" ?M] b k sub M x
      by (simp add: float_to_double_def double_to_float_def Let_def)
    then show ?thesis using sub float_of_fields [of f] by (simp only: rne_exact)
  next
    case norm
    have M: "?m * 2 ^ 29 < 4503599627370496" using b by simp
    have x: "4503599627370496 + ?m * 2 ^ 29 = (8388608 + ?m) * 2 ^ 29" by simp
    have c: "(?e - Suc 0) * 8388608 + (8388608 + ?m) = ?e * 8388608 + ?m"
      using norm by (cases ?e) simp_all
    have fl: "float_of ?s 0 ((?e - Suc 0) * 8388608 + (8388608 + ?m)) = float_of ?s 0 (?e * 8388608 + ?m)"
      using c by (rule arg_cong)
    have "?e * 8388608 + ?m \<le> 255 * 8388608" using b norm by simp
    then have "double_to_float (float_to_double f) = float_of ?s 0 (?e * 8388608 + ?m)"
      using double_fields [of ?s "?e + 896" "?m * 2 ^ 29"] b norm M
      by (simp add: float_to_double_def double_to_float_def Let_def x rne_exact fl del: power_numeral)
    then show ?thesis by (simp only: float_carry float_of_fields)
  qed
qed

end
