(* ===== verification/Lua_Bridge.thy ===== *)
theory Lua_Bridge
  imports Pipe_Modules Ieee
begin

text \<open>
  The bridge to Lua, \<open>tjost_lua.c\<close>: how an event becomes calls of a module's responder function
  (\<open>tjost_lua_deserialize\<close>) and how a call of an output from a script becomes an event
  (\<open>_serialize_packet\<close>), messages and bundles. The checking functions of the Lua API are a record
  of operations with the contract \<open>lua_api\<close>; a Lua error (a long jump out of the function) is a value
  of the model. The values left on the Lua stack and the collector are not modelled.
\<close>

section \<open>Lua values\<close>

text \<open>
  The values the bridge tells apart; numbers are doubles. \<open>Lua_None\<close> is what the API finds at an
  index without a value, \<open>Lua_Other\<close> stands for every other value.
\<close>

datatype lua_value = Lua_None | Lua_Nil | Lua_Boolean bool | Lua_Number "64 word" | Lua_String string |
  Lua_Blob "byte list" | Lua_Midi "byte list" | Lua_Light | Lua_Other

abbreviation lua_int :: "int \<Rightarrow> lua_value" where
  "lua_int i \<equiv> Lua_Number (int_to_double i)"

record lua_ops =
  luaL_checknumber :: "lua_value \<Rightarrow> 64 word option"
  luaL_checkinteger :: "lua_value \<Rightarrow> int option"
  luaL_checkstring :: "lua_value \<Rightarrow> string option"
  lua_isnumber :: "lua_value \<Rightarrow> bool"
  lua_checkstack :: "nat \<Rightarrow> bool"

text \<open>\<open>None\<close> is the error the check raises. What the reference manual of Lua 5.1 says of them:\<close>

locale lua_api =
  fixes L :: lua_ops
  assumes checknumber: "luaL_checknumber L (Lua_Number d) = Some d"
    and checkinteger: "\<bar>i\<bar> < 2 ^ 53 \<Longrightarrow> luaL_checkinteger L (lua_int i) = Some i"
    and checkstring: "CHR 0x00 \<notin> set s \<Longrightarrow> luaL_checkstring L (Lua_String s) = Some s"
    and isnumber: "lua_isnumber L (Lua_Number d)"
    and isnumber_path: "\<not> lua_isnumber L (Lua_String (CHR ''/'' # s))"

text \<open>An API without the automatic conversions between strings and numbers.\<close>

definition lua_ref :: lua_ops where
  "lua_ref = \<lparr>
     luaL_checknumber = (\<lambda>v. case v of Lua_Number d \<Rightarrow> Some d | _ \<Rightarrow> None),
     luaL_checkinteger = (\<lambda>v. case v of Lua_Number d \<Rightarrow> double_to_int d | _ \<Rightarrow> None),
     luaL_checkstring = (\<lambda>v. case v of Lua_String s \<Rightarrow> Some (takeWhile (\<lambda>c. c \<noteq> CHR 0x00) s) | _ \<Rightarrow> None),
     lua_isnumber = (\<lambda>v. case v of Lua_Number d \<Rightarrow> True | _ \<Rightarrow> False),
     lua_checkstack = (\<lambda>n. n < 8000)\<rparr>"

interpretation lua_ref: lua_api lua_ref
proof
  show "luaL_checkstring lua_ref (Lua_String s) = Some s" if "CHR 0x00 \<notin> set s" for s
  proof -
    have "takeWhile (\<lambda>c. c \<noteq> CHR 0x00) s = s" using that by (subst takeWhile_eq_all_conv) auto
    then show ?thesis by (simp add: lua_ref_def)
  qed
qed (simp_all add: lua_ref_def double_to_int_of_int)

text \<open>\<open>luaL_checkint\<close> cuts the integer down to 32 bits.\<close>

definition luaL_checkint :: "lua_ops \<Rightarrow> lua_value \<Rightarrow> 32 word option" where
  "luaL_checkint L v = map_option of_int (luaL_checkinteger L v)"

section \<open>From OSC to Lua\<close>

fun push_arg :: "osc_arg \<Rightarrow> lua_value" where
  "push_arg (Osc_Int32 i) = lua_int (sint i)"
| "push_arg (Osc_Float f) = Lua_Number (float_to_double f)"
| "push_arg (Osc_String s) = Lua_String s"
| "push_arg (Osc_Blob b) = Lua_Blob b"
| "push_arg (Osc_Int64 h) = lua_int (sint h)"
| "push_arg (Osc_Double d) = Lua_Number d"
| "push_arg (Osc_Timetag t) = lua_int (uint t)"
| "push_arg (Osc_Symbol s) = Lua_String s"
| "push_arg (Osc_Char c) = lua_int (sint c)"
| "push_arg (Osc_Midi m) = Lua_Midi m"

text \<open>The types without data: true, false, bang (the largest \<open>int32_t\<close>) and nil.\<close>

definition push_flag :: "char \<Rightarrow> lua_value" where
  "push_flag c = (if c = CHR ''T'' then Lua_Boolean True else if c = CHR ''F'' then Lua_Boolean False
     else if c = CHR ''I'' then lua_int (2 ^ 31 - 1) else Lua_Nil)"

text \<open>
  \<open>_push\<close>. For an unknown type nothing is pushed, and \<open>lua_pcall\<close> then finds one argument too few:
  undefined.
\<close>

definition lua_push :: "osc_ops \<Rightarrow> char \<Rightarrow> byte list \<Rightarrow> (lua_value \<times> byte list) option" where
  "lua_push Q c ptr =
     (if c \<in> set ''ifsbhdtScm'' then (let (a, ptr1) = osc_get_arg Q c ptr in Some (push_arg a, ptr1))
      else if no_data c then Some (push_flag c, ptr)
      else None)"

fun push_all :: "osc_ops \<Rightarrow> string \<Rightarrow> byte list \<Rightarrow> lua_value list option" where
  "push_all Q [] ptr = Some []"
| "push_all Q (c # fmt) ptr =
     do { (v, ptr1) \<leftarrow> lua_push Q c ptr; vs \<leftarrow> push_all Q fmt ptr1; Some (v # vs) }"

text \<open>
  The responder of a module as \<open>lua_pcall\<close> runs it: the message of the error it raised, if any, and
  the host it leaves.
\<close>

type_synonym ('t, 'r) responder =
  "addr \<Rightarrow> lua_value list \<Rightarrow> ('t, 'r) host \<Rightarrow> (string option \<times> ('t, 'r) host) option"

definition lua_pcall ::
  "('t, 'r) env \<Rightarrow> ('t, 'r) responder \<Rightarrow> addr \<Rightarrow> lua_value list \<Rightarrow> ('t, 'r) host \<Rightarrow> ('t, 'r) host option" where
  "lua_pcall E resp m vs h =
     do { (err, h1) \<leftarrow> resp m vs h;
          case err of None \<Rightarrow> Some h1
          | Some s \<Rightarrow> tjost_host_message_push E h1 (''Lua: callback error '' @ [CHR 0x27] @ s @ [CHR 0x27]) }"

definition TJOST_BUNDLE_PUSH_PATH :: string where "TJOST_BUNDLE_PUSH_PATH = ''/bundle/push''"
definition TJOST_BUNDLE_POP_PATH :: string where "TJOST_BUNDLE_POP_PATH = ''/bundle/pop''"

definition lua_bundle_in ::
  "('t, 'r) env \<Rightarrow> ('t, 'r) responder \<Rightarrow> addr \<Rightarrow> nframes \<Rightarrow> ('t, 'r) host \<Rightarrow> ('t, 'r) host option" where
  "lua_bundle_in E resp m time h =
     lua_pcall E resp m [lua_int (uint time), Lua_String TJOST_BUNDLE_PUSH_PATH, Lua_String []] h"

definition lua_bundle_out ::
  "('t, 'r) env \<Rightarrow> ('t, 'r) responder \<Rightarrow> addr \<Rightarrow> nframes \<Rightarrow> ('t, 'r) host \<Rightarrow> ('t, 'r) host option" where
  "lua_bundle_out E resp m time h =
     lua_pcall E resp m [lua_int (uint time), Lua_String TJOST_BUNDLE_POP_PATH, Lua_String []] h"

text \<open>\<open>_deserialize\<close>. Where the stack cannot grow it only says so and pushes all the same: undefined.\<close>

definition lua_deserialize ::
  "osc_ops \<Rightarrow> lua_ops \<Rightarrow> ('t, 'r) env \<Rightarrow> ('t, 'r) responder \<Rightarrow> addr \<Rightarrow> nframes \<Rightarrow> string \<Rightarrow> string \<Rightarrow> byte list \<Rightarrow>
   ('t, 'r) host \<Rightarrow> ('t, 'r) host option" where
  "lua_deserialize Q L E resp m time path fmt buf h =
     (if \<not> lua_checkstack L (3 + length fmt + 32) then None
      else do { vs \<leftarrow> push_all Q fmt buf;
                lua_pcall E resp m (lua_int (uint time) # Lua_String path # Lua_String fmt # vs) h })"

fun lua_call_one ::
  "osc_ops \<Rightarrow> lua_ops \<Rightarrow> ('t, 'r) env \<Rightarrow> ('t, 'r) responder \<Rightarrow> addr \<Rightarrow> osc_call \<Rightarrow> ('t, 'r) host \<Rightarrow> ('t, 'r) host option" where
  "lua_call_one Q L E resp m (Call time k path fmt buf) h = lua_deserialize Q L E resp m time path fmt buf h"
| "lua_call_one Q L E resp m (Bundle_In time) h = lua_bundle_in E resp m time h"
| "lua_call_one Q L E resp m (Bundle_Out time) h = lua_bundle_out E resp m time h"

fun lua_calls ::
  "osc_ops \<Rightarrow> lua_ops \<Rightarrow> ('t, 'r) env \<Rightarrow> ('t, 'r) responder \<Rightarrow> addr \<Rightarrow> osc_call list \<Rightarrow> ('t, 'r) host \<Rightarrow> ('t, 'r) host option" where
  "lua_calls Q L E resp m [] h = Some h"
| "lua_calls Q L E resp m (c # cs) h =
     do { h1 \<leftarrow> lua_call_one Q L E resp m c h; lua_calls Q L E resp m cs h1 }"

definition lua_methods :: "(string option \<times> string option) list" where
  "lua_methods = [(None, None)]"

definition lua_deserialize_event ::
  "osc_ops \<Rightarrow> lua_ops \<Rightarrow> ('t, 'r) env \<Rightarrow> ('t, 'r) responder \<Rightarrow> event \<Rightarrow> ('t, 'r) host \<Rightarrow> ('t, 'r) host option" where
  "lua_deserialize_event Q L E resp tev h =
     do { m \<leftarrow> ev_module tev;
          lua_calls Q L E resp m (osc_dispatch_method Q (ev_time tev) (ev_buf tev) lua_methods) h }"

section \<open>From Lua to OSC\<close>

text \<open>
  The argument a script's value makes for a type: \<open>None\<close> is a conversion C leaves undefined,
  \<open>Some None\<close> a Lua error.
\<close>

definition in_range :: "int \<Rightarrow> int \<Rightarrow> int option \<Rightarrow> int option" where
  "in_range a b i = (case i of None \<Rightarrow> None | Some k \<Rightarrow> if a \<le> k \<and> k < b then Some k else None)"

definition lua_cast :: "lua_ops \<Rightarrow> int \<Rightarrow> int \<Rightarrow> (int \<Rightarrow> osc_arg) \<Rightarrow> lua_value \<Rightarrow> osc_arg option option" where
  "lua_cast L a b f v =
     (case luaL_checknumber L v of None \<Rightarrow> Some None
      | Some d \<Rightarrow> map_option (\<lambda>i. Some (f i)) (in_range a b (double_to_int d)))"

definition lua_arg :: "lua_ops \<Rightarrow> char \<Rightarrow> lua_value \<Rightarrow> osc_arg option option" where
  "lua_arg L c v =
     (if c = CHR ''i'' then Some (map_option (\<lambda>i. Osc_Int32 (of_int i)) (luaL_checkinteger L v))
      else if c = CHR ''f'' then Some (map_option (\<lambda>d. Osc_Float (double_to_float d)) (luaL_checknumber L v))
      else if c = CHR ''s'' then Some (map_option Osc_String (luaL_checkstring L v))
      else if c = CHR ''b'' then Some (case v of Lua_Blob b \<Rightarrow> Some (Osc_Blob b) | _ \<Rightarrow> None)
      else if c = CHR ''h'' then lua_cast L (- (2 ^ 63)) (2 ^ 63) (\<lambda>i. Osc_Int64 (of_int i)) v
      else if c = CHR ''d'' then Some (map_option Osc_Double (luaL_checknumber L v))
      else if c = CHR ''t'' then lua_cast L 0 (2 ^ 64) (\<lambda>i. Osc_Timetag (of_int i)) v
      else if c = CHR ''S'' then Some (map_option Osc_Symbol (luaL_checkstring L v))
      else if c = CHR ''m'' then Some (case v of Lua_Midi m \<Rightarrow> Some (Osc_Midi m) | _ \<Rightarrow> None)
      else lua_cast L (- 128) 128 (\<lambda>i. Osc_Char (of_int i)) v)"

text \<open>\<open>lua_index vs p\<close> is the value at stack index \<open>p\<close>; index 1 is the module that was called.\<close>

definition lua_index :: "lua_value list \<Rightarrow> nat \<Rightarrow> lua_value" where
  "lua_index vs p = (if p - 2 < length vs then vs ! (p - 2) else Lua_None)"

text \<open>
  The loop over the types. The first component of the result says whether a Lua error was raised;
  the pointer into the buffer is the bytes written before it, as in \<open>osc_set_arg\<close>.
\<close>

fun serialize_args ::
  "osc_ops \<Rightarrow> lua_ops \<Rightarrow> ('t, 'r) env \<Rightarrow> lua_value list \<Rightarrow> nat \<Rightarrow> string \<Rightarrow> byte list option \<times> ('t, 'r) host \<Rightarrow>
   (bool \<times> byte list option \<times> ('t, 'r) host) option" where
  "serialize_args Q L E vs p [] S = Some (False, S)"
| "serialize_args Q L E vs p (c # fmt) S =
     (if no_data c then serialize_args Q L E vs (p + 1) fmt S
      else if c \<in> set ''ifsbhdtScm'' then
        do { a \<leftarrow> lua_arg L c (lua_index vs p);
             case a of None \<Rightarrow> Some (True, S)
             | Some x \<Rightarrow> serialize_args Q L E vs (p + 1) fmt (osc_set_arg Q TJOST_BUF_SIZE (fst S) x, snd S) }
      else do { h \<leftarrow> tjost_host_message_push E (snd S)
                  (''Lua: invalid argument type '' @ [CHR 0x27, c, CHR 0x27]);
                serialize_args Q L E vs (p + 1) fmt (fst S, h) })"

text \<open>
  \<open>module->buf_ptr\<close> as the bytes before it. Bytes written behind a pointer that became NULL are not
  kept: the next packet starts at the beginning of the buffer again.
\<close>

definition written :: "tjmod \<Rightarrow> byte list option" where
  "written M = map_option (\<lambda>n. take n (m_buffer M)) (m_buf_ptr M)"

definition set_written :: "byte list option \<Rightarrow> tjmod \<Rightarrow> tjmod" where
  "set_written w M =
     M\<lparr>m_buffer := (case w of None \<Rightarrow> m_buffer M | Some b \<Rightarrow> overlay (m_buffer M) b), m_buf_ptr := map_option length w\<rparr>"

definition OSC_IMMEDIATE :: "64 word" where "OSC_IMMEDIATE = 1"

definition sizeof_bundle :: nat where "sizeof_bundle = 32"

text \<open>The branch for \<open>/bundle/push\<close>: a failed allocation is a NULL dereference.\<close>

definition serialize_push ::
  "osc_ops \<Rightarrow> ('t, 'r) env \<Rightarrow> addr \<Rightarrow> ('t, 'r) host \<Rightarrow> ('t, 'r) host option" where
  "serialize_push Q E m h =
     (let M = module_at h m;
          (itm, w) = (if m_bndls M = [] then (m_itm M, Some [])
                      else osc_start_bundle_item Q TJOST_BUF_SIZE (written M))
      in do {
        (p, h1) \<leftarrow> tjost_alloc E h sizeof_bundle;
        bndl \<leftarrow> p;
        let (b, w1) = osc_start_bundle Q TJOST_BUF_SIZE w OSC_IMMEDIATE
        in Some (upd_module m (\<lambda>M. set_written w1 (M\<lparr>m_itm := itm, m_bndls := (bndl, b) # m_bndls M\<rparr>)) h1) })"

text \<open>
  The branch for \<open>/bundle/pop\<close>. Without an open bundle \<open>bndl\<close> is NULL. When the outermost bundle did
  not fit, its size is computed from NULL; no allocation of that size succeeds, and its result is
  written to.
\<close>

definition serialize_pop ::
  "osc_ops \<Rightarrow> ('t, 'r) env \<Rightarrow> addr \<Rightarrow> nframes \<Rightarrow> ('t, 'r) host \<Rightarrow> ('t, 'r) host option" where
  "serialize_pop Q E m time h =
     (let M = module_at h m in
      case m_bndls M of [] \<Rightarrow> None
      | (bndl, b) # bs \<Rightarrow>
          let w = osc_end_bundle Q TJOST_BUF_SIZE (written M) b;
              h0 = upd_module m (\<lambda>M. M\<lparr>m_bndls := bs\<rparr>) h
          in do {
            (w1, h1) \<leftarrow>
              (if bs = [] then
                 do { bytes \<leftarrow> w;
                      h1 \<leftarrow> (if length bytes > 0 then tjost_module_schedule E h0 m time bytes else Some h0);
                      Some (w, h1) }
               else Some (osc_end_bundle_item Q TJOST_BUF_SIZE w (m_itm M), h0));
            Some (upd_module m (set_written w1) (tjost_free E h1 (Some bndl))) })"

definition serialize_message ::
  "osc_ops \<Rightarrow> lua_ops \<Rightarrow> ('t, 'r) env \<Rightarrow> addr \<Rightarrow> lua_value list \<Rightarrow> nat \<Rightarrow> nframes \<Rightarrow> string \<Rightarrow> string \<Rightarrow> ('t, 'r) host \<Rightarrow>
   (bool \<times> ('t, 'r) host) option" where
  "serialize_message Q L E m vs pos time path fmt h =
     (let M = module_at h m; nested = (m_bndls M \<noteq> []);
          (itm, w) = (if nested then osc_start_bundle_item Q TJOST_BUF_SIZE (written M) else (None, Some []))
      in if \<not> osc_check_path Q path then
           do { h1 \<leftarrow> tjost_host_message_push E h (''Lua: invalid OSC path '' @ path); Some (False, h1) }
         else if \<not> osc_check_fmt Q fmt then
           do { h1 \<leftarrow> tjost_host_message_push E h (''Lua: invalid OSC format '' @ fmt); Some (False, h1) }
         else do {
           (err, w1, h1) \<leftarrow> serialize_args Q L E vs (pos + 2) fmt
             (osc_set_fmt Q TJOST_BUF_SIZE (osc_set_path Q TJOST_BUF_SIZE w path) fmt, h);
           if err then Some (True, h1)
           else if nested then
             Some (False, upd_module m (set_written (osc_end_bundle_item Q TJOST_BUF_SIZE w1 itm)) h1)
           else do {
             h2 \<leftarrow> (case w1 of Some bytes \<Rightarrow>
                        if length bytes > 0 then tjost_module_schedule E h1 m time bytes else Some h1
                      | None \<Rightarrow> Some h1);
             Some (False, upd_module m (set_written w1) h2) } })"

definition serialize_packet ::
  "osc_ops \<Rightarrow> lua_ops \<Rightarrow> ('t, 'r) env \<Rightarrow> addr \<Rightarrow> lua_value list \<Rightarrow> ('t, 'r) host \<Rightarrow> (bool \<times> ('t, 'r) host) option" where
  "serialize_packet Q L E m vs h =
     (let ts = lua_isnumber L (lua_index vs 2); pos = (if ts then 3 else 2) in
      case (if ts then luaL_checkint L (lua_index vs 2) else Some 0) of None \<Rightarrow> Some (True, h)
      | Some time \<Rightarrow>
      (case luaL_checkstring L (lua_index vs pos) of None \<Rightarrow> Some (True, h)
       | Some path \<Rightarrow>
      (case luaL_checkstring L (lua_index vs (pos + 1)) of None \<Rightarrow> Some (True, h)
       | Some fmt \<Rightarrow>
           if path = TJOST_BUNDLE_PUSH_PATH \<and> fmt = [] then
             do { h1 \<leftarrow> serialize_push Q E m h; Some (False, h1) }
           else if path = TJOST_BUNDLE_POP_PATH \<and> fmt = [] then
             do { h1 \<leftarrow> serialize_pop Q E m time h; Some (False, h1) }
           else serialize_message Q L E m vs pos time path fmt h)))"

text \<open>A script's calls of one output, one after the other; an error ends the script.\<close>

fun run_script ::
  "osc_ops \<Rightarrow> lua_ops \<Rightarrow> ('t, 'r) env \<Rightarrow> addr \<Rightarrow> lua_value list list \<Rightarrow> ('t, 'r) host \<Rightarrow> (bool \<times> ('t, 'r) host) option" where
  "run_script Q L E m [] h = Some (False, h)"
| "run_script Q L E m (vs # cs) h =
     do { (err, h1) \<leftarrow> serialize_packet Q L E m vs h; if err then Some (True, h1) else run_script Q L E m cs h1 }"

end
