(* ===== verification/Lua_Modules.thy ===== *)
theory Lua_Modules
  imports Lua_Bridge Module_Add
begin

text \<open>
  The objects of \<open>tjost_lua.c\<close>: blobs and MIDI messages with their bounds, and the graph of modules that
  scripts build with \<open>plugin\<close> and \<open>chain\<close> and the collector takes down with \<open>_gc_*\<close>. The responder of a
  module lives in the Lua registry and is not part of the host.
\<close>

section \<open>Blobs and MIDI messages\<close>

text \<open>The size of a blob is an \<open>int32_t\<close>, an index an \<open>int\<close>; \<open>raw\<close> answers the address of the bytes.\<close>

definition index_bytes :: "lua_ops \<Rightarrow> byte list \<Rightarrow> lua_value \<Rightarrow> lua_value option" where
  "index_bytes L b v =
     (case v of
        Lua_Number d \<Rightarrow> map_option (\<lambda>i. if 0 \<le> sint i \<and> sint i < int (length b)
            then lua_int (uint (b ! unat i)) else Lua_Nil) (luaL_checkint L v)
      | Lua_String s \<Rightarrow> Some (if takeWhile (\<lambda>c. c \<noteq> CHR 0x00) s = ''raw'' then Lua_Light else Lua_Nil)
      | _ \<Rightarrow> Some Lua_Nil)"

definition newindex_bytes :: "lua_ops \<Rightarrow> byte list \<Rightarrow> lua_value \<Rightarrow> lua_value \<Rightarrow> byte list option" where
  "newindex_bytes L b v w =
     (case luaL_checkint L v of None \<Rightarrow> None
      | Some i \<Rightarrow> if 0 \<le> sint i \<and> sint i < int (length b)
                 then map_option (\<lambda>x. b[unat i := ucast x]) (luaL_checkint L w) else Some b)"

fun index_blob :: "lua_ops \<Rightarrow> lua_value \<Rightarrow> lua_value \<Rightarrow> lua_value option" where
  "index_blob L (Lua_Blob b) v = index_bytes L b v"
| "index_blob L _ v = None"

fun newindex_blob :: "lua_ops \<Rightarrow> lua_value \<Rightarrow> lua_value \<Rightarrow> lua_value \<Rightarrow> lua_value option" where
  "newindex_blob L (Lua_Blob b) v w = map_option Lua_Blob (newindex_bytes L b v w)"
| "newindex_blob L _ v w = None"

fun len_blob :: "lua_value \<Rightarrow> lua_value option" where
  "len_blob (Lua_Blob b) = Some (lua_int (int (length b)))"
| "len_blob _ = None"

fun index_midi :: "lua_ops \<Rightarrow> lua_value \<Rightarrow> lua_value \<Rightarrow> lua_value option" where
  "index_midi L (Lua_Midi m) v = index_bytes L (take 4 m) v"
| "index_midi L _ v = None"

fun newindex_midi :: "lua_ops \<Rightarrow> lua_value \<Rightarrow> lua_value \<Rightarrow> lua_value \<Rightarrow> lua_value option" where
  "newindex_midi L (Lua_Midi m) v w = map_option Lua_Midi (newindex_bytes L (take 4 m) v w)"
| "newindex_midi L _ v w = None"

fun len_midi :: "lua_value \<Rightarrow> lua_value option" where
  "len_midi (Lua_Midi m) = Some (lua_int 4)"
| "len_midi _ = None"

text \<open>
  \<open>_blob\<close>: \<open>sizeof(Tjost_Blob) + size\<close> bytes are asked for, as a \<open>size_t\<close>. A size between -4 and -1 gives
  a block too small for the size itself (\<open>None\<close>); below that the sum wraps to one Lua cannot allocate
  (\<open>Some None\<close>, a Lua error).
\<close>

definition lua_blob :: "lua_ops \<Rightarrow> lua_value \<Rightarrow> lua_value option option" where
  "lua_blob L v =
     (case luaL_checkint L v of None \<Rightarrow> Some None
      | Some n \<Rightarrow>
          if 0 \<le> sint n then Some (Some (Lua_Blob (replicate (unat n) 0)))
          else if - 4 \<le> sint n then None else Some None)"

definition lua_midi :: lua_value where
  "lua_midi = Lua_Midi [0, 0, 0, 0]"

section \<open>Clearing a module\<close>

text \<open>
  \<open>_clear\<close>: every event leaves the queue and is freed. The queue is that of a module, or for \<open>None\<close> that
  of the host, which is drained by the same loop at the end (\<open>_tjost_deinit\<close>).
\<close>

fun clear_events :: "('t, 'r) env \<Rightarrow> addr option \<Rightarrow> event list \<Rightarrow> ('t, 'r) host \<Rightarrow> ('t, 'r) host" where
  "clear_events E i [] h = h"
| "clear_events E i (e # q) h = clear_events E i q (tjost_free E (dequeue i (ev_addr e) h) (Some (ev_addr e)))"

definition module_clear :: "('t, 'r) env \<Rightarrow> addr \<Rightarrow> ('t, 'r) host \<Rightarrow> ('t, 'r) host" where
  "module_clear E m h = clear_events E (Some m) (m_queue (module_at h m)) h"

fun free_children :: "('t, 'r) env \<Rightarrow> addr \<Rightarrow> (addr \<times> addr) list \<Rightarrow> ('t, 'r) host \<Rightarrow> ('t, 'r) host" where
  "free_children E m [] h = h"
| "free_children E m (c # cs) h =
     free_children E m cs (tjost_free E (upd_module m (\<lambda>M. M\<lparr>m_children := remove1 c (m_children M)\<rparr>) h) (Some (fst c)))"

text \<open>\<open>del\<close> is the function of the module's library.\<close>

type_synonym ('t, 'r) module_del = "addr \<Rightarrow> ('t, 'r) host \<Rightarrow> ('t, 'r) host option"

definition gc_input :: "('t, 'r) env \<Rightarrow> ('t, 'r) module_del \<Rightarrow> addr \<Rightarrow> ('t, 'r) host \<Rightarrow> ('t, 'r) host option" where
  "gc_input E del m h =
     do { h1 \<leftarrow> del m h;
          let h2 = h1\<lparr>modules := remove1 m (modules h1)\<rparr>
          in Some (free_children E m (m_children (module_at h2 m)) h2) }"

definition gc_output :: "('t, 'r) env \<Rightarrow> ('t, 'r) module_del \<Rightarrow> addr \<Rightarrow> ('t, 'r) host \<Rightarrow> ('t, 'r) host option" where
  "gc_output E del m h =
     do { h1 \<leftarrow> del m h;
          let h2 = module_clear E m h1 in Some (h2\<lparr>modules := remove1 m (modules h2)\<rparr>) }"

definition gc_in_out :: "('t, 'r) env \<Rightarrow> ('t, 'r) module_del \<Rightarrow> addr \<Rightarrow> ('t, 'r) host \<Rightarrow> ('t, 'r) host option" where
  "gc_in_out E del m h =
     do { h1 \<leftarrow> del m h;
          let h2 = module_clear E m h1; h3 = h2\<lparr>modules := remove1 m (modules h2)\<rparr>
          in Some (free_children E m (m_children (module_at h3 m)) h3) }"

definition gc_uplink :: "('t, 'r) env \<Rightarrow> ('t, 'r) module_del \<Rightarrow> addr \<Rightarrow> ('t, 'r) host \<Rightarrow> ('t, 'r) host option" where
  "gc_uplink E del m h =
     do { h1 \<leftarrow> del m h;
          let h2 = module_clear E m h1 in Some (h2\<lparr>uplinks := remove1 m (uplinks h2)\<rparr>) }"

section \<open>Building the graph\<close>

definition sizeof_child :: nat where "sizeof_child = 32"

definition is_output :: "('t, 'r) host \<Rightarrow> addr \<Rightarrow> bool" where
  "is_output h m \<longleftrightarrow> m_type (module_at h m) AND TJOST_MODULE_OUTPUT \<noteq> 0"

definition is_input :: "('t, 'r) host \<Rightarrow> addr \<Rightarrow> bool" where
  "is_input h m \<longleftrightarrow> m_type (module_at h m) AND TJOST_MODULE_INPUT \<noteq> 0"

definition add_child :: "('t, 'r) env \<Rightarrow> addr \<Rightarrow> addr \<Rightarrow> ('t, 'r) host \<Rightarrow> ('t, 'r) host option" where
  "add_child E m out h =
     do { (p, h1) \<leftarrow> tjost_alloc E h sizeof_child;
          child \<leftarrow> p;
          Some (upd_module m (\<lambda>M. M\<lparr>m_children := m_children M @ [(child, out)]\<rparr>) h1) }"

definition lua_chain :: "('t, 'r) env \<Rightarrow> addr \<Rightarrow> addr \<Rightarrow> ('t, 'r) host \<Rightarrow> (('t, 'r) host \<times> string list) option" where
  "lua_chain E mod_in mod_out h =
     (if is_input h mod_in \<and> is_output h mod_out
      then map_option (\<lambda>h1. (h1, [])) (add_child E mod_in mod_out h)
      else Some (h, [''could not setup module chain'']))"

text \<open>
  \<open>_plugin\<close>: the library found for the name (its functions), and what the second argument is. A
  missing library or a missing \<open>add\<close> is reported and then called: undefined; a missing \<open>del\<close> is
  called by the collector. \<open>m\<close> is the address of the
  new userdata; the answer is nil where \<open>add\<close> failed.
\<close>

record ('t, 'r) plugin_lib =
  lib_add :: "(addr \<Rightarrow> ('t, 'r) host \<Rightarrow> (int \<times> ('t, 'r) host) option) option"
  lib_del :: bool
  lib_process_in :: bool
  lib_process_out :: bool

datatype plugin_arg = No_Arg | Responder | Chained addr | Other_Arg

definition new_module :: tjmod where
  "new_module = \<lparr>m_type = 0, m_queue = [], m_children = [], has_lua_callback = False,
     m_buffer = replicate TJOST_BUF_SIZE 0, m_buf_ptr = None, m_itm = None, m_bndls = []\<rparr>"

definition missing :: "bool \<Rightarrow> string \<Rightarrow> string list" where
  "missing found name = (if found then [] else [''could not get '' @ [CHR 0x27] @ name @ [CHR 0x27] @ '' symbol''])"

definition register_module :: "('t, 'r) plugin_lib \<Rightarrow> addr \<Rightarrow> ('t, 'r) host \<Rightarrow> ('t, 'r) host \<times> string list" where
  "register_module P m h =
     (let ty = m_type (module_at h m);
          no_in = missing (lib_process_in P) ''process_in''; no_out = missing (lib_process_out P) ''process_out'' in
      if ty = TJOST_MODULE_INPUT then (h\<lparr>modules := modules h @ [m]\<rparr>, no_in)
      else if ty = TJOST_MODULE_OUTPUT then (h\<lparr>modules := modules h @ [m]\<rparr>, no_out)
      else if ty = TJOST_MODULE_IN_OUT then (h\<lparr>modules := modules h @ [m]\<rparr>, no_in @ no_out)
      else if ty = TJOST_MODULE_UPLINK then (h\<lparr>uplinks := uplinks h @ [m]\<rparr>, no_out)
      else (h, []))"

definition lua_plugin ::
  "('t, 'r) env \<Rightarrow> ('t, 'r) plugin_lib option \<Rightarrow> plugin_arg \<Rightarrow> addr \<Rightarrow> ('t, 'r) host \<Rightarrow>
   (addr option \<times> ('t, 'r) host \<times> string list) option" where
  "lua_plugin E lib arg m h =
     do {
       P \<leftarrow> lib;
       add \<leftarrow> lib_add P;
       h1 \<leftarrow> (let h0 = upd_module m (\<lambda>M. new_module) h in
              case arg of
                Responder \<Rightarrow> Some (upd_module m (\<lambda>M. M\<lparr>has_lua_callback := True\<rparr>) h0)
              | Chained out \<Rightarrow> if is_output h0 out then add_child E m out h0 else Some h0
              | _ \<Rightarrow> Some h0);
       (r, h2) \<leftarrow> add m h1;
       let (h3, err) = register_module P m h2
       in Some (if r \<noteq> 0 then None else Some m, h3, missing (lib_del P) ''del'' @ err) }"

section \<open>Invariant of the graph\<close>

definition all_modules :: "('t, 'r) host \<Rightarrow> addr list" where
  "all_modules h = modules h @ uplinks h"

text \<open>
  Instances are listed once, and every child is an instance that takes events: the address
  \<open>to_children\<close> schedules to is a live output.
\<close>

definition graph_ok :: "('t, 'r) host \<Rightarrow> bool" where
  "graph_ok h \<longleftrightarrow> distinct (all_modules h) \<and>
     (\<forall>m\<in>set (all_modules h). \<forall>c\<in>set (m_children (module_at h m)). snd c \<in> set (all_modules h) \<and> is_output h (snd c))"

text \<open>The nodes of the children lists are live blocks of their own.\<close>

definition child_nodes :: "('t, 'r) host \<Rightarrow> addr list" where
  "child_nodes h = concat (map (\<lambda>m. map fst (m_children (module_at h m))) (all_modules h))"

definition nodes_ok :: "(addr \<rightharpoonup> nat) \<Rightarrow> ('t, 'r) host \<Rightarrow> bool" where
  "nodes_ok lv h \<longleftrightarrow> distinct (child_nodes h) \<and> set (child_nodes h) \<subseteq> dom lv \<and>
     (\<forall>i. owned (queue_of h i) \<inter> set (child_nodes h) = {})"

end
