(* ===== verification/Lua_Roundtrip.thy ===== *)
theory Lua_Roundtrip
  imports Lua_Bridge
begin

text \<open>
  What a script sends is what a responder receives: values through OSC arguments and back, then
  messages, then bundles, through the two directions of the bridge.
\<close>

section \<open>Values\<close>

text \<open>
  The arguments Lua can carry: doubles hold integers of 53 bits, and a NaN may change its payload.
\<close>

fun lua_rep :: "osc_arg \<Rightarrow> bool" where
  "lua_rep (Osc_Float f) \<longleftrightarrow> \<not> is_nan f"
| "lua_rep (Osc_Int64 h) \<longleftrightarrow> \<bar>sint h\<bar> < 2 ^ 53"
| "lua_rep (Osc_Timetag t) \<longleftrightarrow> unat t < 2 ^ 53"
| "lua_rep a \<longleftrightarrow> osc_valid a"

lemma lua_rep_valid: "lua_rep a \<Longrightarrow> osc_valid a"
  by (cases a) simp_all

lemma sint_byte: "- 128 \<le> sint (c :: byte)" "sint c < 128"
  using sint_greater_eq [of c] sint_less [of c] by simp_all

lemma abs_sint32: "\<bar>sint (i :: 32 word)\<bar> < 2 ^ 53"
  using sint_greater_eq [of i] sint_less [of i] by simp

lemma abs_uint32: "\<bar>uint (t :: nframes)\<bar> < 2 ^ 53"
proof -
  have "uint t < 2 ^ LENGTH(32)" by (rule unsigned_less)
  then show ?thesis by simp
qed

lemma sint64_range: "- (2 ^ 63) \<le> sint (h :: 64 word)" "sint h < 2 ^ 63"
  using sint_greater_eq [of h] sint_less [of h] by simp_all

lemma in_range_Some [simp]: "a \<le> i \<Longrightarrow> i < b \<Longrightarrow> in_range a b (Some i) = Some i"
  by (simp add: in_range_def)

context lua_api
begin

lemma cast_int: "\<bar>i\<bar> < 2 ^ 53 \<Longrightarrow> a \<le> i \<Longrightarrow> i < b \<Longrightarrow> lua_cast L a b f (lua_int i) = Some (Some (f i))"
  by (simp add: lua_cast_def checknumber double_to_int_of_int)

lemma arg_push: "lua_rep a \<Longrightarrow> lua_arg L (osc_tag a) (push_arg a) = Some (Some a)"
proof (cases a)
  case (Osc_Int32 i)
  then show ?thesis by (simp add: lua_arg_def checkinteger [OF abs_sint32])
next
  case (Osc_Int64 h)
  moreover assume "lua_rep a"
  ultimately show ?thesis using sint64_range [of h] by (simp add: lua_arg_def cast_int)
next
  case (Osc_Timetag t)
  moreover assume "lua_rep a"
  ultimately have "unat t < 2 ^ 53" by simp
  then have "int (unat t) < int (2 ^ 53)" by (simp only: of_nat_less_iff)
  then have "uint t < 2 ^ 53" by simp
  then show ?thesis unfolding Osc_Timetag by (simp add: lua_arg_def cast_int)
next
  case (Osc_Char c)
  then show ?thesis using sint_byte [of c] of_int_sint [of c] by (simp add: lua_arg_def cast_int)
qed (simp_all add: lua_arg_def checknumber checkstring double_to_float_of_float)

end

section \<open>Arguments\<close>

text \<open>The values of a message as a script passes them and a responder gets them.\<close>

fun lua_slots :: "string \<Rightarrow> osc_arg list \<Rightarrow> lua_value list" where
  "lua_slots [] as = []"
| "lua_slots (c # f) as =
     (if no_data c then push_flag c # lua_slots f as
      else case as of [] \<Rightarrow> [] | a # as' \<Rightarrow> push_arg a # lua_slots f as')"

lemma fmt_fits_Nil [simp]: "fmt_fits [] as \<longleftrightarrow> as = []"
  by (auto simp: fmt_fits_def)

lemma fmt_fits_Cons: "fmt_fits (c # f) as \<longleftrightarrow>
  (if no_data c then fmt_fits f as else (\<exists>a as'. as = a # as' \<and> c = osc_tag a \<and> fmt_fits f as'))"
  by (auto simp: fmt_fits_def Cons_eq_map_conv)

lemma tag_in [simp]: "osc_tag a \<in> set ''ifsbhdtScm''"
  by (cases a) simp_all

lemma push_all_slots:
  assumes Q: "osc_lib Q"
  shows "fmt_fits f as \<Longrightarrow> list_all osc_valid as \<Longrightarrow>
    push_all Q f (concat (map osc_enc as)) = Some (lua_slots f as)"
proof (induction f arbitrary: as)
  case (Cons c f)
  show ?case
  proof (cases "no_data c")
    case True
    then have "c \<notin> set ''ifsbhdtScm''" by (auto simp: no_data_def)
    with True Cons show ?thesis by (simp add: fmt_fits_Cons lua_push_def del: list.set)
  next
    case False
    with Cons.prems obtain a as' where a: "as = a # as'" "c = osc_tag a" "fmt_fits f as'"
      by (auto simp: fmt_fits_Cons)
    then have "lua_push Q c (concat (map osc_enc as)) = Some (push_arg a, concat (map osc_enc as'))"
      using Cons.prems(2) osc_lib.get_arg [OF Q, of a "concat (map osc_enc as')"]
      by (simp add: lua_push_def del: list.set)
    with a False Cons show ?thesis by simp
  qed
qed simp

definition put_all :: "osc_arg list \<Rightarrow> byte list option \<Rightarrow> byte list option" where
  "put_all as w = fold (\<lambda>a w. put TJOST_BUF_SIZE w (osc_enc a)) as w"

lemma put_None [simp]: "put cap None bs = None"
  by (simp add: put_def)

lemma put_all_None [simp]: "put_all as None = None"
  by (induction as) (simp_all add: put_all_def)

lemma put_all_Some:
  "length b \<le> TJOST_BUF_SIZE \<Longrightarrow>
   put_all as (Some b) = (if length b + length (concat (map osc_enc as)) \<le> TJOST_BUF_SIZE
     then Some (b @ concat (map osc_enc as)) else None)"
proof (induction as arbitrary: b)
  case Nil
  then show ?case by (simp add: put_all_def)
next
  case (Cons a as)
  have "put_all (a # as) (Some b) = put_all as (put TJOST_BUF_SIZE (Some b) (osc_enc a))"
    by (simp add: put_all_def)
  then show ?case using Cons.IH [of "b @ osc_enc a"] Cons.prems by simp
qed

lemma lua_index_drop:
  assumes "drop (p - 2) vs = v # rest" "2 \<le> p"
  shows "lua_index vs p = v" "drop (p + 1 - 2) vs = rest"
proof -
  have "p - 2 < length vs" using assms(1) by (metis drop_all leI list.distinct(1))
  then show "lua_index vs p = v" using assms(1) by (simp add: lua_index_def nth_via_drop)
  show "drop (p + 1 - 2) vs = rest" using assms by (metis Suc_diff_le Suc_eq_plus1 drop_Suc list.sel(3) tl_drop)
qed

lemma serialize_args_slots:
  assumes Q: "osc_lib Q" and L: "lua_api L"
  shows "fmt_fits f as \<Longrightarrow> list_all lua_rep as \<Longrightarrow> 2 \<le> p \<Longrightarrow> drop (p - 2) vs = lua_slots f as \<Longrightarrow>
    serialize_args Q L E vs p f (w, h) = Some (False, put_all as w, h)"
proof (induction f arbitrary: as p w)
  case Nil
  then show ?case by (simp add: put_all_def)
next
  case (Cons c f)
  show ?case
  proof (cases "no_data c")
    case True
    with Cons.prems have "drop (p - 2) vs = push_flag c # lua_slots f as" by simp
    from lua_index_drop [OF this Cons.prems(3)] True Cons show ?thesis by (simp add: fmt_fits_Cons)
  next
    case False
    with Cons.prems obtain a as' where a: "as = a # as'" "c = osc_tag a" "fmt_fits f as'"
      by (auto simp: fmt_fits_Cons)
    with False Cons.prems have "drop (p - 2) vs = push_arg a # lua_slots f as'" by simp
    note d = lua_index_drop [OF this Cons.prems(3)]
    have r: "lua_rep a" "list_all lua_rep as'" using Cons.prems(2) a by simp_all
    have "put_all (a # as') w = put_all as' (osc_set_arg Q TJOST_BUF_SIZE w a)"
      using osc_lib.set_arg [OF Q lua_rep_valid [OF r(1)]] by (simp add: put_all_def)
    with False a d r Cons.IH [OF a(3) r(2) _ d(2), of "osc_set_arg Q TJOST_BUF_SIZE w a"] Cons.prems(3)
    show ?thesis by (simp add: lua_api.arg_push [OF L] del: list.set)
  qed
qed

section \<open>Calls\<close>

definition lua_call :: "nframes \<Rightarrow> string \<Rightarrow> string \<Rightarrow> osc_arg list \<Rightarrow> lua_value list" where
  "lua_call t p f as = lua_int (uint t) # Lua_String p # Lua_String f # lua_slots f as"

text \<open>The calls that spell a packet, in either direction.\<close>

fun packet_script :: "nframes \<Rightarrow> osc_packet \<Rightarrow> lua_value list list" where
  "packet_script t (Message p f as) = [lua_call t p f as]"
| "packet_script t (Bundle tt ps) =
     lua_call t TJOST_BUNDLE_PUSH_PATH [] [] # concat (map (packet_script t) ps) @
     [lua_call t TJOST_BUNDLE_POP_PATH [] []]"

fun respond_all ::
  "('t, 'r) env \<Rightarrow> ('t, 'r) responder \<Rightarrow> addr \<Rightarrow> lua_value list list \<Rightarrow> ('t, 'r) host \<Rightarrow> ('t, 'r) host option" where
  "respond_all E resp m [] h = Some h"
| "respond_all E resp m (vs # cs) h = do { h1 \<leftarrow> lua_pcall E resp m vs h; respond_all E resp m cs h1 }"

lemma respond_all_append:
  "respond_all E resp m (cs @ ds) h = do { h1 \<leftarrow> respond_all E resp m cs h; respond_all E resp m ds h1 }"
  by (induction cs arbitrary: h) (auto simp: Option.bind_assoc cong: Option.bind_cong)

lemma lua_calls_append:
  "lua_calls Q L E resp m (cs @ ds) h = do { h1 \<leftarrow> lua_calls Q L E resp m cs h; lua_calls Q L E resp m ds h1 }"
  by (induction cs arbitrary: h) (auto simp: Option.bind_assoc cong: Option.bind_cong)

lemma calls_Nil [simp]: "lua_calls Q L E resp m [] = Some" "respond_all E resp m [] = Some"
  by (rule ext, simp)+

text \<open>The longest call of a packet: the stack must have room for it.\<close>

fun stack_ok :: "lua_ops \<Rightarrow> osc_packet \<Rightarrow> bool" where
  "stack_ok L (Message p f as) \<longleftrightarrow> lua_checkstack L (3 + length f + 32)"
| "stack_ok L (Bundle tt ps) \<longleftrightarrow> list_all (stack_ok L) ps"

lemma respond_packet:
  assumes Q: "osc_lib Q"
  shows "packet_wf (osc_check_path Q) pk \<Longrightarrow> stack_ok L pk \<Longrightarrow>
    lua_calls Q L E resp m (osc_dispatch_method Q t (packet_bytes pk) lua_methods) h =
    respond_all E resp m (packet_script t pk) h"
proof (induction pk arbitrary: h)
  case (Message p f as)
  then have "method_for lua_methods p f = Some 0" by (simp add: method_for_def lua_methods_def)
  with Message show ?case
    using osc_lib.dispatch_msg [OF Q, of p f as t lua_methods] push_all_slots [OF Q, of f as]
    by (simp add: lua_deserialize_def lua_call_def)
next
  case (Bundle tt ps)
  have items: "lua_calls Q L E resp m (concat (map (\<lambda>p. osc_dispatch_method Q t (packet_bytes p) lua_methods) qs)) h =
      respond_all E resp m (concat (map (packet_script t) qs)) h" if "set qs \<subseteq> set ps" for qs h
    using that
  proof (induction qs arbitrary: h)
    case (Cons q qs)
    have "lua_calls Q L E resp m (osc_dispatch_method Q t (packet_bytes q) lua_methods) h =
        respond_all E resp m (packet_script t q) h" for h
      using Bundle.IH [of q h] Bundle.prems Cons.prems by (auto simp: list_all_iff)
    with Cons show ?case by (simp add: lua_calls_append respond_all_append)
  qed simp
  show ?case
    using Bundle.prems(1) items [of ps]
    by (simp add: osc_lib.dispatch_bundle [OF Q] lua_calls_append respond_all_append lua_bundle_in_def
        lua_bundle_out_def lua_call_def cong: Option.bind_cong del: packet_wf.simps packet_bytes.simps)
qed

section \<open>Packets a script can send\<close>

text \<open>
  Messages of values Lua can carry; bundles that are not empty, in bundles at most \<open>n - 1\<close> deep, with
  the time tag the bridge gives them.
\<close>

fun script_ok :: "osc_ops \<Rightarrow> nat \<Rightarrow> osc_packet \<Rightarrow> bool" where
  "script_ok Q n (Message p f as) \<longleftrightarrow> osc_check_path Q p \<and> osc_check_fmt Q f \<and> fmt_fits f as \<and>
     list_all lua_rep as \<and> CHR 0x00 \<notin> set p \<and> (p \<in> {TJOST_BUNDLE_PUSH_PATH, TJOST_BUNDLE_POP_PATH} \<longrightarrow> f \<noteq> [])"
| "script_ok Q n (Bundle tt ps) \<longleftrightarrow> 0 < n \<and> tt = OSC_IMMEDIATE \<and> ps \<noteq> [] \<and> list_all (script_ok Q (n - 1)) ps"

lemma osc_msg_nonempty [simp]: "osc_msg p f as \<noteq> []"
proof -
  have "length (osc_str p) > 0" unfolding length_osc_str by simp
  then show ?thesis by (auto simp: osc_msg_def)
qed

lemma packet_nonempty [simp]: "packet_bytes pk \<noteq> []"
  by (cases pk) (auto simp: bundle_header_def)

lemma written_set [simp]: "written (set_written w M) = w"
  by (cases w) (simp_all add: written_def set_written_def overlay_def)

lemma set_written_simps [simp]:
  "m_bndls (set_written w M) = m_bndls M" "m_queue (set_written w M) = m_queue M" "m_itm (set_written w M) = m_itm M"
  "m_children (set_written w M) = m_children M" "m_type (set_written w M) = m_type M"
  "has_lua_callback (set_written w M) = has_lua_callback M"
  by (simp_all add: set_written_def)

lemma module_at_upd [simp]: "module_at (upd_module m f h) m = f (module_at h m)"
  by (simp add: upd_module_def)

context osc_lib
begin

lemma write_message:
  assumes "list_all osc_valid as" "length b \<le> TJOST_BUF_SIZE"
  shows "put_all as (osc_set_fmt Q TJOST_BUF_SIZE (osc_set_path Q TJOST_BUF_SIZE (Some b) p) f) =
    (if length b + length (osc_msg p f as) \<le> TJOST_BUF_SIZE then Some (b @ osc_msg p f as) else None)"
proof (cases "length b + length (osc_str p @ osc_tags f) \<le> TJOST_BUF_SIZE")
  case True
  then show ?thesis
    by (simp add: set_path set_fmt put_all_Some osc_msg_def)
next
  case False
  then show ?thesis by (auto simp: set_path set_fmt osc_msg_def)
qed

end

lemma index_call [simp]:
  "lua_index (lua_call t p f as) 2 = lua_int (uint t)" "lua_index (lua_call t p f as) 3 = Lua_String p"
  "lua_index (lua_call t p f as) 4 = Lua_String f" "drop 3 (lua_call t p f as) = lua_slots f as"
  by (simp_all add: lua_index_def lua_call_def numeral_eq_Suc)

lemma path_no_nul: "CHR 0x00 \<notin> set TJOST_BUNDLE_PUSH_PATH" "CHR 0x00 \<notin> set TJOST_BUNDLE_POP_PATH"
  "TJOST_BUNDLE_PUSH_PATH \<noteq> TJOST_BUNDLE_POP_PATH"
  by (simp_all add: TJOST_BUNDLE_PUSH_PATH_def TJOST_BUNDLE_POP_PATH_def)

lemma serialize_packet_call:
  assumes L: "lua_api L" and n: "CHR 0x00 \<notin> set p" "CHR 0x00 \<notin> set f"
  shows "serialize_packet Q L E m (lua_call t p f as) h =
    (if p = TJOST_BUNDLE_PUSH_PATH \<and> f = [] then do { h1 \<leftarrow> serialize_push Q E m h; Some (False, h1) }
     else if p = TJOST_BUNDLE_POP_PATH \<and> f = [] then do { h1 \<leftarrow> serialize_pop Q E m t h; Some (False, h1) }
     else serialize_message Q L E m (lua_call t p f as) 3 t p f h)"
proof -
  have "luaL_checkint L (lua_int (uint t)) = Some t"
    using lua_api.checkinteger [OF L abs_uint32 [of t]] by (simp add: luaL_checkint_def)
  then show ?thesis
    using n by (simp add: serialize_packet_def Let_def lua_api.isnumber [OF L] lua_api.checkstring [OF L])
qed

lemma message_args:
  assumes Q: "osc_lib Q" and L: "lua_api L" and ok: "script_ok Q n (Message p f as)" and b: "length b \<le> TJOST_BUF_SIZE"
  shows "serialize_args Q L E (lua_call t p f as) 5 f
      (osc_set_fmt Q TJOST_BUF_SIZE (osc_set_path Q TJOST_BUF_SIZE (Some b) p) f, h) =
    Some (False, if length b + length (osc_msg p f as) \<le> TJOST_BUF_SIZE then Some (b @ osc_msg p f as) else None, h)"
proof -
  have v: "list_all osc_valid as" using ok by (auto simp: list_all_iff lua_rep_valid)
  show ?thesis
    using serialize_args_slots [OF Q L, of f as 5 "lua_call t p f as" E] ok osc_lib.write_message [OF Q v b] by simp
qed

text \<open>A message outside bundles is scheduled as it is spelled; one that does not fit is dropped.\<close>

lemma serialize_message_top:
  assumes Q: "osc_lib Q" and L: "lua_api L" and ok: "script_ok Q n (Message p f as)" and b: "m_bndls (module_at h m) = []"
  shows "serialize_packet Q L E m (lua_call t p f as) h =
    (if length (osc_msg p f as) \<le> TJOST_BUF_SIZE
     then do { h1 \<leftarrow> tjost_module_schedule E h m t (osc_msg p f as);
               Some (False, upd_module m (set_written (Some (osc_msg p f as))) h1) }
     else Some (False, upd_module m (set_written None) h))"
  using ok fmt_fits_no_nul [of f as] b message_args [OF Q L ok, of "[]" E t h]
  by (auto simp: serialize_packet_call [OF L] serialize_message_def Let_def)

text \<open>Inside a bundle it becomes one more item of the buffer.\<close>

lemma serialize_message_nested:
  assumes Q: "osc_lib Q" and L: "lua_api L" and ok: "script_ok Q n (Message p f as)" and b: "m_bndls (module_at h m) \<noteq> []"
    and w: "written (module_at h m) = Some b" and fit: "length b + length (osc_item (osc_msg p f as)) \<le> TJOST_BUF_SIZE"
  shows "serialize_packet Q L E m (lua_call t p f as) h =
    Some (False, upd_module m (set_written (Some (b @ osc_item (osc_msg p f as)))) h)"
proof -
  have "length b + 4 \<le> TJOST_BUF_SIZE" using fit by simp
  from osc_lib.start_item [OF Q this] obtain g where g: "length g = 4"
    "osc_start_bundle_item Q TJOST_BUF_SIZE (Some b) = (Some (length b), Some (b @ g))" by blast
  have "osc_end_bundle_item Q TJOST_BUF_SIZE (Some (b @ g @ osc_msg p f as)) (Some (length b)) =
      Some (b @ osc_item (osc_msg p f as))"
    by (rule osc_lib.end_item [OF Q g(1) osc_msg_nonempty])
  then show ?thesis
    using ok fmt_fits_no_nul [of f as] b w fit g message_args [OF Q L ok, of "b @ g" E t h]
    by (auto simp: serialize_packet_call [OF L] serialize_message_def Let_def)
qed

section \<open>Bundles\<close>

text \<open>Nothing is queued and no block stays: what the calls inside a bundle leave of the host.\<close>

definition quiet ::
  "('r \<Rightarrow> bool) \<Rightarrow> ('t \<Rightarrow> addr \<rightharpoonup> nat) \<Rightarrow> ('t \<Rightarrow> bool) \<Rightarrow> ('t, 'r) host \<Rightarrow> ('t, 'r) host \<Rightarrow> bool" where
  "quiet rok live aok h h' \<longleftrightarrow> preserves rok live aok h h' \<and> queue_of h' = queue_of h \<and>
     live (tlsf h') = live (tlsf h)"

definition bundle_state :: "addr \<Rightarrow> byte list \<Rightarrow> (addr \<times> nat option) list \<Rightarrow> ('t, 'r) host \<Rightarrow> bool" where
  "bundle_state m b bs h \<longleftrightarrow> written (module_at h m) = Some b \<and> m_bndls (module_at h m) = bs"

definition buffer_only :: "(tjmod \<Rightarrow> tjmod) \<Rightarrow> bool" where
  "buffer_only f \<longleftrightarrow> (\<forall>M. m_queue (f M) = m_queue M \<and> m_children (f M) = m_children M \<and>
     m_type (f M) = m_type M \<and> has_lua_callback (f M) = has_lua_callback M)"

lemma buffer_only_upd:
  assumes "buffer_only f"
  shows "queue_of (upd_module m f h) = queue_of h" "config (upd_module m f h) = config h"
  using assms by (auto simp: buffer_only_def queue_of_def upd_module_def config_def fun_eq_iff split: option.splits)

lemma buffer_only_set [simp]: "buffer_only (set_written w)"
  by (simp add: buffer_only_def)

lemma upd_module_frame [simp]:
  "tlsf (upd_module m f h) = tlsf h" "rb_msg (upd_module m f h) = rb_msg h" "used (upd_module m f h) = used h"
  by (simp_all add: upd_module_def)

lemma run_script_append:
  "run_script Q L E m (cs @ ds) h =
   do { (err, h1) \<leftarrow> run_script Q L E m cs h; if err then Some (True, h1) else run_script Q L E m ds h1 }"
  by (induction cs arbitrary: h) (auto split: Option.bind_splits)

context tjost_env
begin

abbreviation quietly :: "('t, 'r) host \<Rightarrow> ('t, 'r) host \<Rightarrow> bool" where
  "quietly \<equiv> quiet rok live aok"

lemma quiet_trans: "quietly h h1 \<Longrightarrow> quietly h1 h2 \<Longrightarrow> quietly h h2"
  by (simp add: quiet_def preserves_def)

lemma quiet_ok: "quietly h h' \<Longrightarrow> host_ok h'"
  by (simp add: quiet_def preserves_def)

lemma quiet_upd: "buffer_only f \<Longrightarrow> host_ok h \<Longrightarrow> quietly h (upd_module m f h)"
  by (simp add: quiet_def preserves_def host_wf_def used_exact_def buffer_only_upd)

text \<open>Opening a bundle: its node is a new block, the buffer holds its header.\<close>

lemma serialize_push_spec:
  assumes ok: "host_ok h" and r: "serialize_push Q E m h = Some h'"
    and w: "(if m_bndls (module_at h m) = [] then (m_itm (module_at h m), Some [])
      else osc_start_bundle_item Q TJOST_BUF_SIZE (written (module_at h m))) = (itm, Some b)"
    and Q: "osc_lib Q" and fit: "length b + 16 \<le> TJOST_BUF_SIZE"
  shows "\<exists>a s. live (tlsf h) a = None \<and> live (tlsf h') = (live (tlsf h))(a \<mapsto> s) \<and>
    preserves rok live aok h h' \<and> queue_of h' = queue_of h \<and> m_itm (module_at h' m) = itm \<and>
    bundle_state m (b @ bundle_header OSC_IMMEDIATE) ((a, Some (length b)) # m_bndls (module_at h m)) h'"
proof -
  let ?f = "\<lambda>a M. set_written (Some (b @ bundle_header OSC_IMMEDIATE))
    (M\<lparr>m_itm := itm, m_bndls := (a, Some (length b)) # m_bndls M\<rparr>)"
  from r w obtain a h1 where a: "tjost_alloc E h sizeof_bundle = Some (Some a, h1)" and h': "h' = upd_module m (?f a) h1"
    by (auto simp: serialize_push_def Let_def osc_lib.start_bundle [OF Q fit] split: Option.bind_splits)
  have h: "aok (tlsf h)" "rok (rb_msg h)" "queues_ok (live (tlsf h)) (queue_of h)"
    using ok by (simp_all add: host_wf_def)
  note al = alloc_spec [OF h(1,2) a]
  from al(5) [OF refl] obtain s where s: "live (tlsf h) a = None" "live (tlsf h1) = (live (tlsf h))(a \<mapsto> s)" by blast
  have "buffer_only (?f a)" by (simp add: buffer_only_def)
  note u = buffer_only_upd [OF this, of m h1]
  have q: "queue_of h' = queue_of h" unfolding h' u by (rule queue_of_frame [OF al(1)])
  have "config h' = config h" unfolding h' u by (rule config_mem_frame [OF al(1)])
  moreover have "host_ok h'"
    unfolding host_wf_def q using al(2,3) queues_ok_mono [OF h(3), of "live (tlsf h1)"] s(2) by (auto simp: h')
  moreover have "used_inv h \<longrightarrow> used_inv h'" using al(6) by (simp add: h' used_exact_def)
  ultimately show ?thesis
    using s q mem_frameD(4) [OF al(1)] by (auto simp: preserves_def bundle_state_def h')
qed

text \<open>Freeing a block no queue owns.\<close>

lemma free_node:
  assumes ok: "host_ok h" and a: "live (tlsf h) a = Some s" and n: "\<And>i. a \<notin> owned (queue_of h i)"
  shows "preserves rok live aok h (tjost_free E h (Some a))" "queue_of (tjost_free E h (Some a)) = queue_of h"
    "live (tlsf (tjost_free E h (Some a))) = (live (tlsf h))(a := None)"
    "module_at (tjost_free E h (Some a)) = module_at h"
proof -
  have h: "aok (tlsf h)" "rok (rb_msg h)" "queues_ok (live (tlsf h)) (queue_of h)"
    using ok by (simp_all add: host_wf_def)
  note f = free_spec [OF h(1) a]
  show q: "queue_of (tjost_free E h (Some a)) = queue_of h" by (rule queue_of_frame [OF f(1)])
  show l: "live (tlsf (tjost_free E h (Some a))) = (live (tlsf h))(a := None)" by (rule f(4))
  show "module_at (tjost_free E h (Some a)) = module_at h" by (rule mem_frameD(4) [OF f(1)])
  have "queues_ok ((live (tlsf h))(a := None)) (queue_of h)"
    using h(3) n unfolding queues_ok_def by (auto simp: dom_fun_upd)
  then have "host_ok (tjost_free E h (Some a))" unfolding host_wf_def q l using f(2,3) h(2) by simp
  then show "preserves rok live aok h (tjost_free E h (Some a))"
    using f(5) config_mem_frame [OF f(1)] by (simp add: preserves_def)
qed

text \<open>A packet whose calls append it to an open bundle; \<open>k\<close> says that they leave \<open>m_itm\<close> alone.\<close>

definition nests :: "osc_ops \<Rightarrow> lua_ops \<Rightarrow> addr \<Rightarrow> nframes \<Rightarrow> bool \<Rightarrow> osc_packet \<Rightarrow> bool" where
  "nests Q L m t k pk \<longleftrightarrow> (\<forall>h b bs e h'. host_ok h \<longrightarrow> bundle_state m b bs h \<longrightarrow> bs \<noteq> [] \<longrightarrow>
     length b + length (osc_item (packet_bytes pk)) \<le> TJOST_BUF_SIZE \<longrightarrow>
     run_script Q L E m (packet_script t pk) h = Some (e, h') \<longrightarrow>
     \<not> e \<and> quietly h h' \<and> bundle_state m (b @ osc_item (packet_bytes pk)) bs h' \<and>
     (k \<longrightarrow> m_itm (module_at h' m) = m_itm (module_at h m)))"

lemma nestsD:
  assumes "nests Q L m t k pk" and "host_ok h" and "bundle_state m b bs h" and "bs \<noteq> []"
    and "length b + length (osc_item (packet_bytes pk)) \<le> TJOST_BUF_SIZE"
    and "run_script Q L E m (packet_script t pk) h = Some (e, h')"
  shows "\<not> e" "quietly h h'" "bundle_state m (b @ osc_item (packet_bytes pk)) bs h'"
    "k \<Longrightarrow> m_itm (module_at h' m) = m_itm (module_at h m)"
  using assms unfolding nests_def by blast+

abbreviation items :: "osc_packet list \<Rightarrow> byte list" where
  "items ps \<equiv> concat (map (\<lambda>p. osc_item (packet_bytes p)) ps)"

lemma nests_message:
  assumes Q: "osc_lib Q" and L: "lua_api L" and ok: "script_ok Q n (Message p f as)"
  shows "nests Q L m t True (Message p f as)"
  unfolding nests_def bundle_state_def
  by (auto simp: serialize_message_nested [OF Q L ok] quiet_upd)

lemma nests_list:
  "list_all (nests Q L m t k) ps \<Longrightarrow> host_ok h \<Longrightarrow> bundle_state m b bs h \<Longrightarrow> bs \<noteq> [] \<Longrightarrow>
   length b + length (items ps) \<le> TJOST_BUF_SIZE \<Longrightarrow>
   run_script Q L E m (concat (map (packet_script t) ps)) h = Some (e, h') \<Longrightarrow>
   \<not> e \<and> quietly h h' \<and> bundle_state m (b @ items ps) bs h' \<and> (k \<longrightarrow> m_itm (module_at h' m) = m_itm (module_at h m))"
proof (induction ps arbitrary: h b)
  case Nil
  then show ?case by (simp add: quiet_def preserves_def)
next
  case (Cons p ps)
  from Cons.prems(6) obtain e1 h1 where r1: "run_script Q L E m (packet_script t p) h = Some (e1, h1)"
    and r2: "(if e1 then Some (True, h1) else run_script Q L E m (concat (map (packet_script t) ps)) h1) = Some (e, h')"
    by (auto simp: run_script_append split: Option.bind_splits)
  have n: "nests Q L m t k p" and l: "list_all (nests Q L m t k) ps" using Cons.prems(1) by simp_all
  have b: "length b + length (osc_item (packet_bytes p)) \<le> TJOST_BUF_SIZE" using Cons.prems(5) by simp
  note d = nestsD [OF n Cons.prems(2,3,4) b r1]
  have "length (b @ osc_item (packet_bytes p)) + length (items ps) \<le> TJOST_BUF_SIZE" using Cons.prems(5) by simp
  from Cons.IH [OF l quiet_ok [OF d(2)] d(3) Cons.prems(4) this] r2 d show ?case
    by (auto intro: quiet_trans)
qed

lemma run_bundle:
  assumes "lua_api L"
  shows "run_script Q L E m (packet_script t (Bundle tt ps)) h =
    do { h1 \<leftarrow> serialize_push Q E m h;
         (e, h2) \<leftarrow> run_script Q L E m (concat (map (packet_script t) ps)) h1;
         if e then Some (True, h2) else do { h3 \<leftarrow> serialize_pop Q E m t h2; Some (False, h3) } }"
proof -
  have "serialize_packet Q L E m (lua_call t TJOST_BUNDLE_PUSH_PATH [] []) h =
      do { h1 \<leftarrow> serialize_push Q E m h; Some (False, h1) }"
    "serialize_packet Q L E m (lua_call t TJOST_BUNDLE_POP_PATH [] []) h =
      do { h1 \<leftarrow> serialize_pop Q E m t h; Some (False, h1) }" for h
    using path_no_nul by (simp_all add: serialize_packet_call [OF assms])
  then show ?thesis by (simp add: run_script_append Option.bind_assoc cong: Option.bind_cong if_cong)
qed

text \<open>Closing a bundle inside another one writes its size, at the item \<open>m_itm\<close> points to.\<close>

lemma serialize_pop_nested:
  assumes Q: "osc_lib Q" and s: "bundle_state m (b @ g @ bundle_header tt @ es) ((a, Some (length (b @ g))) # bs) h"
    and n: "bs \<noteq> []" "es \<noteq> []" "length g = 4" "m_itm (module_at h m) = Some (length b)"
  shows "serialize_pop Q E m t h = Some (upd_module m (set_written (Some (b @ osc_item (bundle_header tt @ es))))
    (tjost_free E (upd_module m (\<lambda>M. M\<lparr>m_bndls := bs\<rparr>) h) (Some a)))"
proof -
  have "osc_end_bundle Q TJOST_BUF_SIZE (Some ((b @ g) @ bundle_header tt @ es)) (Some (length (b @ g))) =
      Some ((b @ g) @ bundle_header tt @ es)"
    by (rule osc_lib.end_bundle [OF Q n(2)])
  moreover have "osc_end_bundle_item Q TJOST_BUF_SIZE (Some (b @ g @ bundle_header tt @ es)) (Some (length b)) =
      Some (b @ osc_item (bundle_header tt @ es))"
    by (rule osc_lib.end_item [OF Q n(3)]) (simp add: n(2))
  ultimately show ?thesis using s n by (simp add: serialize_pop_def bundle_state_def)
qed

lemma node_fresh:
  assumes "host_ok h" "live (tlsf h) a = None" "queue_of h' = queue_of h"
  shows "a \<notin> owned (queue_of h' i)"
  using assms queues_okD(3) [of "live (tlsf h)" "queue_of h" i] by (auto simp: host_wf_def)

lemma buffer_only_bndls [simp]: "buffer_only (\<lambda>M. M\<lparr>m_bndls := bs\<rparr>)"
  by (simp add: buffer_only_def)

lemma nests_bundle:
  assumes Q: "osc_lib Q" and L: "lua_api L" and ps: "ps \<noteq> []" "list_all (nests Q L m t True) ps"
  shows "nests Q L m t False (Bundle OSC_IMMEDIATE ps)"
  unfolding nests_def
proof (intro allI impI)
  fix h b bs e h'
  let ?tt = "bundle_header OSC_IMMEDIATE"
  assume ok: "host_ok h" and st: "bundle_state m b bs h" and bs: "bs \<noteq> []"
    and fit: "length b + length (osc_item (packet_bytes (Bundle OSC_IMMEDIATE ps))) \<le> TJOST_BUF_SIZE"
    and r: "run_script Q L E m (packet_script t (Bundle OSC_IMMEDIATE ps)) h = Some (e, h')"
  have b4: "length b + 4 \<le> TJOST_BUF_SIZE" using fit by simp
  from osc_lib.start_item [OF Q b4] obtain g where g: "length g = 4"
    "osc_start_bundle_item Q TJOST_BUF_SIZE (Some b) = (Some (length b), Some (b @ g))" by blast
  from r obtain h1 e2 h2 where p: "serialize_push Q E m h = Some h1"
    and i: "run_script Q L E m (concat (map (packet_script t) ps)) h1 = Some (e2, h2)"
    and z: "(if e2 then Some (True, h2)
      else do { h3 \<leftarrow> serialize_pop Q E m t h2; Some (False, h3) }) = Some (e, h')"
    unfolding run_bundle [OF L] by (auto split: Option.bind_splits)
  have w: "(if m_bndls (module_at h m) = [] then (m_itm (module_at h m), Some [])
      else osc_start_bundle_item Q TJOST_BUF_SIZE (written (module_at h m))) = (Some (length b), Some (b @ g))"
    using st bs g by (simp add: bundle_state_def)
  have "length (b @ g) + 16 \<le> TJOST_BUF_SIZE" using fit g by simp
  from serialize_push_spec [OF ok p w Q this] obtain a s where a: "live (tlsf h) a = None"
      "live (tlsf h1) = (live (tlsf h))(a \<mapsto> s)" "preserves rok live aok h h1" "queue_of h1 = queue_of h"
      "m_itm (module_at h1 m) = Some (length b)"
      "bundle_state m ((b @ g) @ ?tt) ((a, Some (length (b @ g))) # bs) h1"
    using st by (auto simp: bundle_state_def)
  have ok1: "host_ok h1" using a(3) by (simp add: preserves_def)
  have "length ((b @ g) @ ?tt) + length (items ps) \<le> TJOST_BUF_SIZE" using fit g by simp
  from nests_list [OF ps(2) ok1 a(6) _ this i]
  have n: "\<not> e2" "quietly h1 h2" "bundle_state m (((b @ g) @ ?tt) @ items ps) ((a, Some (length (b @ g))) # bs) h2"
    "m_itm (module_at h2 m) = Some (length b)"
    using a(5) by simp_all
  have ip: "items ps \<noteq> []" using ps(1) by (cases ps) (simp_all add: osc_item_def)
  let ?h3 = "upd_module m (\<lambda>M. M\<lparr>m_bndls := bs\<rparr>) h2"
  let ?h4 = "tjost_free E ?h3 (Some a)"
  have h': "\<not> e" "h' = upd_module m (set_written (Some (b @ osc_item (?tt @ items ps)))) ?h4"
    using z n(1) serialize_pop_nested [OF Q _ bs ip g(1) n(4), of OSC_IMMEDIATE a t] n(3) by (simp_all add: bundle_state_def)
  have q3: "quietly h2 ?h3" using quiet_ok [OF n(2)] by (rule quiet_upd [OF buffer_only_bndls])
  have q: "queue_of ?h3 = queue_of h" using q3 n(2) a(4) by (simp add: quiet_def)
  have l: "live (tlsf ?h3) = (live (tlsf h))(a \<mapsto> s)" using q3 n(2) a(2) by (simp add: quiet_def)
  note f = free_node [OF quiet_ok [OF q3], of a s] node_fresh [OF ok a(1) q]
  have f': "preserves rok live aok ?h3 ?h4" "queue_of ?h4 = queue_of ?h3" "live (tlsf ?h4) = live (tlsf h)"
    "module_at ?h4 = module_at ?h3"
    using f l a(1) by (auto simp: fun_upd_idem)
  have "quietly h ?h4"
    using a(3) n(2) q3 f' q by (simp add: quiet_def preserves_def)
  then have "quietly h h'"
    unfolding h'(2) by (rule quiet_trans [OF _ quiet_upd [OF buffer_only_set]]) (rule quiet_ok, fact)
  then show "\<not> e \<and> quietly h h' \<and> bundle_state m (b @ osc_item (packet_bytes (Bundle OSC_IMMEDIATE ps))) bs h' \<and>
      (False \<longrightarrow> m_itm (module_at h' m) = m_itm (module_at h m))"
    using h' f'(4) by (simp add: bundle_state_def)
qed

lemma nests_weaken: "nests Q L m t k pk \<Longrightarrow> nests Q L m t False pk"
  unfolding nests_def by blast

lemma script_nests:
  assumes Q: "osc_lib Q" and L: "lua_api L"
  shows "script_ok Q 0 pk \<Longrightarrow> nests Q L m t True pk" "script_ok Q 1 pk \<Longrightarrow> nests Q L m t False pk"
proof -
  show msg: "nests Q L m t True pk" if "script_ok Q 0 pk" for pk
  proof (cases pk)
    case (Message p f as)
    then show ?thesis using that nests_message [OF Q L, of 0 p f as m t] by simp
  qed (use that in simp)
  show "nests Q L m t False pk" if "script_ok Q 1 pk"
  proof (cases pk)
    case (Message p f as)
    then show ?thesis using that nests_weaken [OF nests_message [OF Q L, of 1 p f as m t]] by simp
  next
    case (Bundle tt ps)
    with that have "list_all (script_ok Q 0) ps" "ps \<noteq> []" "tt = OSC_IMMEDIATE" by simp_all
    moreover from this(1) have "list_all (nests Q L m t True) ps" by (rule list.pred_mono_strong) (rule msg)
    ultimately show ?thesis using nests_bundle [OF Q L] Bundle by blast
  qed
qed

text \<open>Closing the outermost bundle schedules it.\<close>

lemma serialize_pop_top:
  assumes Q: "osc_lib Q" and s: "bundle_state m (bundle_header tt @ es) [(a, Some 0)] h" and e: "es \<noteq> []"
  shows "serialize_pop Q E m t h =
    do { h1 \<leftarrow> tjost_module_schedule E (upd_module m (\<lambda>M. M\<lparr>m_bndls := []\<rparr>) h) m t (bundle_header tt @ es);
         Some (upd_module m (set_written (Some (bundle_header tt @ es))) (tjost_free E h1 (Some a))) }"
proof -
  have "osc_end_bundle Q TJOST_BUF_SIZE (Some ([] @ bundle_header tt @ es)) (Some (length ([] :: byte list))) = Some ([] @ bundle_header tt @ es)"
    by (rule osc_lib.end_bundle [OF Q e])
  then show ?thesis using s e by (simp add: serialize_pop_def bundle_state_def Option.bind_assoc Let_def)
qed

text \<open>The script of a packet leaves one event more in the queue of its module, with the packet's bytes.\<close>

definition sends :: "addr \<Rightarrow> nframes \<Rightarrow> byte list \<Rightarrow> ('t, 'r) host \<Rightarrow> ('t, 'r) host \<Rightarrow> bool" where
  "sends m t bytes h h' \<longleftrightarrow> preserves rok live aok h h' \<and> queue h' = queue h \<and>
     view h' = deliver (m, t, bytes) (view h) \<and> m_bndls (module_at h' m) = []"

lemma view_queue_of: "queue_of h' = queue_of h \<Longrightarrow> view h' = view h \<and> queue h' = queue h"
  using queue_of_simps(1) [of h] queue_of_simps(1) [of h'] by (auto simp: view_def fun_eq_iff simp del: queue_of_simps)

lemma schedule_bndls:
  assumes "tjost_module_schedule E h m t buf = Some h'"
  shows "m_bndls (module_at h' m) = m_bndls (module_at h m)"
  using module_schedule_frame [OF assms] unfolding queue_frame_def
  by (metis tjmod.select_convs(8) tjmod.surjective tjmod.update_convs(2))

lemma run_message_top:
  assumes Q: "osc_lib Q" and L: "lua_api L" and ok: "host_ok h" and b: "m_bndls (module_at h m) = []"
    and s: "script_ok Q n (Message p f as)" and fit: "length (packet_bytes (Message p f as)) \<le> TJOST_BUF_SIZE"
    and r: "run_script Q L E m (packet_script t (Message p f as)) h = Some (e, h')"
  shows "\<not> e \<and> sends m t (packet_bytes (Message p f as)) h h'"
proof -
  from r fit obtain h1 where h1: "tjost_module_schedule E h m t (osc_msg p f as) = Some h1"
    and h': "\<not> e" "h' = upd_module m (set_written (Some (osc_msg p f as))) h1"
    by (auto simp: serialize_message_top [OF Q L s b] split: Option.bind_splits)
  note d = schedule_delivers [OF ok h1]
  then have q: "quietly h1 h'" unfolding h'(2) by (intro quiet_upd) (simp_all add: preserves_def)
  then show ?thesis
    using d h' view_queue_of [of h' h1] schedule_bndls [OF h1] b by (simp add: sends_def quiet_def preserves_def)
qed

lemma run_bundle_top:
  assumes Q: "osc_lib Q" and L: "lua_api L" and ok: "host_ok h" and b: "m_bndls (module_at h m) = []"
    and s: "script_ok Q 2 (Bundle tt ps)" and fit: "length (packet_bytes (Bundle tt ps)) \<le> TJOST_BUF_SIZE"
    and r: "run_script Q L E m (packet_script t (Bundle tt ps)) h = Some (e, h')"
  shows "\<not> e \<and> sends m t (packet_bytes (Bundle tt ps)) h h'"
proof -
  let ?tt = "bundle_header OSC_IMMEDIATE"
  have ps: "tt = OSC_IMMEDIATE" "ps \<noteq> []" "list_all (nests Q L m t False) ps"
    using s script_nests(2) [OF Q L] by (auto simp: list_all_iff)
  from r obtain h1 e2 h2 where p: "serialize_push Q E m h = Some h1"
    and i: "run_script Q L E m (concat (map (packet_script t) ps)) h1 = Some (e2, h2)"
    and z: "(if e2 then Some (True, h2) else do { h3 \<leftarrow> serialize_pop Q E m t h2; Some (False, h3) }) = Some (e, h')"
    unfolding run_bundle [OF L] by (auto split: Option.bind_splits)
  have w: "(if m_bndls (module_at h m) = [] then (m_itm (module_at h m), Some [])
      else osc_start_bundle_item Q TJOST_BUF_SIZE (written (module_at h m))) = (m_itm (module_at h m), Some [])"
    using b by simp
  have "length ([] :: byte list) + 16 \<le> TJOST_BUF_SIZE" by (simp add: TJOST_BUF_SIZE_def)
  from serialize_push_spec [OF ok p w Q this] obtain a sz where a: "live (tlsf h) a = None"
      "live (tlsf h1) = (live (tlsf h))(a \<mapsto> sz)" "preserves rok live aok h h1" "queue_of h1 = queue_of h"
      "bundle_state m ?tt [(a, Some 0)] h1"
    using b by auto
  have ok1: "host_ok h1" using a(3) by (simp add: preserves_def)
  have "length ?tt + length (items ps) \<le> TJOST_BUF_SIZE" using fit by simp
  from nests_list [OF ps(3) ok1 a(5) _ this i]
  have n: "\<not> e2" "quietly h1 h2" "bundle_state m (?tt @ items ps) [(a, Some 0)] h2" by simp_all
  have ip: "items ps \<noteq> []" using ps(2) by (cases ps) (simp_all add: osc_item_def)
  let ?h3 = "upd_module m (\<lambda>M. M\<lparr>m_bndls := []\<rparr>) h2"
  from z n(1) serialize_pop_top [OF Q n(3) ip, of t] obtain h4
    where h4: "tjost_module_schedule E ?h3 m t (?tt @ items ps) = Some h4"
      and h': "\<not> e" "h' = upd_module m (set_written (Some (?tt @ items ps))) (tjost_free E h4 (Some a))"
    by (auto split: Option.bind_splits)
  have q3: "quietly h1 ?h3" by (rule quiet_trans [OF n(2) quiet_upd [OF buffer_only_bndls quiet_ok [OF n(2)]]])
  have q: "queue_of ?h3 = queue_of h" and l3: "live (tlsf ?h3) a = Some sz" using q3 a(2,4) by (simp_all add: quiet_def)
  note d = schedule_delivers [OF quiet_ok [OF q3] h4]
  from module_schedule_spec [OF quiet_ok [OF q3] h4] obtain a' s' where
    a': "live (tlsf ?h3) a' = None" "live (tlsf h4) = (live (tlsf ?h3))(a' \<mapsto> s')"
      "queue_of h4 = (queue_of ?h3)(Some m := insert_event (mk_event a' None t (?tt @ items ps)) (queue_of ?h3 (Some m)))"
    by blast
  have ne: "a \<noteq> a'" using l3 a'(1) by auto
  have own: "a \<notin> owned (queue_of h4 i)" for i
    using node_fresh [OF ok a(1) q, of i] node_fresh [OF ok a(1) q, of "Some m"] ne
    by (auto simp del: queue_of_simps simp: a'(3) fun_upd_apply)
  have l4: "live (tlsf h4) a = Some sz" using a'(2) l3 ne by simp
  have ok4: "host_ok h4" using d by (simp add: preserves_def)
  note f = free_node [OF ok4 l4 own]
  have qf: "quietly (tjost_free E h4 (Some a)) h'" unfolding h'(2)
    by (rule quiet_upd [OF buffer_only_set]) (use f(1) in \<open>simp add: preserves_def\<close>)
  have "m_bndls (module_at h' m) = []" using schedule_bndls [OF h4] by (simp add: h'(2) f(4))
  moreover have "view h' = deliver (m, t, ?tt @ items ps) (view h)" "queue h' = queue h"
    using view_queue_of [of h' h4] view_queue_of [of ?h3 h] qf f(2) q d by (simp_all add: quiet_def)
  moreover have "preserves rok live aok h h'"
    using a(3) q3 d f(1) qf by (simp add: quiet_def preserves_def)
  ultimately show ?thesis using h'(1) by (simp add: sends_def ps(1))
qed

end

end
