(* ===== verification/Lua_Graph.thy ===== *)
theory Lua_Graph
  imports Lua_Modules Lua_Roundtrip
begin

text \<open>
  What the operations on the graph of modules keep: instances and children stay well formed while
  scripts build it, and the collector gives back every block of an instance it takes down.
\<close>

section \<open>Clearing\<close>

context tjost_env
begin

lemma clear_events_spec:
  "host_ok h \<Longrightarrow> queue_of h i = q \<Longrightarrow>
   host_ok (clear_events E i q h) \<and> queue_of (clear_events E i q h) = (queue_of h)(i := []) \<and>
   live (tlsf (clear_events E i q h)) = (live (tlsf h)) |` (- owned q) \<and>
   (used_inv h \<longrightarrow> used_inv (clear_events E i q h)) \<and> config (clear_events E i q h) = config h"
proof (induction q arbitrary: h)
  case Nil
  then show ?case by (auto simp: fun_eq_iff)
next
  case (Cons e q)
  let ?h1 = "dequeue i (ev_addr e) h"
  let ?h2 = "tjost_free E ?h1 (Some (ev_addr e))"
  have d: "distinct (map ev_addr (e # q))"
    using Cons.prems queues_okD(2) [of "live (tlsf h)" "queue_of h" i] by (simp add: host_wf_def)
  have q1: "queue_of ?h1 = (queue_of h)(i := ev_remove (ev_addr e) (queue_of h i))"
    by (rule queue_of_dequeue)
  have s: "tlsf ?h1 = tlsf h" "rb_msg ?h1 = rb_msg h" "used ?h1 = used h"
    by (simp_all add: dequeue_def split: option.split)
  have own: "ev_addr e \<in> owned (queue_of h i)" using Cons.prems(2) by simp
  note r = release_spec [OF Cons.prems(1) own q1 s]
  have q2: "queue_of ?h2 = (queue_of h)(i := q)" using r(2) Cons.prems(2) ev_remove_head [OF d] by simp
  then have "queue_of ?h2 i = q" by simp
  from Cons.IH [OF r(1) this] q2 r(3,4) show ?case
    by (auto simp: config_mem_frame [OF tjost_free_frame] restrict_map_def fun_eq_iff)
qed

lemma module_clear_spec:
  assumes ok: "host_ok h"
  shows "host_ok (module_clear E m h)" "queue_of (module_clear E m h) = (queue_of h)(Some m := [])"
    "live (tlsf (module_clear E m h)) = (live (tlsf h)) |` (- owned (m_queue (module_at h m)))"
    "used_inv h \<Longrightarrow> used_inv (module_clear E m h)" "config (module_clear E m h) = config h"
  using clear_events_spec [OF ok, of "Some m" "m_queue (module_at h m)"] by (simp_all add: module_clear_def)

section \<open>The nodes of a children list\<close>

definition drop_children :: "addr \<Rightarrow> (addr \<times> addr) list \<Rightarrow> ('t, 'r) host \<Rightarrow> bool" where
  "drop_children m cs h \<longleftrightarrow> distinct (map fst cs) \<and> fst ` set cs \<subseteq> dom (live (tlsf h)) \<and>
     (\<forall>i. owned (queue_of h i) \<inter> fst ` set cs = {})"

lemma children_upd:
  "queue_of (upd_module m (\<lambda>M. M\<lparr>m_children := f M\<rparr>) h) = queue_of h"
  by (auto simp: queue_of_def upd_module_def fun_eq_iff split: option.splits)

lemma free_children_spec:
  "host_ok h \<Longrightarrow> m_children (module_at h m) = cs \<Longrightarrow> drop_children m cs h \<Longrightarrow>
   (let h' = free_children E m cs h in host_ok h' \<and> queue_of h' = queue_of h \<and>
    live (tlsf h') = (live (tlsf h)) |` (- fst ` set cs) \<and> (used_inv h \<longrightarrow> used_inv h') \<and>
    modules h' = modules h \<and> uplinks h' = uplinks h \<and>
    module_at h' = (module_at h)(m := (module_at h m)\<lparr>m_children := []\<rparr>))"
proof (induction cs arbitrary: h)
  case Nil
  then have "(module_at h m)\<lparr>m_children := []\<rparr> = module_at h m" by simp
  with Nil show ?case by (simp add: fun_upd_idem)
next
  case (Cons c cs)
  let ?h1 = "upd_module m (\<lambda>M. M\<lparr>m_children := remove1 c (m_children M)\<rparr>) h"
  let ?h2 = "tjost_free E ?h1 (Some (fst c))"
  have h1: "host_ok ?h1" "queue_of ?h1 = queue_of h" "tlsf ?h1 = tlsf h" "used ?h1 = used h"
    using Cons.prems(1) by (simp_all add: host_wf_def children_upd)
  from Cons.prems(3) obtain s where "live (tlsf ?h1) (fst c) = Some s" by (auto simp: drop_children_def)
  moreover have "fst c \<notin> owned (queue_of ?h1 i)" for i using Cons.prems(3) by (auto simp: drop_children_def h1(2))
  ultimately have f: "preserves rok live aok ?h1 ?h2" "queue_of ?h2 = queue_of ?h1"
      "live (tlsf ?h2) = (live (tlsf ?h1))(fst c := None)" "module_at ?h2 = module_at ?h1"
    using free_node [OF h1(1), of "fst c" s] by blast+
  have "m_children (module_at ?h2 m) = cs" using Cons.prems(2) f(4) by simp
  moreover have "drop_children m cs ?h2"
  proof -
    have d: "fst c \<notin> fst ` set cs" "distinct (map fst cs)" and sub: "fst ` set (c # cs) \<subseteq> dom (live (tlsf h))"
      and own: "owned (queue_of h i) \<inter> fst ` set (c # cs) = {}" for i
      using Cons.prems(3) unfolding drop_children_def by simp_all
    have "fst ` set cs \<subseteq> dom (live (tlsf h)) - {fst c}" using d(1) sub by (simp add: subset_Diff_insert)
    moreover have "owned (queue_of h i) \<inter> fst ` set cs = {}" for i using own [of i] by (simp add: disjoint_iff)
    ultimately show ?thesis unfolding drop_children_def f(2,3) h1(2,3) using d(2) by simp
  qed
  moreover have "host_ok ?h2" "used_inv h \<longrightarrow> used_inv ?h2"
    using f(1) h1 by (simp_all add: preserves_def used_exact_def)
  moreover have "modules ?h2 = modules h" "uplinks ?h2 = uplinks h"
    by (simp_all add: tjost_free_def upd_module_def)
  ultimately have IH: "let h' = free_children E m cs ?h2 in host_ok h' \<and> queue_of h' = queue_of ?h2 \<and>
      live (tlsf h') = (live (tlsf ?h2)) |` (- fst ` set cs) \<and> (used_inv ?h2 \<longrightarrow> used_inv h') \<and>
      modules h' = modules ?h2 \<and> uplinks h' = uplinks ?h2 \<and>
      module_at h' = (module_at ?h2)(m := (module_at ?h2 m)\<lparr>m_children := []\<rparr>)"
    and k: "used_inv h \<longrightarrow> used_inv ?h2" "modules ?h2 = modules h" "uplinks ?h2 = uplinks h"
    using Cons.IH [of ?h2] by blast+
  have l: "(live (tlsf ?h2)) |` (- fst ` set cs) = (live (tlsf h)) |` (- fst ` set (c # cs))"
    unfolding f(3) h1(3) by (auto simp: restrict_map_def fun_eq_iff)
  have ma: "(module_at ?h2)(m := (module_at ?h2 m)\<lparr>m_children := []\<rparr>) = (module_at h)(m := (module_at h m)\<lparr>m_children := []\<rparr>)"
    unfolding f(4) by (simp add: upd_module_def)
  have q: "queue_of ?h2 = queue_of h" unfolding f(2) h1(2) ..
  have fc: "free_children E m (c # cs) h = free_children E m cs ?h2" by simp
  show ?case unfolding Let_def fc using IH [unfolded Let_def l ma k(2,3) q] k(1) by blast
qed

end

section \<open>Adding a child\<close>

lemma distinct_concat_upd:
  "distinct xs \<Longrightarrow> distinct (concat (map f xs)) \<Longrightarrow> a \<notin> set (concat (map f xs)) \<Longrightarrow>
   distinct (concat (map (f(m := f m @ [a])) xs))"
proof (induction xs)
  case (Cons x xs)
  have same: "m \<notin> set xs \<Longrightarrow> map (f(m := f m @ [a])) xs = map f xs" by simp
  from Cons show ?case by (cases "x = m") (auto simp: same)
qed simp

lemma child_nodes_upd:
  assumes "module_at h' = (module_at h)(m := M')" and "map fst (m_children M') = map fst (m_children (module_at h m)) @ [a]"
    and "modules h' = modules h" "uplinks h' = uplinks h"
  shows "child_nodes h' = concat (map ((\<lambda>m. map fst (m_children (module_at h m)))
    (m := map fst (m_children (module_at h m)) @ [a])) (all_modules h))"
proof -
  have "(\<lambda>k. map fst (m_children (module_at h' k))) =
      (\<lambda>m. map fst (m_children (module_at h m)))(m := map fst (m_children (module_at h m)) @ [a])"
    using assms(1,2) by (simp add: fun_eq_iff)
  then show ?thesis using assms(3,4) by (simp add: child_nodes_def all_modules_def)
qed

context tjost_env
begin

abbreviation graph_inv :: "('t, 'r) host \<Rightarrow> bool" where
  "graph_inv h \<equiv> host_ok h \<and> graph_ok h \<and> nodes_ok (live (tlsf h)) h"

lemma add_child_spec:
  assumes ok: "host_ok h" and r: "add_child E m out h = Some h'"
  shows "\<exists>a s. live (tlsf h) a = None \<and> live (tlsf h') = (live (tlsf h))(a \<mapsto> s) \<and> host_ok h' \<and>
    (used_inv h \<longrightarrow> used_inv h') \<and> queue_of h' = queue_of h \<and> modules h' = modules h \<and> uplinks h' = uplinks h \<and>
    module_at h' = (module_at h)(m := (module_at h m)\<lparr>m_children := m_children (module_at h m) @ [(a, out)]\<rparr>)"
proof -
  let ?f = "\<lambda>a M. M\<lparr>m_children := m_children M @ [(a, out)]\<rparr>"
  from r obtain a h1 where a: "tjost_alloc E h sizeof_child = Some (Some a, h1)" and h': "h' = upd_module m (?f a) h1"
    by (auto simp: add_child_def split: Option.bind_splits)
  have h: "aok (tlsf h)" "rok (rb_msg h)" "queues_ok (live (tlsf h)) (queue_of h)"
    using ok by (simp_all add: host_wf_def)
  note al = alloc_spec [OF h(1,2) a]
  from al(5) [OF refl] obtain s where s: "live (tlsf h) a = None" "live (tlsf h1) = (live (tlsf h))(a \<mapsto> s)" by blast
  have q: "queue_of h' = queue_of h" unfolding h' children_upd by (rule queue_of_frame [OF al(1)])
  have "host_ok h'"
    unfolding host_wf_def q using al(2,3) queues_ok_mono [OF h(3), of "live (tlsf h1)"] s(2) by (auto simp: h')
  then show ?thesis
    using s q al(6) mem_frameD(2-4) [OF al(1)] by (auto simp: h' upd_module_def used_exact_def)
qed

lemma add_child_graph:
  assumes i: "graph_inv h" and o: "out \<in> set (all_modules h)" "is_output h out" and r: "add_child E m out h = Some h'"
  shows "graph_inv h' \<and> (used_inv h \<longrightarrow> used_inv h')"
proof -
  from add_child_spec [OF _ r] i obtain a s where a: "live (tlsf h) a = None"
      "live (tlsf h') = (live (tlsf h))(a \<mapsto> s)" "host_ok h'" "used_inv h \<longrightarrow> used_inv h'" "queue_of h' = queue_of h"
      "modules h' = modules h" "uplinks h' = uplinks h"
      "module_at h' = (module_at h)(m := (module_at h m)\<lparr>m_children := m_children (module_at h m) @ [(a, out)]\<rparr>)"
    by blast
  have t: "is_output h' k = is_output h k" for k using a(8) by (simp add: is_output_def)
  have al: "all_modules h' = all_modules h" using a(6,7) by (simp add: all_modules_def)
  have "graph_ok h'" using i o a(8) unfolding graph_ok_def al t by (auto split: if_splits)
  moreover have "nodes_ok (live (tlsf h')) h'"
  proof -
    note n = child_nodes_upd [OF a(8) _ a(6,7), of a]
    have new: "a \<notin> set (child_nodes h)" using i a(1) by (auto simp: nodes_ok_def)
    have "distinct (all_modules h)" "distinct (child_nodes h)" using i by (simp_all add: graph_ok_def nodes_ok_def)
    then have "distinct (child_nodes h')"
      using n new distinct_concat_upd [of "all_modules h" "\<lambda>m. map fst (m_children (module_at h m))" a m]
      unfolding child_nodes_def [of h] by simp
    moreover have "set (child_nodes h') \<subseteq> insert a (set (child_nodes h))"
      using n by (auto simp: child_nodes_def split: if_splits)
    moreover have "a \<notin> owned (queue_of h' k)" for k using node_fresh [OF _ a(1,5)] i by blast
    moreover have "set (child_nodes h) \<subseteq> dom (live (tlsf h))" "owned (queue_of h k) \<inter> set (child_nodes h) = {}" for k
      using i by (simp_all add: nodes_ok_def)
    ultimately have "set (child_nodes h') \<subseteq> dom (live (tlsf h'))" "owned (queue_of h' k) \<inter> set (child_nodes h') = {}" for k
      unfolding a(2,5) by (simp add: subset_eq, blast, blast)
    with \<open>distinct (child_nodes h')\<close> show ?thesis unfolding nodes_ok_def by blast
  qed
  ultimately show ?thesis using a by blast
qed

end

section \<open>New instances\<close>

text \<open>An instance that is not listed yet, with its children ready.\<close>

definition ready :: "(addr \<rightharpoonup> nat) \<Rightarrow> addr \<Rightarrow> ('t, 'r) host \<Rightarrow> bool" where
  "ready lv m h \<longleftrightarrow> m \<notin> set (all_modules h) \<and>
     (let cs = m_children (module_at h m) in
      (\<forall>c\<in>set cs. snd c \<in> set (all_modules h) \<and> is_output h (snd c)) \<and> distinct (map fst cs) \<and>
      fst ` set cs \<subseteq> dom lv - set (child_nodes h) \<and> (\<forall>i. owned (queue_of h i) \<inter> fst ` set cs = {}))"

definition listed :: "addr \<Rightarrow> ('t, 'r) host \<Rightarrow> ('t, 'r) host \<Rightarrow> bool" where
  "listed m h h' \<longleftrightarrow> (\<exists>xs ys. all_modules h = xs @ ys \<and> all_modules h' = xs @ m # ys) \<and>
     module_at h' = module_at h \<and> queue_of h' = queue_of h"

lemma nodes_ok_mono:
  "nodes_ok lv h \<Longrightarrow> dom lv \<subseteq> dom lv' \<Longrightarrow> child_nodes h' = child_nodes h \<Longrightarrow> queue_of h' = queue_of h \<Longrightarrow> nodes_ok lv' h'"
  unfolding nodes_ok_def by (metis subset_trans)

lemma ready_mono:
  assumes "ready lv m h" "dom lv \<subseteq> dom lv'" "child_nodes h' = child_nodes h" "queue_of h' = queue_of h"
    "all_modules h' = all_modules h" "m_children (module_at h' m) = m_children (module_at h m)"
    "\<And>k. k \<in> set (all_modules h) \<Longrightarrow> is_output h' k = is_output h k"
  shows "ready lv' m h'"
proof -
  have "dom lv - set (child_nodes h) \<subseteq> dom lv' - set (child_nodes h)" using assms(2) by blast
  then show ?thesis using assms(1,7) unfolding ready_def assms(3-6) Let_def by (meson subset_trans)
qed

lemma distinct_between: "distinct (as @ cs) \<Longrightarrow> distinct bs \<Longrightarrow> set bs \<inter> set (as @ cs) = {} \<Longrightarrow> distinct (as @ bs @ cs)"
  by auto

lemma listed_graph:
  assumes l: "listed m h h'" and g: "graph_ok h" "nodes_ok lv h" and r: "ready lv m h"
  shows "graph_ok h' \<and> nodes_ok lv h'"
proof -
  from l obtain xs ys where x: "all_modules h = xs @ ys" "all_modules h' = xs @ m # ys"
    and s: "module_at h' = module_at h" "queue_of h' = queue_of h" by (auto simp: listed_def)
  let ?cs = "m_children (module_at h m)"
  have t: "is_output h' k = is_output h k" for k by (simp add: is_output_def s(1))
  have g': "graph_ok h'"
    using g(1) r unfolding graph_ok_def ready_def t x s(1) by (auto simp: Let_def)
  have c: "child_nodes h = concat (map (\<lambda>m. map fst (m_children (module_at h m))) (xs @ ys))"
    "child_nodes h' = concat (map (\<lambda>m. map fst (m_children (module_at h m))) (xs @ m # ys))"
    by (simp_all add: child_nodes_def x s(1))
  have set: "set (child_nodes h') = set (child_nodes h) \<union> fst ` set ?cs" unfolding c by auto
  have "distinct (map fst ?cs)" "fst ` set ?cs \<inter> set (child_nodes h) = {}" "distinct (child_nodes h)"
    using r g(2) by (auto simp: ready_def nodes_ok_def Let_def)
  then have "distinct (child_nodes h')" unfolding c map_append list.map concat_append concat.simps
    by (intro distinct_between) simp_all
  moreover have "fst ` set ?cs \<subseteq> dom lv" "owned (queue_of h i) \<inter> fst ` set ?cs = {}" for i
    using r by (auto simp: ready_def Let_def)
  ultimately have "nodes_ok lv h'"
    using g(2) unfolding nodes_ok_def set s(2) by (auto simp: Int_Un_distrib)
  with g' show ?thesis by blast
qed

locale plugin_library = tjost_env E contents cap rok live aok
  for E :: "('t, 'r) env" and contents cap rok live aok +
  fixes add :: "addr \<Rightarrow> ('t, 'r) host \<Rightarrow> (int \<times> ('t, 'r) host) option" and ty :: "32 word"
  assumes type: "ty \<in> {TJOST_MODULE_INPUT, TJOST_MODULE_OUTPUT, TJOST_MODULE_IN_OUT, TJOST_MODULE_UPLINK}"
    and add: "host_ok h \<Longrightarrow> add m h = Some (r, h') \<Longrightarrow>
      host_ok h' \<and> (used_inv h \<longrightarrow> used_inv h') \<and> queue_of h' = queue_of h \<and> live (tlsf h) \<subseteq>\<^sub>m live (tlsf h') \<and>
      modules h' = modules h \<and> uplinks h' = uplinks h \<and>
      module_at h' = (if r = 0 then (module_at h)(m := (module_at h m)\<lparr>m_type := ty\<rparr>) else module_at h)"
begin

lemma ready_new:
  assumes g: "graph_inv h" and m: "m \<notin> set (all_modules h)" "queue_of h (Some m) = []"
    and arg: "\<And>out. arg = Chained out \<Longrightarrow> out \<in> set (all_modules h)"
    and r: "(let h0 = upd_module m (\<lambda>M. new_module) h in
              case arg of
                Responder \<Rightarrow> Some (upd_module m (\<lambda>M. M\<lparr>has_lua_callback := True\<rparr>) h0)
              | Chained out \<Rightarrow> if is_output h0 out then add_child E m out h0 else Some h0
              | _ \<Rightarrow> Some h0) = Some h1"
  shows "graph_inv h1 \<and> ready (live (tlsf h1)) m h1 \<and> (used_inv h \<longrightarrow> used_inv h1) \<and> modules h1 = modules h \<and>
    uplinks h1 = uplinks h \<and> queue_of h1 = queue_of h \<and> m_type (module_at h1 m) = 0"
proof -
  let ?h0 = "upd_module m (\<lambda>M. new_module) h"
  have mq: "m_queue (module_at h m) = []" "m_queue new_module = []" using m(2) by (simp_all add: new_module_def)
  have q0: "queue_of ?h0 = queue_of h"
    by (simp add: queue_of_def upd_module_def mq fun_eq_iff split: option.splits)
  have a0: "all_modules ?h0 = all_modules h" by (simp add: all_modules_def upd_module_def)
  have out0: "is_output ?h0 k = is_output h k" if "k \<in> set (all_modules h)" for k
    using that m(1) by (auto simp: is_output_def upd_module_def)
  have at0: "module_at ?h0 k = module_at h k" if "k \<in> set (all_modules h)" for k
    using that m(1) by (auto simp: upd_module_def)
  have ch0: "m_children (module_at ?h0 m) = []" "m_type (module_at ?h0 m) = 0" by (simp_all add: new_module_def)
  have c0: "child_nodes ?h0 = child_nodes h"
    unfolding child_nodes_def a0 using at0 by (intro arg_cong [of _ _ concat] map_cong) auto
  have g0: "graph_inv ?h0"
    using g at0 out0 unfolding graph_ok_def nodes_ok_def a0 c0 q0 host_wf_def
    by (auto simp del: queue_of_simps module_at_upd)
  have fields: "modules ?h0 = modules h" "uplinks ?h0 = uplinks h" "used_inv ?h0 = used_inv h"
    by (simp_all add: upd_module_def used_exact_def)
  have r0: "ready (live (tlsf ?h0)) m ?h0" using m(1) ch0(1) by (simp add: ready_def a0 Let_def del: module_at_upd)
  have cb: "graph_inv h2 \<and> ready (live (tlsf h2)) m h2 \<and> used_inv h2 = used_inv h \<and> modules h2 = modules h \<and>
      uplinks h2 = uplinks h \<and> queue_of h2 = queue_of h \<and> m_type (module_at h2 m) = 0"
    if h2: "h2 = upd_module m (\<lambda>M. M\<lparr>has_lua_callback := True\<rparr>) ?h0" for h2
  proof -
    have q: "queue_of h2 = queue_of h" unfolding h2
      by (simp add: queue_of_def upd_module_def mq fun_eq_iff split: option.splits)
    have k: "m_children (module_at h2 k) = m_children (module_at ?h0 k)" "m_type (module_at h2 k) = m_type (module_at ?h0 k)" for k
      by (simp_all add: h2 upd_module_def)
    have al: "all_modules h2 = all_modules ?h0" "tlsf h2 = tlsf ?h0" "rb_msg h2 = rb_msg ?h0" "used h2 = used ?h0"
      by (simp_all add: h2 all_modules_def upd_module_def)
    have t: "is_output h2 k = is_output ?h0 k" for k by (simp add: is_output_def k(2))
    have c: "child_nodes h2 = child_nodes ?h0" by (simp only: child_nodes_def al k)
    have "modules h2 = modules h" "uplinks h2 = uplinks h" by (simp_all add: h2 upd_module_def)
    then show ?thesis
      using g0 r0 fields(3) ch0(2) q0
      unfolding graph_ok_def nodes_ok_def ready_def host_wf_def used_exact_def al t c k q by simp
  qed
  show ?thesis
  proof (cases "\<exists>out. arg = Chained out \<and> is_output ?h0 out")
    case True
    then obtain out where out: "arg = Chained out" "is_output ?h0 out" by blast
    with r have ac: "add_child E m out ?h0 = Some h1" by (simp add: Let_def)
    have o: "out \<in> set (all_modules ?h0)" using arg [OF out(1)] by (simp add: a0)
    note gc = add_child_graph [OF g0 o out(2) ac]
    from add_child_spec [OF _ ac] g0 obtain a s where a: "live (tlsf ?h0) a = None"
      "live (tlsf h1) = (live (tlsf ?h0))(a \<mapsto> s)" "queue_of h1 = queue_of ?h0" "modules h1 = modules ?h0" "uplinks h1 = uplinks ?h0"
      "module_at h1 = (module_at ?h0)(m := (module_at ?h0 m)\<lparr>m_children := m_children (module_at ?h0 m) @ [(a, out)]\<rparr>)"
      by blast
    have al: "all_modules h1 = all_modules h" using a(4,5) a0 by (simp add: all_modules_def)
    have "child_nodes h1 = child_nodes ?h0"
      unfolding child_nodes_def al a0 using m(1) a(6) by (intro arg_cong [of _ _ concat] map_cong) auto
    then have "a \<notin> set (child_nodes h1)" using g0 a(1) by (auto simp: nodes_ok_def)
    moreover have "a \<notin> owned (queue_of h1 i)" for i using node_fresh [OF _ a(1,3)] g0 by blast
    ultimately have "ready (live (tlsf h1)) m h1"
      using m(1) o out(2) a(2,6) ch0(1) al a0 by (auto simp: ready_def Let_def is_output_def simp del: module_at_upd)
    then show ?thesis using gc a(3-6) fields q0 ch0(2) by simp
  next
    case False
    then have "h1 = ?h0 \<or> h1 = upd_module m (\<lambda>M. M\<lparr>has_lua_callback := True\<rparr>) ?h0"
      using r by (auto simp: Let_def split: plugin_arg.splits if_splits)
    then show ?thesis using cb [OF refl] g0 r0 fields q0 ch0(2) by (elim disjE) simp_all
  qed
qed

lemma register_listed:
  assumes "register_module P m h = (h', err)" and t: "m_type (module_at h m) \<in> {TJOST_MODULE_INPUT, TJOST_MODULE_OUTPUT,
    TJOST_MODULE_IN_OUT, TJOST_MODULE_UPLINK}"
  shows "listed m h h' \<and> tlsf h' = tlsf h \<and> rb_msg h' = rb_msg h \<and> used h' = used h"
proof -
  from assms have "h' = h\<lparr>modules := modules h @ [m]\<rparr> \<or> h' = h\<lparr>uplinks := uplinks h @ [m]\<rparr>"
    by (auto simp: register_module_def Let_def split: if_splits)
  then show ?thesis
  proof
    assume h': "h' = h\<lparr>modules := modules h @ [m]\<rparr>"
    have "all_modules h' = modules h @ m # uplinks h" by (simp add: h' all_modules_def)
    moreover have "queue_of h' = queue_of h" by (simp add: h' queue_of_def fun_eq_iff split: option.splits)
    ultimately show ?thesis unfolding listed_def by (auto simp: h' all_modules_def)
  next
    assume h': "h' = h\<lparr>uplinks := uplinks h @ [m]\<rparr>"
    have "all_modules h' = (modules h @ uplinks h) @ m # []" by (simp add: h' all_modules_def)
    moreover have "queue_of h' = queue_of h" by (simp add: h' queue_of_def fun_eq_iff split: option.splits)
    moreover have "all_modules h = (modules h @ uplinks h) @ []" by (simp add: all_modules_def)
    ultimately have "listed m h h'" unfolding listed_def by (metis h' host.select_convs(14) host.surjective host.update_convs(13))
    then show ?thesis by (simp add: h')
  qed
qed

lemma plugin_keeps:
  assumes g: "graph_inv h" and m: "m \<notin> set (all_modules h)" "queue_of h (Some m) = []"
    and arg: "\<And>out. arg = Chained out \<Longrightarrow> out \<in> set (all_modules h)"
    and P: "lib_add P = Some add" and r: "lua_plugin E (Some P) arg m h = Some (res, h', err)"
  shows "graph_inv h' \<and> (used_inv h \<longrightarrow> used_inv h') \<and>
    (case res of None \<Rightarrow> all_modules h' = all_modules h
     | Some k \<Rightarrow> k = m \<and> set (all_modules h') = insert m (set (all_modules h)) \<and> m_type (module_at h' m) = ty)"
proof -
  from r P obtain h1 n h2 err' where h1: "(let h0 = upd_module m (\<lambda>M. new_module) h in
              case arg of
                Responder \<Rightarrow> Some (upd_module m (\<lambda>M. M\<lparr>has_lua_callback := True\<rparr>) h0)
              | Chained out \<Rightarrow> if is_output h0 out then add_child E m out h0 else Some h0
              | _ \<Rightarrow> Some h0) = Some h1"
    and h2: "add m h1 = Some (n, h2)" and h': "register_module P m h2 = (h', err')"
    and res: "res = (if n \<noteq> 0 then None else Some m)"
    by (auto simp: lua_plugin_def Let_def split: Option.bind_splits prod.splits)
  note s1 = ready_new [OF g m arg h1]
  have ok1: "host_ok h1" using s1 by blast
  note a = add [OF ok1 h2]
  have al: "all_modules h2 = all_modules h1" using a by (simp add: all_modules_def)
  have "live (tlsf h1) \<subseteq>\<^sub>m live (tlsf h2)" using a by blast
  then have dm: "dom (live (tlsf h1)) \<subseteq> dom (live (tlsf h2))" by (rule map_le_implies_dom_le)
  have ch: "m_children (module_at h2 k) = m_children (module_at h1 k)" for k using a by simp
  have c: "child_nodes h2 = child_nodes h1" by (simp only: child_nodes_def al ch)
  have q: "queue_of h2 = queue_of h1" using a by blast
  have n2: "nodes_ok (live (tlsf h2)) h2" using s1 by (intro nodes_ok_mono [OF _ dm c q]) blast
  have ne: "k \<noteq> m" if "k \<in> set (all_modules h1)" for k using that s1 by (auto simp: ready_def)
  have io: "is_output h2 k = is_output h1 k" if "k \<in> set (all_modules h1)" for k
    using ne [OF that] a by (simp add: is_output_def)
  have g2: "graph_ok h2" using s1 unfolding graph_ok_def al ch by (auto simp: io)
  have r2: "ready (live (tlsf h2)) m h2"
    using s1 by (intro ready_mono [OF _ dm c q al ch io]) blast
  have h2_ok: "host_ok h2" "used_inv h \<longrightarrow> used_inv h2" using s1 a by blast+
  show ?thesis
  proof (cases "n = 0")
    case True
    then have ty: "m_type (module_at h2 m) = ty" using a by simp
    then have l: "listed m h2 h'" "tlsf h' = tlsf h2" "rb_msg h' = rb_msg h2" "used h' = used h2"
      using register_listed [OF h'] type by simp_all
    have "graph_ok h' \<and> nodes_ok (live (tlsf h')) h'" unfolding l(2) by (rule listed_graph [OF l(1) g2 n2 r2])
    moreover have "host_ok h'" "used_inv h \<longrightarrow> used_inv h'"
      using h2_ok l by (simp_all add: host_wf_def used_exact_def listed_def)
    moreover have "set (all_modules h') = insert m (set (all_modules h))"
    proof -
      have "all_modules h2 = all_modules h" using al s1 by (simp add: all_modules_def)
      then obtain xs ys where "all_modules h = xs @ ys" "all_modules h' = xs @ m # ys"
        using l(1) unfolding listed_def by metis
      then show ?thesis by simp
    qed
    ultimately show ?thesis using res True ty l(1) by (simp add: listed_def)
  next
    case False
    then have "m_type (module_at h2 m) = 0" using a s1 by simp
    then have "h' = h2"
      using h' by (simp add: register_module_def Let_def TJOST_MODULE_INPUT_def TJOST_MODULE_OUTPUT_def
          TJOST_MODULE_IN_OUT_def TJOST_MODULE_UPLINK_def split: if_splits)
    then show ?thesis using res False h2_ok g2 n2 al s1 by (simp add: all_modules_def)
  qed
qed

end

context tjost_env
begin

lemma chain_keeps:
  assumes g: "graph_inv h" and o: "mod_out \<in> set (all_modules h)" and r: "lua_chain E mod_in mod_out h = Some (h', err)"
  shows "graph_inv h' \<and> (used_inv h \<longrightarrow> used_inv h') \<and>
    (if is_input h mod_in \<and> is_output h mod_out
     then err = [] \<and> map snd (m_children (module_at h' mod_in)) = map snd (m_children (module_at h mod_in)) @ [mod_out]
     else h' = h \<and> err \<noteq> [])"
proof (cases "is_input h mod_in \<and> is_output h mod_out")
  case True
  with r have a: "add_child E mod_in mod_out h = Some h'" "err = []" by (auto simp: lua_chain_def)
  have "host_ok h" using g by blast
  from add_child_graph [OF g o _ a(1)] add_child_spec [OF this a(1)] True a(2) show ?thesis by auto
next
  case False
  with r g show ?thesis by (auto simp: lua_chain_def)
qed

section \<open>Taking an instance down\<close>

lemma drop_of_nodes:
  assumes "nodes_ok (live (tlsf h)) h" "m \<in> set (all_modules h)"
  shows "drop_children m (m_children (module_at h m)) h"
proof -
  from assms(2) obtain xs ys where "all_modules h = xs @ m # ys" by (meson split_list)
  then obtain as bs where c: "child_nodes h = as @ map fst (m_children (module_at h m)) @ bs"
    by (simp add: child_nodes_def)
  then have s: "fst ` set (m_children (module_at h m)) \<subseteq> set (child_nodes h)" by auto
  have "distinct (map fst (m_children (module_at h m)))" using assms(1) c by (simp add: nodes_ok_def)
  moreover have "set (child_nodes h) \<subseteq> dom (live (tlsf h))" "owned (queue_of h i) \<inter> set (child_nodes h) = {}" for i
    using assms(1) by (simp_all add: nodes_ok_def)
  ultimately show ?thesis using s unfolding drop_children_def by blast
qed

text \<open>Every block the instance owns, its events and the nodes of its children list, is freed.\<close>

lemma gc_in_out_spec:
  assumes d: "del m h = Some h1" and g: "host_ok h1" "nodes_ok (live (tlsf h1)) h1" "m \<in> set (all_modules h1)"
    and r: "gc_in_out E del m h = Some h'"
  shows "host_ok h' \<and> (used_inv h1 \<longrightarrow> used_inv h') \<and> queue_of h' = (queue_of h1)(Some m := []) \<and>
    m_children (module_at h' m) = [] \<and> modules h' = remove1 m (modules h1) \<and> uplinks h' = uplinks h1 \<and>
    live (tlsf h') = (live (tlsf h1)) |` (- (owned (m_queue (module_at h1 m)) \<union> fst ` set (m_children (module_at h1 m))))"
proof -
  let ?h2 = "module_clear E m h1"
  let ?h3 = "?h2\<lparr>modules := remove1 m (modules ?h2)\<rparr>"
  let ?cs = "m_children (module_at h1 m)"
  note c = module_clear_spec [OF g(1), of m]
  note cf = configD [OF c(5)]
  have h': "h' = free_children E m (m_children (module_at ?h3 m)) ?h3" using r d by (simp add: gc_in_out_def Let_def)
  have "queue_of ?h3 = queue_of ?h2" by (simp add: queue_of_def fun_eq_iff split: option.splits)
  then have q3: "queue_of ?h3 = (queue_of h1)(Some m := [])" using c(2) by simp
  have ok3: "host_ok ?h3" "used_inv h1 \<longrightarrow> used_inv ?h3"
    using c(1,4) by (simp_all add: host_wf_def used_exact_def q3 c(2))
  have cs: "m_children (module_at ?h3 m) = ?cs" by (simp add: cf)
  have "drop_children m ?cs h1" by (rule drop_of_nodes [OF g(2,3)])
  then have dr: "distinct (map fst ?cs)" "fst ` set ?cs \<subseteq> dom (live (tlsf h1))"
      "owned (queue_of h1 i) \<inter> fst ` set ?cs = {}" for i
    unfolding drop_children_def by blast+
  have "fst ` set ?cs \<subseteq> dom (live (tlsf ?h3))" using dr(2) dr(3) [of "Some m"] c(3) by auto
  moreover have "owned (queue_of ?h3 i) \<inter> fst ` set ?cs = {}" for i using dr(3) [of i] unfolding q3 by simp
  ultimately have dc: "drop_children m ?cs ?h3" using dr(1) unfolding drop_children_def by blast
  from free_children_spec [OF ok3(1) cs dc] show ?thesis
    unfolding h' cs Let_def q3 using ok3(2) c(3) cf
    by (auto simp: restrict_map_def fun_eq_iff)
qed

end

section \<open>The libraries of the repository\<close>

text \<open>\<open>add\<close> as \<open>_plugin\<close> calls it: what it stored in \<open>module->dat\<close> is the module's own affair.\<close>

definition as_add :: "(addr \<Rightarrow> ('t, 'r) host \<Rightarrow> (int \<times> addr option \<times> ('t, 'r) host) option) \<Rightarrow>
  addr \<Rightarrow> ('t, 'r) host \<Rightarrow> (int \<times> ('t, 'r) host) option" where
  "as_add f m h = map_option (\<lambda>x. (fst x, snd (snd x))) (f m h)"

context tjost_env
begin

lemma module_add_library:
  assumes "ty \<in> {TJOST_MODULE_INPUT, TJOST_MODULE_OUTPUT, TJOST_MODULE_IN_OUT, TJOST_MODULE_UPLINK}"
  shows "plugin_library E contents cap rok live aok (as_add (module_add E name sz ss ty)) ty"
proof (intro plugin_library.intro plugin_library_axioms.intro)
  show "tjost_env E contents cap rok live aok" by (rule tjost_env_axioms)
  show "ty \<in> {TJOST_MODULE_INPUT, TJOST_MODULE_OUTPUT, TJOST_MODULE_IN_OUT, TJOST_MODULE_UPLINK}" by (rule assms)
  fix h m r h'
  assume ok: "host_ok h" and r: "as_add (module_add E name sz ss ty) m h = Some (r, h')"
  then obtain dat where r': "module_add E name sz ss ty m h = Some (r, dat, h')" by (auto simp: as_add_def)
  note s = module_add_spec [OF ok r']
  from r' obtain a h1 r1 h2 where al: "tjost_alloc E h sz = Some (Some a, h1)" and st: "add_steps E name ss h1 = Some (r1, h2)"
    and h': "(if r1 = 0 then Some (0, Some a, upd_module m (\<lambda>M. M\<lparr>m_type := ty\<rparr>) h2) else Some (r1, None, h2)) = Some (r, dat, h')"
    by (auto simp: module_add_def split: Option.bind_splits)
  have "mem_frame h1 h2"
    using add_steps_result [OF st] message_push_frame(1) [of E h1] by auto
  with alloc_frame [OF al] have f: "mem_frame h h2" by (rule mem_frame_trans)
  have "modules h' = modules h \<and> uplinks h' = uplinks h \<and>
      module_at h' = (if r = 0 then (module_at h)(m := (module_at h m)\<lparr>m_type := ty\<rparr>) else module_at h)"
    using h' mem_frameD(2-4) [OF f] by (auto simp: upd_module_def split: if_splits)
  moreover have "live (tlsf h) \<subseteq>\<^sub>m live (tlsf h')" using s by (auto simp: map_le_def)
  ultimately show "host_ok h' \<and> (used_inv h \<longrightarrow> used_inv h') \<and> queue_of h' = queue_of h \<and> live (tlsf h) \<subseteq>\<^sub>m live (tlsf h') \<and>
      modules h' = modules h \<and> uplinks h' = uplinks h \<and>
      module_at h' = (if r = 0 then (module_at h)(m := (module_at h m)\<lparr>m_type := ty\<rparr>) else module_at h)"
    using s by blast
qed

lemma loopback_library:
  "plugin_library E contents cap rok live aok
     (\<lambda>m h. Some (fst (loopback_add (module_at h m)), upd_module m (\<lambda>M. snd (loopback_add M)) h)) TJOST_MODULE_OUTPUT"
proof (intro plugin_library.intro plugin_library_axioms.intro)
  show "tjost_env E contents cap rok live aok" by (rule tjost_env_axioms)
  fix h :: "('t, 'r) host" and m r h'
  assume ok: "host_ok h"
    and r: "Some (fst (loopback_add (module_at h m)), upd_module m (\<lambda>M. snd (loopback_add M)) h) = Some (r, h')"
  then have h': "r = 0" "h' = upd_module m (\<lambda>M. M\<lparr>m_type := TJOST_MODULE_OUTPUT\<rparr>) h"
    by (simp_all add: loopback_add_def)
  show "host_ok h' \<and> (used_inv h \<longrightarrow> used_inv h') \<and> queue_of h' = queue_of h \<and> live (tlsf h) \<subseteq>\<^sub>m live (tlsf h') \<and>
      modules h' = modules h \<and> uplinks h' = uplinks h \<and>
      module_at h' = (if r = 0 then (module_at h)(m := (module_at h m)\<lparr>m_type := TJOST_MODULE_OUTPUT\<rparr>) else module_at h)"
    using ok unfolding h' host_wf_def used_exact_def set_type_keeps by (simp add: upd_module_def)
qed simp

end

lemma tlsf_tjost_env: "tjost_env tlsf_env circ_contents circ_cap circ_ok tlsf_live tlsf_wf"
  using core.tjost_env_axioms .

interpretation cv_in_lib: plugin_library tlsf_env circ_contents circ_cap circ_ok tlsf_live tlsf_wf
  "as_add (cv_in_add tlsf_env sz port pretty kind)" TJOST_MODULE_INPUT for sz port pretty kind
proof -
  have "cv_in_add tlsf_env sz port pretty kind = module_add tlsf_env ''cv_in'' sz
      [(port = 0, ''could not register jack port''), (pretty, ''could not set prettyname''),
       (kind, ''could not set CV event type'')] TJOST_MODULE_INPUT"
    by (rule ext)+ (simp add: cv_in_add_def)
  then show "plugin_library tlsf_env circ_contents circ_cap circ_ok tlsf_live tlsf_wf
      (as_add (cv_in_add tlsf_env sz port pretty kind)) TJOST_MODULE_INPUT"
    using tjost_env.module_add_library [OF tlsf_tjost_env] by simp
qed

interpretation loopback_lib: plugin_library tlsf_env circ_contents circ_cap circ_ok tlsf_live tlsf_wf
  "\<lambda>m h. Some (fst (loopback_add (module_at h m)), upd_module m (\<lambda>M. snd (loopback_add M)) h)" TJOST_MODULE_OUTPUT
  by (rule tjost_env.loopback_library [OF tlsf_tjost_env])

end
