(* ===== verification/Lua_Properties.thy ===== *)
theory Lua_Properties
  imports Module_Properties Lua_Graph
begin

text \<open>
  The properties of the Lua side: what scripts and responders exchange, the packets the bridge cannot
  take, the graph of modules and its objects.
\<close>

section \<open>The bridge\<close>

lemma script_wf:
  "script_ok Q n pk \<Longrightarrow> length (packet_bytes pk) < 2 ^ 31 \<Longrightarrow> packet_wf (osc_check_path Q) pk"
proof (induction pk arbitrary: n)
  case (Message p f as)
  then show ?case by (auto simp: list_all_iff lua_rep_valid)
next
  case (Bundle tt ps)
  have "packet_wf (osc_check_path Q) p \<and> length (packet_bytes p) < 2 ^ 31" if p: "p \<in> set ps" for p
  proof -
    from split_list [OF p] obtain xs ys where "ps = xs @ p # ys" by blast
    then have "length (packet_bytes p) < 2 ^ 31" using Bundle.prems(2) by simp
    moreover have "script_ok Q (n - 1) p" using Bundle.prems(1) p by (simp add: list_all_iff)
    ultimately show ?thesis using Bundle.IH [OF p] by blast
  qed
  then show ?case by (simp add: list_all_iff)
qed

text \<open>C32. From script to responder. A script that spells a packet, a message or bundles of messages
  nested up to two deep, leaves exactly one event with the bytes of that packet in the queue of the
  output it calls; and a module whose responder gets an event with these bytes calls it with the very
  calls the script made, in the same order and with the same values.\<close>
theorem lua_roundtrip:
  assumes "tjost_env E contents cap rok live aok" and "osc_lib Q" and "lua_api L" and "host_wf rok live aok h"
    and "m_bndls (module_at h m) = []" and "script_ok Q 2 pk" and "length (packet_bytes pk) \<le> TJOST_BUF_SIZE"
    and "stack_ok L pk" and "run_script Q L E m (packet_script t pk) h = Some (e, h')"
  shows "\<not> e \<and> preserves rok live aok h h' \<and> view h' = deliver (m, t, packet_bytes pk) (view h) \<and>
    (\<forall>resp a k t' h1. lua_deserialize_event Q L E resp (mk_event a (Some k) t' (packet_bytes pk)) h1 =
      respond_all E resp k (packet_script t' pk) h1)"
proof -
  have "\<not> e \<and> tjost_env.sends rok live aok m t (packet_bytes pk) h h'"
  proof (cases pk)
    case (Message p f as)
    show ?thesis using assms(6,7,9) unfolding Message
      by (rule tjost_env.run_message_top [OF assms(1-5)])
  next
    case (Bundle tt ps)
    show ?thesis using assms(6,7,9) unfolding Bundle
      by (rule tjost_env.run_bundle_top [OF assms(1-5)])
  qed
  moreover have "length (packet_bytes pk) < 2 ^ 31" using assms(7) by (simp add: TJOST_BUF_SIZE_def)
  then have "lua_calls Q L E resp k (osc_dispatch_method Q t' (packet_bytes pk) lua_methods) h1 =
      respond_all E resp k (packet_script t' pk) h1" for resp k t' h1
    by (rule respond_packet [OF assms(2) script_wf [OF assms(6)] assms(8)])
  ultimately show ?thesis
    by (simp add: tjost_env.sends_def [OF assms(1)] lua_deserialize_event_def)
qed

definition bundle1 :: osc_packet where
  "bundle1 = Bundle OSC_IMMEDIATE [Message ''/a'' ''i'' [Osc_Int32 7]]"

lemma bundle1_ok: "script_ok osc_ref 2 bundle1" "stack_ok lua_ref bundle1" "length (packet_bytes bundle1) = 32"
  "script_ok osc_ref 1 (Message ''/a'' ''i'' [Osc_Int32 7])"
  by (simp_all add: bundle1_def osc_ref_def fmt_fits_def no_data_def TJOST_BUNDLE_PUSH_PATH_def TJOST_BUNDLE_POP_PATH_def
      lua_ref_def osc_msg_def length_osc_str length_osc_tags)

lemma bundle1_runs: "\<exists>e h'. run_script osc_ref lua_ref ref_env 8 (packet_script 0 bundle1) host0 = Some (e, h')"
proof -
  have "\<exists>h1. serialize_push osc_ref ref_env 8 host0 = Some h1 \<and> written (module_at h1 8) = Some (bundle_header OSC_IMMEDIATE) \<and>
      m_bndls (module_at h1 8) = [(1, Some 0)] \<and> tlsf h1 = \<lparr>g_next = 33, g_room = 968, g_blocks = [(1, 32)]\<rparr>"
    by (simp add: serialize_push_def host0_def mod0_def ref_run sizeof_bundle_def osc_ref.start_bundle TJOST_BUF_SIZE_def)
  then obtain h1 where h1: "serialize_push osc_ref ref_env 8 host0 = Some h1"
      "written (module_at h1 8) = Some (bundle_header OSC_IMMEDIATE)" "m_bndls (module_at h1 8) = [(1, Some 0)]"
      "tlsf h1 = \<lparr>g_next = 33, g_room = 968, g_blocks = [(1, 32)]\<rparr>" by blast
  let ?msg = "osc_msg ''/a'' ''i'' [Osc_Int32 7]"
  let ?es = "osc_item ?msg"
  let ?h2 = "upd_module 8 (set_written (Some (bundle_header OSC_IMMEDIATE @ ?es))) h1"
  have len: "length ?msg = 12" by (simp add: osc_msg_def length_osc_str length_osc_tags)
  have c: "serialize_packet osc_ref lua_ref ref_env 8 (lua_call 0 ''/a'' ''i'' [Osc_Int32 7]) h1 = Some (False, ?h2)"
    by (rule serialize_message_nested [OF osc_ref.osc_lib_axioms lua_ref.lua_api_axioms bundle1_ok(4)])
      (simp_all add: h1 len TJOST_BUF_SIZE_def)
  have s: "bundle_state 8 (bundle_header OSC_IMMEDIATE @ ?es) [(1, Some 0)] ?h2"
    by (simp add: bundle_state_def h1)
  have e: "?es \<noteq> []" by (simp add: osc_item_def)
  have "\<exists>h3. tjost_module_schedule ref_env (upd_module 8 (\<lambda>M. M\<lparr>m_bndls := []\<rparr>) ?h2) 8 0 (bundle_header OSC_IMMEDIATE @ ?es) = Some h3"
    by (simp add: ref_run h1 len)
  then obtain h3 where "serialize_pop osc_ref ref_env 8 0 ?h2 = Some h3"
    using ref.serialize_pop_top [OF osc_ref.osc_lib_axioms s e, of 0] by auto
  then show ?thesis
    unfolding bundle1_def ref.run_bundle [OF lua_ref.lua_api_axioms] by (simp add: h1 c ex_bool_eq)
qed

theorem lua_roundtrip_witness:
  "\<exists>h'. view h' = deliver (8, 0, packet_bytes bundle1) (view host0) \<and>
    run_script osc_ref lua_ref ref_env 8 (packet_script 0 bundle1) host0 = Some (False, h')"
proof -
  from bundle1_runs obtain e h' where r: "run_script osc_ref lua_ref ref_env 8 (packet_script 0 bundle1) host0 = Some (e, h')"
    by blast
  have "m_bndls (module_at host0 8) = []" "length (packet_bytes bundle1) \<le> TJOST_BUF_SIZE"
    by (simp add: host0_def mod0_def, simp add: bundle1_ok TJOST_BUF_SIZE_def)
  from lua_roundtrip [OF ref.tjost_env_axioms osc_ref.osc_lib_axioms lua_ref.lua_api_axioms host0_ok(1) this(1)
      bundle1_ok(1) this(2) bundle1_ok(2) r] r
  show ?thesis by auto
qed

section \<open>What the bridge cannot take\<close>

lemma lua_faults:
  assumes "osc_lib Q" and "lua_api L"
  shows "m_bndls (module_at h m) = [] \<Longrightarrow> script_ok Q n (Message p f as) \<Longrightarrow> TJOST_BUF_SIZE < length (osc_msg p f as) \<Longrightarrow>
      serialize_packet Q L E m (lua_call t p f as) h = Some (False, upd_module m (set_written None) h)"
    and "m_bndls (module_at h m) = [] \<Longrightarrow> serialize_packet Q L E m (lua_call t TJOST_BUNDLE_POP_PATH [] []) h = None"
    and "m_bndls (module_at h m) = [node] \<Longrightarrow> written (module_at h m) = None \<Longrightarrow>
      serialize_packet Q L E m (lua_call t TJOST_BUNDLE_POP_PATH [] []) h = None"
    and "bundle_state m (b @ g @ bundle_header tt @ osc_item x) ((a, Some (length (b @ g))) # bs) h \<Longrightarrow> bs \<noteq> [] \<Longrightarrow>
      x \<noteq> [] \<Longrightarrow> m_itm (module_at h m) = Some (length (b @ g @ bundle_header tt)) \<Longrightarrow>
      serialize_packet Q L E m (lua_call t TJOST_BUNDLE_POP_PATH [] []) h =
        Some (False, upd_module m (set_written (Some (b @ g @ bundle_header tt @ osc_item x)))
          (tjost_free E (upd_module m (\<lambda>M. M\<lparr>m_bndls := bs\<rparr>) h) (Some a)))"
proof -
  have pop: "serialize_packet Q L E m (lua_call t TJOST_BUNDLE_POP_PATH [] []) h =
      do { h1 \<leftarrow> serialize_pop Q E m t h; Some (False, h1) }"
    using path_no_nul by (simp add: serialize_packet_call [OF assms(2)])
  show "m_bndls (module_at h m) = [] \<Longrightarrow> script_ok Q n (Message p f as) \<Longrightarrow> TJOST_BUF_SIZE < length (osc_msg p f as) \<Longrightarrow>
      serialize_packet Q L E m (lua_call t p f as) h = Some (False, upd_module m (set_written None) h)"
    by (simp add: serialize_message_top [OF assms] not_le del: script_ok.simps)
  show "m_bndls (module_at h m) = [] \<Longrightarrow> serialize_packet Q L E m (lua_call t TJOST_BUNDLE_POP_PATH [] []) h = None"
    unfolding pop by (simp add: serialize_pop_def)
  show "m_bndls (module_at h m) = [node] \<Longrightarrow> written (module_at h m) = None \<Longrightarrow>
      serialize_packet Q L E m (lua_call t TJOST_BUNDLE_POP_PATH [] []) h = None"
    unfolding pop by (cases node) (simp add: serialize_pop_def osc_lib.end_bundle_NULL [OF assms(1)])
  assume s: "bundle_state m (b @ g @ bundle_header tt @ osc_item x) ((a, Some (length (b @ g))) # bs) h" and bs: "bs \<noteq> []"
    and x: "x \<noteq> []" and i: "m_itm (module_at h m) = Some (length (b @ g @ bundle_header tt))"
  have ne: "osc_item x \<noteq> []" using x by (simp add: osc_item_def)
  have e1: "osc_end_bundle Q TJOST_BUF_SIZE (Some ((b @ g) @ bundle_header tt @ osc_item x)) (Some (length (b @ g))) =
      Some ((b @ g) @ bundle_header tt @ osc_item x)"
    by (rule osc_lib.end_bundle [OF assms(1) ne])
  have e2: "osc_end_bundle_item Q TJOST_BUF_SIZE (Some ((b @ g @ bundle_header tt) @ enc_be 4 (length x) @ x))
      (Some (length (b @ g @ bundle_header tt))) = Some ((b @ g @ bundle_header tt) @ osc_item x)"
    by (rule osc_lib.end_item [OF assms(1) length_enc_be x])
  show "serialize_packet Q L E m (lua_call t TJOST_BUNDLE_POP_PATH [] []) h =
        Some (False, upd_module m (set_written (Some (b @ g @ bundle_header tt @ osc_item x)))
          (tjost_free E (upd_module m (\<lambda>M. M\<lparr>m_bndls := bs\<rparr>) h) (Some a)))"
    unfolding pop using s bs i e1 e2 by (simp add: serialize_pop_def bundle_state_def osc_item_def)
qed

text \<open>C36. Packets the bridge mishandles. A message that does not fit into the buffer is dropped without
  a word. Closing a bundle that was never opened, or the outermost bundle after the buffer ran over,
  dereferences NULL. Closing the second of three nested bundles writes the size of the innermost item
  once more, where it already stands: the size of the item that was to be closed, the bytes \<open>g\<close>, is
  never written.\<close>
theorem lua_packet_faults:
  assumes "osc_lib Q" and "lua_api L"
  shows "(m_bndls (module_at h m) = [] \<and> script_ok Q n (Message p f as) \<and> TJOST_BUF_SIZE < length (osc_msg p f as) \<longrightarrow>
      serialize_packet Q L E m (lua_call t p f as) h = Some (False, upd_module m (set_written None) h)) \<and>
    (m_bndls (module_at h m) = [] \<longrightarrow> serialize_packet Q L E m (lua_call t TJOST_BUNDLE_POP_PATH [] []) h = None) \<and>
    (m_bndls (module_at h m) = [node] \<and> written (module_at h m) = None \<longrightarrow>
      serialize_packet Q L E m (lua_call t TJOST_BUNDLE_POP_PATH [] []) h = None) \<and>
    (bundle_state m (b @ g @ bundle_header tt @ osc_item x) ((a, Some (length (b @ g))) # bs) h \<and> bs \<noteq> [] \<and>
      x \<noteq> [] \<and> m_itm (module_at h m) = Some (length (b @ g @ bundle_header tt)) \<longrightarrow>
      serialize_packet Q L E m (lua_call t TJOST_BUNDLE_POP_PATH [] []) h =
        Some (False, upd_module m (set_written (Some (b @ g @ bundle_header tt @ osc_item x)))
          (tjost_free E (upd_module m (\<lambda>M. M\<lparr>m_bndls := bs\<rparr>) h) (Some a))))"
  using lua_faults [OF assms, where E = E and h = h and m = m] by blast

definition host_open :: "(region, circ) host" where
  "host_open = upd_module 8 (\<lambda>M. set_written (Some (bundle_header 1 @ [0, 0, 0, 0] @ bundle_header 1 @ osc_item [1]))
     (M\<lparr>m_bndls := [(2, Some 20), (1, Some 0)], m_itm := Some 36\<rparr>)) host0"

theorem lua_packet_faults_witness:
  "serialize_packet osc_ref lua_ref ref_env 8 (lua_call 0 TJOST_BUNDLE_POP_PATH [] []) host0 = None \<and>
   (\<exists>h'. serialize_packet osc_ref lua_ref ref_env 8 (lua_call 0 TJOST_BUNDLE_POP_PATH [] []) host_open = Some (False, h') \<and>
     written (module_at h' 8) = Some (bundle_header 1 @ [0, 0, 0, 0] @ bundle_header 1 @ osc_item [1]))"
proof -
  have s: "bundle_state 8 (bundle_header 1 @ [0, 0, 0, 0] @ bundle_header 1 @ osc_item [1])
      [(2, Some (length (bundle_header 1 @ [0, 0, 0, 0]))), (1, Some 0)] host_open"
    "m_itm (module_at host_open 8) = Some (length (bundle_header 1 @ [0, 0, 0, 0] @ bundle_header 1))"
    by (simp_all add: bundle_state_def host_open_def)
  have "m_bndls (module_at host0 8) = []" by (simp add: host0_def mod0_def)
  with lua_packet_faults [OF osc_ref.osc_lib_axioms lua_ref.lua_api_axioms, where h = host0 and m = 8 and E = ref_env and t = 0]
  have a: "serialize_packet osc_ref lua_ref ref_env 8 (lua_call 0 TJOST_BUNDLE_POP_PATH [] []) host0 = None" by blast
  from lua_packet_faults [OF osc_ref.osc_lib_axioms lua_ref.lua_api_axioms, where h = host_open and m = 8 and E = ref_env and t = 0
      and b = "bundle_header 1" and g = "[0, 0, 0, 0]" and x = "[1]" and bs = "[(1, Some 0)]" and a = 2 and tt = 1] s
  show ?thesis using a by (simp add: tjost_free_def)
qed

section \<open>The graph of modules\<close>








text \<open>An output that is finalized while it is still the child of another module. Nothing takes it off
  that module's children: the graph is no longer well typed, and the main loop goes on to schedule
  every event of the parent to the address of the dead instance.\<close>
theorem lua_gc_dangles:
  assumes "graph_ok h" and "k \<in> set (all_modules h)" and "(a, m) \<in> set (m_children (module_at h k))" and "k \<noteq> m"
    and "m \<in> set (modules h)" and "gc_output E (\<lambda>m h. Some h) m h = Some h'"
  shows "\<not> graph_ok h' \<and> m \<notin> set (all_modules h') \<and>
    (m, ev_time e, ev_buf e) \<in> set (module_deliveries (module_at h') lact e k)"
proof -
  let ?h2 = "module_clear E m h"
  have "modules (clear_events E i q h) = modules h \<and> uplinks (clear_events E i q h) = uplinks h \<and>
      (\<forall>k. m_children (module_at (clear_events E i q h) k) = m_children (module_at h k))" for i q
    by (induction q arbitrary: h) (simp_all add: tjost_free_def dequeue_def upd_module_def split: option.split)
  then have c: "modules ?h2 = modules h" "uplinks ?h2 = uplinks h"
    "m_children (module_at ?h2 k) = m_children (module_at h k)" for k
    by (simp_all add: module_clear_def)
  have h': "h' = ?h2\<lparr>modules := remove1 m (modules ?h2)\<rparr>" using assms(6) by (simp add: gc_output_def Let_def)
  have d: "distinct (modules h @ uplinks h)" using assms(1) by (simp add: graph_ok_def all_modules_def)
  have gone: "m \<notin> set (all_modules h')" using d assms(5) c by (auto simp: h' all_modules_def)
  have kin: "k \<in> set (all_modules h')" using assms(2,4) c by (auto simp: h' all_modules_def)
  have ch: "(a, m) \<in> set (m_children (module_at h' k))" using assms(3) c by (simp add: h')
  have "\<not> graph_ok h'" using gone kin ch unfolding graph_ok_def by force
  then show ?thesis using gone ch by (force simp: module_deliveries_def)
qed

definition host_chained :: "(region, circ) host" where
  "host_chained = host0\<lparr>modules := [8, 9]\<rparr>"

theorem lua_gc_dangles_witness:
  "\<exists>h'. gc_output ref_env (\<lambda>m h. Some h) 8 host_chained = Some h' \<and> \<not> graph_ok h' \<and>
     (8, 5, [1]) \<in> set (module_deliveries (module_at h') (\<lambda>m t b. []) (mk_event 1 None 5 [1]) 9)"
proof -
  have g: "graph_ok host_chained" "(9 :: addr) \<in> set (all_modules host_chained)"
    "(1, 8) \<in> set (m_children (module_at host_chained 9))" "(8 :: addr) \<in> set (modules host_chained)"
    by (simp_all add: host_chained_def graph_ok_def all_modules_def host0_def mod0_def is_output_def TJOST_MODULE_OUTPUT_def)
  obtain h' where r: "gc_output ref_env (\<lambda>m h. Some h) 8 host_chained = Some h'" by (simp add: gc_output_def Let_def)
  from lua_gc_dangles [OF g(1,2,3) _ g(4) r, of "mk_event 1 None 5 [1]" "\<lambda>m t b. []"] r show ?thesis by simp
qed

section \<open>Blobs\<close>

text \<open>The bounds of a blob. An index of 32 bits reads or writes exactly the byte it names when it lies
  inside, else reading answers nil and writing does nothing; no other byte changes. An index of more
  than 32 bits is cut down first, so \<open>2 ^ 32\<close> names the first byte. A blob of negative size is refused
  by Lua except for the sizes -4 to -1, which make a block too small for its own header.\<close>
theorem lua_blob_bounds:
  assumes "lua_api L" and "length b < 2 ^ 31" and "- (2 ^ 31) \<le> i" and "i < 2 ^ 31" and "\<bar>v\<bar> < 2 ^ 53"
  shows "index_blob L (Lua_Blob b) (lua_int i) =
      Some (if 0 \<le> i \<and> i < int (length b) then lua_int (uint (b ! nat i)) else Lua_Nil) \<and>
    newindex_blob L (Lua_Blob b) (lua_int i) (lua_int v) =
      Some (Lua_Blob (if 0 \<le> i \<and> i < int (length b) then b[nat i := of_int v] else b)) \<and>
    (0 < length b \<longrightarrow> index_blob L (Lua_Blob b) (lua_int (2 ^ 32)) = Some (lua_int (uint (b ! 0)))) \<and>
    lua_blob L (lua_int i) = (if 0 \<le> i then Some (Some (Lua_Blob (replicate (nat i) 0)))
      else if - 4 \<le> i then None else Some None)"
proof -
  have ci: "luaL_checkint L (lua_int k) = Some (of_int k)" if "\<bar>k\<bar> < 2 ^ 53" for k
    using lua_api.checkinteger [OF assms(1) that] by (simp add: luaL_checkint_def)
  have si: "sint (word_of_int i :: 32 word) = i" using assms(3,4) by (simp add: signed_of_int signed_take_bit_int_eq_self)
  have ui: "unat (word_of_int i :: 32 word) = nat i" if "0 \<le> i"
    using that assms(4) by (simp add: unsigned_of_int take_bit_int_eq_self)
  have b: "\<bar>i\<bar> < 2 ^ 53" "\<bar>2 ^ 32 :: int\<bar> < 2 ^ 53" using assms(3,4) by simp_all
  have w: "ucast (word_of_int v :: 32 word) = (word_of_int v :: byte)"
    by (rule bit_word_eqI) (simp add: bit_ucast_iff bit_word_of_int_iff)
  have z: "luaL_checkint L (lua_int 4294967296) = Some 0" using ci [OF b(2)] by simp
  show ?thesis
    using ui by (auto simp: index_bytes_def newindex_bytes_def ci [OF b(1)] ci [OF assms(5)] z w si lua_blob_def)
qed

theorem lua_blob_bounds_witness:
  "index_blob lua_ref (Lua_Blob [1, 2]) (lua_int 1) = Some (lua_int 2) \<and>
   newindex_blob lua_ref (Lua_Blob [1, 2]) (lua_int 1) (lua_int 7) = Some (Lua_Blob [1, 7]) \<and>
   lua_blob lua_ref (lua_int (- 1)) = None"
  using lua_blob_bounds [OF lua_ref.lua_api_axioms, of "[1, 2]" 1 7] lua_blob_bounds [OF lua_ref.lua_api_axioms, of "[]" "- 1" 0]
  by simp

end
