(* ===== verification/Tlsf_Pools.thy ===== *)
theory Tlsf_Pools
  imports Tlsf_Correct
begin

text \<open>
  Taking pools away again (\<open>tlsf_remove_pool\<close>): a pool whose blocks are all free is a single free block
  before its end mark, and removing it passes the assertions and leaves a well-formed heap without it.
\<close>

lemma layout_remove:
  assumes l: "layout S z fr pf pr" and b: "b \<in> S" "z b \<noteq> 0" "\<forall>p\<in>S. z p \<noteq> 0 \<longrightarrow> p + 8 + z p \<noteq> b"
    and n: "z (b + 8 + z b) = 0"
  shows "layout (S - {b, b + 8 + z b}) z fr pf pr"
proof (rule layoutI)
  note D = layoutD [OF l]
  let ?n = "b + 8 + z b"
  show "finite (S - {b, ?n})" using layout_finite [OF l] by simp
  fix c assume c: "c \<in> S - {b, ?n}"
  then have cS: "c \<in> S" "c \<noteq> b" by auto
  show "0 < c \<and> 8 dvd c \<and> c + 16 + z c \<le> 2 ^ 32 \<and> (z c = 0 \<longrightarrow> \<not> fr c)" using D(1-4) [OF cS(1)] by simp
  show "24 \<le> z c \<and> 8 dvd z c \<and> c + 8 + z c \<in> S - {b, ?n} \<and> pf (c + 8 + z c) = fr c \<and>
      (fr c \<longrightarrow> pr (c + 8 + z c) = c)" if "z c \<noteq> 0"
    using D(5-9) [OF cS(1) that] b(3) cS that next_inj [OF l cS(1) b(1)] by auto
  show "\<exists>p\<in>S - {b, ?n}. z p \<noteq> 0 \<and> p + 8 + z p = c" if "pf c"
    using D(10) [OF cS(1) that] c n by auto
  show "c + 8 + z c \<le> d" if "d \<in> S - {b, ?n}" "c < d" for d using D(11) [OF cS(1)] that by simp
qed

lemma remove_pool_heap:
  assumes h: "heap t S z fr pf {}" and co: "coalesced S fr pf" and b: "b \<in> tlsf_pools t" "fr b" "z (b + 8 + z b) = 0"
  shows "\<exists>t'. tlsf_remove_pool (b + 8) t = Some t' \<and> heap t' (S - {b, b + 8 + z b}) z fr pf {} \<and>
    coalesced (S - {b, b + 8 + z b}) fr pf"
proof -
  let ?n = "b + 8 + z b"
  have bS: "b \<in> S" "z b \<noteq> 0" "\<forall>p\<in>S. z p \<noteq> 0 \<longrightarrow> p + 8 + z p \<noteq> b"
    using b(1) by (auto simp: tlsf_pools_heap [OF h] firsts_def)
  note l = layoutD [OF heapD(5) [OF h] bS(1)]
  have nS: "?n \<in> S" using l(7) bS(2) by blast
  have nf: "\<not> fr ?n" using layoutD(4) [OF heapD(5) [OF h] nS] b(3) by blast
  have "b + 16 \<le> 2 ^ 32" using l(3) by simp
  then have o: "offset_to_block (b + 8) (- block_header_overhead) = b"
    by (simp add: offset_to_block_def block_header_overhead_def unat_of_nat)
  have "block_size t ?n = 0" using heapD(2) [OF h nS] b(3) by (simp add: unat_eq_0)
  moreover obtain F where F: "index_ok t F" "indexed S z fr F {}" using h by (rule heap_index)
  obtain fl sl where c: "mapping_insert (of_nat (z b)) = (fl, sl)" by fastforce
  note r = class_range [OF h bS(1) c]
  have "b \<in> set (F fl sl)" using F(2) r bS(1) b(2) c by (simp add: indexed_def)
  from remove_heap_at [OF h F r this] obtain t1 where t1: "remove_free_block b fl sl t = Some t1" "heap t1 S z fr pf {b}"
    by auto
  ultimately have "tlsf_remove_pool (b + 8) t = Some (t1\<lparr>blks := blks t1 - {b, ?n}\<rparr>)"
    using o heapD(3) [OF h bS(1)] heapD(3) [OF h nS] b(2) nf block_next_heap [OF h bS(1,2)] c size_word [OF h bS(1)]
    by (simp add: tlsf_remove_pool_def tlsf_assert_def)
  moreover have "heap (t1\<lparr>blks := blks t1 - {b, ?n}\<rparr>) (S - {b, ?n}) z fr pf {}"
  proof (rule heap_step [OF t1(2)])
    show "layout (S - {b, ?n}) z fr pf (pp (t1\<lparr>blks := blks t1 - {b, ?n}\<rparr>))"
      using layout_remove [OF heapD(5) [OF t1(2)] bS b(3)] by simp
    show "outside (block_null t1) (S - {b, ?n}) z" using heapD(7) [OF t1(2)] by (simp add: outside_def)
  qed (use heapD(1-4) [OF t1(2)] nf in auto)
  moreover have "coalesced (S - {b, ?n}) fr pf" using co by (auto simp: coalesced_def)
  ultimately show ?thesis by blast
qed

text \<open>When no block is in use every free block is the first of its pool.\<close>

lemma unused_first:
  assumes "tlsf_wf t" and "tlsf_used t = Map.empty"
  shows "b \<in> tlsf_pools t \<longleftrightarrow> b \<in> dom (tlsf_free_blocks t)"
proof -
  obtain S z fr pf where h: "heap t S z fr pf {}" "coalesced S fr pf" using assms(1) by (auto simp: tlsf_wf_def)
  have u: "fr x" if "x \<in> S" "z x \<noteq> 0" for x
    using assms(2) that by (auto simp: tlsf_used_heap [OF h(1)] used_blocks_def fun_eq_iff split: if_splits)
  note l = layoutD [OF heapD(5) [OF h(1)]]
  have "p + 8 + z p \<noteq> b" if "b \<in> S" "fr b" "p \<in> S" "z p \<noteq> 0" for p
    using l(8) [OF that(3,4)] u [OF that(3,4)] h(2) that(1,2) by (auto simp: coalesced_def)
  then show ?thesis
    using u l(4) heapD(1,3) [OF h(1)]
    by (fastforce simp: tlsf_pools_heap [OF h(1)] firsts_def tlsf_free_blocks_def split: if_splits)
qed

lemma remove_pool_unused:
  assumes wf: "tlsf_wf t" and u: "tlsf_used t = Map.empty" and b: "b \<in> dom (tlsf_free_blocks t)"
  shows "\<exists>t'. tlsf_remove_pool (b + 8) t = Some t' \<and> tlsf_wf t' \<and> tlsf_used t' = Map.empty \<and>
    tlsf_free_blocks t' = (tlsf_free_blocks t)(b := None)"
proof -
  obtain S z fr pf where h: "heap t S z fr pf {}" "coalesced S fr pf" using wf by (auto simp: tlsf_wf_def)
  have f: "b \<in> tlsf_pools t" using unused_first [OF wf u] b by blast
  obtain s where "tlsf_free_blocks t b = Some s" using b by blast
  then have bS: "b \<in> S" "fr b" unfolding tlsf_free_blocks_heap [OF h(1)] by auto
  note l = layoutD [OF heapD(5) [OF h(1)]]
  have zb: "z b \<noteq> 0" using l(4) [OF bS(1)] bS(2) by blast
  let ?n = "b + 8 + z b"
  have n: "?n \<in> S" "pf ?n" using l(7,8) [OF bS(1) zb] bS(2) by blast+
  then have "\<not> fr ?n" using h(2) by (auto simp: coalesced_def)
  then have "z ?n = 0"
    using u n(1) by (auto simp: tlsf_used_heap [OF h(1)] used_blocks_def fun_eq_iff split: if_splits)
  from remove_pool_heap [OF h f bS(2) this] obtain t' where t': "tlsf_remove_pool (b + 8) t = Some t'"
    "heap t' (S - {b, ?n}) z fr pf {}" "coalesced (S - {b, ?n}) fr pf" by blast
  have "tlsf_used t' = Map.empty"
    using u by (auto simp: tlsf_used_heap [OF h(1)] tlsf_used_heap [OF t'(2)] used_blocks_def fun_eq_iff split: if_splits)
  moreover have "tlsf_free_blocks t' x = Some s \<longleftrightarrow> ((tlsf_free_blocks t)(b := None)) x = Some s" for x s
    unfolding fun_upd_apply tlsf_free_blocks_heap [OF t'(2)]
    using tlsf_free_blocks_heap [OF h(1), of x s] \<open>\<not> fr ?n\<close> by auto
  then have "tlsf_free_blocks t' = (tlsf_free_blocks t)(b := None)" by (metis not_Some_eq ext)
  ultimately show ?thesis using t'(1) tlsf_wfI [OF t'(2,3)] by blast
qed

end
