(* ===== verification/Nsm.thy ===== *)
theory Nsm
  imports Osc
begin

text \<open>
  The client of the session manager (\<open>tjost_nsm.c\<close>): it announces the program to the server named by
  \<open>NSM_URL\<close>, answers its messages, and holds start-up until the server sends an identity. The OSC stream
  is outside: it hands over packets in rounds of the event loop, and takes what is sent.
\<close>

section \<open>State\<close>

text \<open>
  The static \<open>_nsm\<close> (strings are pointers that may be NULL), the number of blocks \<open>strdup\<close> has allocated
  and nobody has freed, whether \<open>id\<close> and \<open>call\<close> point to freed memory, and what was sent and printed.
\<close>

record nsm =
  nsm_url :: "string option"
  nsm_id :: "string option"
  nsm_call :: "string option"
  nsm_responder :: bool
  nsm_blocks :: nat
  nsm_freed :: bool
  nsm_sent :: "byte list list"
  nsm_err :: "string list"

definition nsm0 :: nsm where
  "nsm0 = \<lparr>nsm_url = None, nsm_id = None, nsm_call = None, nsm_responder = False, nsm_blocks = 0,
     nsm_freed = False, nsm_sent = [], nsm_err = []\<rparr>"

text \<open>
  The outside: the environment variable, the answer of \<open>osc_stream_init\<close>, the process number, and the
  packets of every round of the event loop while the program waits; behind the last round nothing comes.
\<close>

record session =
  ns_url :: "string option"
  ns_init :: int
  ns_pid :: "32 word"
  ns_rounds :: "byte list list list"

section \<open>Handlers\<close>

definition osc_get_int32 :: "osc_ops \<Rightarrow> byte list \<Rightarrow> 32 word \<times> byte list" where
  "osc_get_int32 Q bs = (case osc_get_arg Q (CHR ''i'') bs of (Osc_Int32 w, rest) \<Rightarrow> (w, rest) | (_, rest) \<Rightarrow> (0, rest))"

text \<open>
  Writing a message and sending it: where it does not fit, the pointer is NULL and its distance from the
  buffer, which is no length at all, is handed to \<open>osc_stream_send\<close>.
\<close>

definition nsm_send :: "osc_ops \<Rightarrow> string \<Rightarrow> string \<Rightarrow> osc_arg list \<Rightarrow> nsm \<Rightarrow> nsm option" where
  "nsm_send Q path fmt args s =
     do { buf \<leftarrow> osc_set_vararg Q TJOST_BUF_SIZE path fmt args; Some (s\<lparr>nsm_sent := nsm_sent s @ [buf]\<rparr>) }"

text \<open>\<open>_nsm_reply\<close> compares the first string and does nothing with the result.\<close>

definition nsm_reply :: "osc_ops \<Rightarrow> byte list \<Rightarrow> nsm \<Rightarrow> nsm option" where
  "nsm_reply Q buf s = (if fst (osc_get_string Q buf) = ''/nsm/server/announce'' then Some s else Some s)"

definition nsm_error :: "osc_ops \<Rightarrow> byte list \<Rightarrow> nsm \<Rightarrow> nsm option" where
  "nsm_error Q buf s =
     (let (msg, p1) = osc_get_string Q buf; (code, p2) = osc_get_int32 Q p1; (err, p3) = osc_get_string Q p2
      in Some (s\<lparr>nsm_err := nsm_err s @ [''tjost_nsm: #'' @ show_int (sint code) @ '' in '' @ msg @ '': '' @ err]\<rparr>))"

text \<open>The third argument is the identity; the block of an earlier one is not freed.\<close>

definition nsm_client_open :: "osc_ops \<Rightarrow> byte list \<Rightarrow> nsm \<Rightarrow> nsm option" where
  "nsm_client_open Q buf s =
     (let (dir, p1) = osc_get_string Q buf; (name, p2) = osc_get_string Q p1; (ident, p3) = osc_get_string Q p2
      in nsm_send Q ''/reply'' ''ss'' [Osc_String ''/nsm/client/open'', Osc_String ''opened'']
           (s\<lparr>nsm_id := Some ident, nsm_blocks := nsm_blocks s + 1\<rparr>))"

definition nsm_client_save :: "osc_ops \<Rightarrow> nsm \<Rightarrow> nsm option" where
  "nsm_client_save Q s = nsm_send Q ''/reply'' ''ss'' [Osc_String ''/nsm/client/save'', Osc_String ''saved''] s"

definition nsm_resolve :: "osc_ops \<Rightarrow> 32 word \<Rightarrow> nsm \<Rightarrow> nsm option" where
  "nsm_resolve Q pid s =
     do { call \<leftarrow> nsm_call s;
          nsm_send Q ''/nsm/server/announce'' ''sssiii''
            [Osc_String call, Osc_String '':message:'', Osc_String call, Osc_Int32 1, Osc_Int32 2, Osc_Int32 pid] s }"

definition nsm_methods :: "(string option \<times> string option) list" where
  "nsm_methods =
     [(Some ''/net/resolve'', Some []), (Some ''/reply'', None), (Some ''/error'', Some ''sis''),
      (Some ''/nsm/client/open'', Some ''sss''), (Some ''/nsm/client/save'', Some [])]"

definition nsm_method :: "osc_ops \<Rightarrow> 32 word \<Rightarrow> nat \<Rightarrow> byte list \<Rightarrow> nsm \<Rightarrow> nsm option" where
  "nsm_method Q pid k buf s =
     (if k = 0 then nsm_resolve Q pid s else if k = 1 then nsm_reply Q buf s else if k = 2 then nsm_error Q buf s
      else if k = 3 then nsm_client_open Q buf s else nsm_client_save Q s)"

fun nsm_dispatch :: "osc_ops \<Rightarrow> 32 word \<Rightarrow> osc_call list \<Rightarrow> nsm \<Rightarrow> nsm option" where
  "nsm_dispatch Q pid [] s = Some s"
| "nsm_dispatch Q pid (Call t k path fmt buf # cs) s =
     do { s1 \<leftarrow> nsm_method Q pid k buf s; nsm_dispatch Q pid cs s1 }"
| "nsm_dispatch Q pid (c # cs) s = nsm_dispatch Q pid cs s"

definition nsm_recv_cb :: "osc_ops \<Rightarrow> 32 word \<Rightarrow> byte list \<Rightarrow> nsm \<Rightarrow> nsm option" where
  "nsm_recv_cb Q pid buf s =
     (if osc_check_packet Q buf then nsm_dispatch Q pid (osc_dispatch_method Q 0 buf nsm_methods) s else Some s)"

section \<open>Joining and leaving\<close>

text \<open>One run of the event loop hands over all packets that have come.\<close>

fun nsm_round :: "osc_ops \<Rightarrow> 32 word \<Rightarrow> byte list list \<Rightarrow> nsm \<Rightarrow> nsm option" where
  "nsm_round Q pid [] s = Some s"
| "nsm_round Q pid (p # ps) s = do { s1 \<leftarrow> nsm_recv_cb Q pid p s; nsm_round Q pid ps s1 }"

text \<open>The loop of \<open>tjost_nsm_init\<close>; without an identity it turns for ever.\<close>

fun nsm_wait :: "osc_ops \<Rightarrow> 32 word \<Rightarrow> byte list list list \<Rightarrow> nsm \<Rightarrow> nsm option" where
  "nsm_wait Q pid [] s = (if nsm_id s = None then None else Some s)"
| "nsm_wait Q pid (r # rs) s =
     (if nsm_id s = None then do { s1 \<leftarrow> nsm_round Q pid r s; nsm_wait Q pid rs s1 } else Some s)"

text \<open>What follows the last slash of a path: \<open>strrchr(path, '/') + 1\<close>, the whole without a slash.\<close>

definition file_name :: "string \<Rightarrow> string" where
  "file_name s = rev (takeWhile (\<lambda>c. c \<noteq> CHR ''/'') (rev s))"

text \<open>
  The name of the client, and the state. Without an argument \<open>strrchr\<close> is called with NULL; an empty URL
  is indexed with -1.
\<close>

definition tjost_nsm_init :: "osc_ops \<Rightarrow> session \<Rightarrow> string list \<Rightarrow> nsm \<Rightarrow> (string \<times> nsm) option" where
  "tjost_nsm_init Q Y argv s =
     (case argv of
        prog # script # args \<Rightarrow>
          (let call = file_name script;
               s1 = s\<lparr>nsm_call := Some call, nsm_blocks := nsm_blocks s + 1, nsm_url := ns_url Y\<rparr>
           in case ns_url Y of None \<Rightarrow> Some (call, s1)
              | Some url \<Rightarrow>
                  if url = [] then None
                  else
                    let s2 = s1\<lparr>nsm_url := Some (if last url = CHR ''/'' then butlast url else url)\<rparr>;
                        s3 = (if ns_init Y \<noteq> 0
                              then s2\<lparr>nsm_err := nsm_err s2 @ [''tjost_nsm: could not create UDP Responder'']\<rparr>
                              else s2\<lparr>nsm_responder := True\<rparr>)
                    in do { s4 \<leftarrow> nsm_wait Q (ns_pid Y) (ns_rounds Y) s3; ident \<leftarrow> nsm_id s4; Some (ident, s4) })
      | _ \<Rightarrow> None)"

text \<open>\<open>id\<close> and \<open>call\<close> are freed where they are not NULL, and keep their values.\<close>

definition tjost_nsm_deinit :: "nsm \<Rightarrow> nsm option" where
  "tjost_nsm_deinit s =
     (if nsm_url s = None then Some s
      else if nsm_freed s then None
      else
        let n = (if nsm_id s \<noteq> None then 1 else 0) + (if nsm_call s \<noteq> None then 1 else 0)
        in Some (s\<lparr>nsm_blocks := nsm_blocks s - n, nsm_freed := True, nsm_responder := False\<rparr>))"

lemma nsm_deinit_Some: "\<not> nsm_freed s \<Longrightarrow> \<exists>s'. tjost_nsm_deinit s = Some s'"
  by (simp add: tjost_nsm_deinit_def Let_def)

lemma nsm_init_local:
  "ns_url Y = None \<Longrightarrow> tjost_nsm_init Q Y argv s = Some (ident, s') \<Longrightarrow> nsm_freed s' = nsm_freed s"
  by (auto simp: tjost_nsm_init_def Let_def split: list.splits)

section \<open>What the server sends\<close>

datatype nsm_packet = Resolved | Announced string | Failed string "32 word" string | Open string string string | Save

fun packet_msg :: "nsm_packet \<Rightarrow> string \<times> string \<times> osc_arg list" where
  "packet_msg Resolved = (''/net/resolve'', [], [])"
| "packet_msg (Announced text) = (''/reply'', ''ss'', [Osc_String ''/nsm/server/announce'', Osc_String text])"
| "packet_msg (Failed msg code err) = (''/error'', ''sis'', [Osc_String msg, Osc_Int32 code, Osc_String err])"
| "packet_msg (Open dir name ident) = (''/nsm/client/open'', ''sss'', [Osc_String dir, Osc_String name, Osc_String ident])"
| "packet_msg Save = (''/nsm/client/save'', [], [])"

definition nsm_bytes :: "nsm_packet \<Rightarrow> byte list" where
  "nsm_bytes p = (case packet_msg p of (path, f, args) \<Rightarrow> osc_msg path f args)"

definition packet_ok :: "nsm_packet \<Rightarrow> bool" where
  "packet_ok p \<longleftrightarrow> list_all osc_valid (snd (snd (packet_msg p)))"

text \<open>The answers, by the protocol.\<close>

definition announce_msg :: "string \<Rightarrow> 32 word \<Rightarrow> byte list" where
  "announce_msg call pid = osc_msg ''/nsm/server/announce'' ''sssiii''
     [Osc_String call, Osc_String '':message:'', Osc_String call, Osc_Int32 1, Osc_Int32 2, Osc_Int32 pid]"

definition reply_msg :: "string \<Rightarrow> string \<Rightarrow> byte list" where
  "reply_msg path text = osc_msg ''/reply'' ''ss'' [Osc_String path, Osc_String text]"

fun answer :: "string \<Rightarrow> 32 word \<Rightarrow> nsm_packet \<Rightarrow> byte list list" where
  "answer call pid Resolved = [announce_msg call pid]"
| "answer call pid (Open dir name ident) = [reply_msg ''/nsm/client/open'' ''opened'']"
| "answer call pid Save = [reply_msg ''/nsm/client/save'' ''saved'']"
| "answer call pid p = []"

fun complaint :: "nsm_packet \<Rightarrow> string list" where
  "complaint (Failed msg code err) = [''tjost_nsm: #'' @ show_int (sint code) @ '' in '' @ msg @ '': '' @ err]"
| "complaint p = []"

fun identity :: "nsm_packet \<Rightarrow> string list" where
  "identity (Open dir name ident) = [ident]"
| "identity p = []"

abbreviation collect :: "('a \<Rightarrow> 'b list) \<Rightarrow> 'a list \<Rightarrow> 'b list" where
  "collect f xs \<equiv> concat (map f xs)"

text \<open>The state after a list of packets.\<close>

definition last_opt :: "'a list \<Rightarrow> 'a option \<Rightarrow> 'a option" where
  "last_opt xs d = (if xs = [] then d else Some (last xs))"

definition after :: "string \<Rightarrow> 32 word \<Rightarrow> nsm_packet list \<Rightarrow> nsm \<Rightarrow> nsm" where
  "after call pid ps s =
     s\<lparr>nsm_id := last_opt (collect identity ps) (nsm_id s), nsm_blocks := nsm_blocks s + length (collect identity ps),
       nsm_sent := nsm_sent s @ collect (answer call pid) ps, nsm_err := nsm_err s @ collect complaint ps\<rparr>"

definition nsm_paths_ok :: "osc_ops \<Rightarrow> bool" where
  "nsm_paths_ok Q \<longleftrightarrow> (\<forall>p. osc_check_path Q (fst (packet_msg p)))"

definition call_ok :: "string \<Rightarrow> bool" where
  "call_ok call \<longleftrightarrow> CHR 0x00 \<notin> set call \<and> length (announce_msg call 0) \<le> TJOST_BUF_SIZE"

fun packet_index :: "nsm_packet \<Rightarrow> nat" where
  "packet_index Resolved = 0"
| "packet_index (Announced t) = 1"
| "packet_index (Failed m c e) = 2"
| "packet_index (Open d n i) = 3"
| "packet_index Save = 4"

lemma method_packet:
  assumes "packet_msg p = (path, f, args)"
  shows "method_for nsm_methods path f = Some (packet_index p) \<and> fmt_fits f args"
proof -
  have "method_for nsm_methods (fst (packet_msg p)) (fst (snd (packet_msg p))) = Some (packet_index p)"
    by (cases p) (simp_all add: method_for_def nsm_methods_def upt_conv_Cons)
  moreover have "fmt_fits (fst (snd (packet_msg p))) (snd (snd (packet_msg p)))"
    by (cases p) (simp_all add: fmt_fits_def no_data_def)
  ultimately show ?thesis by (simp add: assms)
qed

lemma after_Nil [simp]: "after call pid [] s = s"
  by (simp add: after_def last_opt_def)

lemma after_append: "after call pid qs (after call pid ps s) = after call pid (ps @ qs) s"
  by (cases s) (simp add: after_def last_opt_def)

lemma after_simps [simp]:
  "nsm_call (after call pid ps s) = nsm_call s" "nsm_url (after call pid ps s) = nsm_url s"
  "nsm_id (after call pid ps s) = last_opt (collect identity ps) (nsm_id s)"
  by (simp_all add: after_def)

lemma announce_length: "length (announce_msg call pid) = length (announce_msg call 0)"
  by (simp add: announce_msg_def osc_msg_def)

context osc_lib
begin

lemma nsm_send_ok:
  assumes "fmt_fits f args" and "list_all osc_valid args" and "length (osc_msg path f args) \<le> TJOST_BUF_SIZE"
  shows "nsm_send Q path f args s = Some (s\<lparr>nsm_sent := nsm_sent s @ [osc_msg path f args]\<rparr>)"
  using set_vararg [OF assms(1,2)] assms(3) by (simp add: nsm_send_def)

lemma get_int32: "osc_get_int32 Q (enc_be 4 (unat w) @ rest) = (w, rest)"
  using get_arg [of "Osc_Int32 w" rest] by (simp add: osc_get_int32_def)

lemma nsm_replies:
  "nsm_send Q ''/reply'' ''ss'' [Osc_String ''/nsm/client/open'', Osc_String ''opened''] s =
     Some (s\<lparr>nsm_sent := nsm_sent s @ [reply_msg ''/nsm/client/open'' ''opened'']\<rparr>)"
  "nsm_send Q ''/reply'' ''ss'' [Osc_String ''/nsm/client/save'', Osc_String ''saved''] s =
     Some (s\<lparr>nsm_sent := nsm_sent s @ [reply_msg ''/nsm/client/save'' ''saved'']\<rparr>)"
  unfolding reply_msg_def
  by (intro nsm_send_ok; simp add: fmt_fits_def no_data_def osc_msg_def length_osc_str length_osc_tags TJOST_BUF_SIZE_def)+

lemma nsm_announce:
  assumes "call_ok call" and "nsm_call s = Some call"
  shows "nsm_resolve Q pid s = Some (s\<lparr>nsm_sent := nsm_sent s @ [announce_msg call pid]\<rparr>)"
  using assms announce_length [of call pid] unfolding nsm_resolve_def announce_msg_def call_ok_def
  by (simp add: nsm_send_ok fmt_fits_def no_data_def)

text \<open>One packet, one round, and the wait.\<close>

lemma nsm_method_packet:
  assumes c: "call_ok call" "nsm_call s = Some call" and ok: "packet_ok p" and m: "packet_msg p = (path, f, args)"
  shows "nsm_method Q pid (packet_index p) (concat (map osc_enc args)) s = Some (after call pid [p] s)"
proof (cases p)
  case Resolved
  with nsm_announce [OF c] show ?thesis by (simp add: nsm_method_def after_def last_opt_def)
next
  case (Announced t)
  then show ?thesis by (simp add: nsm_method_def nsm_reply_def after_def last_opt_def)
next
  case (Failed msg code err)
  with ok m have "args = [Osc_String msg, Osc_Int32 code, Osc_String err]" "CHR 0x00 \<notin> set msg" "CHR 0x00 \<notin> set err"
    by (auto simp: packet_ok_def)
  with Failed get_string [of err "[]"] show ?thesis
    by (simp add: nsm_method_def nsm_error_def get_string get_int32 after_def last_opt_def)
next
  case (Open dir name ident)
  with ok m have "args = [Osc_String dir, Osc_String name, Osc_String ident]"
    "CHR 0x00 \<notin> set dir" "CHR 0x00 \<notin> set name" "CHR 0x00 \<notin> set ident" by (auto simp: packet_ok_def)
  with Open get_string [of ident "[]"] show ?thesis
    by (simp add: nsm_method_def nsm_client_open_def get_string nsm_replies after_def last_opt_def)
next
  case Save
  then show ?thesis by (simp add: nsm_method_def nsm_client_save_def nsm_replies after_def last_opt_def)
qed

lemma nsm_recv_packet:
  assumes p: "nsm_paths_ok Q" and c: "call_ok call" "nsm_call s = Some call" and ok: "packet_ok p"
  shows "nsm_recv_cb Q pid (nsm_bytes p) s = Some (after call pid [p] s)"
proof -
  obtain path f args where m: "packet_msg p = (path, f, args)" by (metis prod_cases3)
  have v: "osc_check_path Q path" "fmt_fits f args" "list_all osc_valid args"
    using p ok method_packet [OF m] m by (auto simp: nsm_paths_ok_def packet_ok_def dest: spec [of _ p])
  from dispatch_msg [OF v] check_packet [OF v] method_packet [OF m] nsm_method_packet [OF c ok m, of pid]
  show ?thesis by (simp add: nsm_recv_cb_def nsm_bytes_def m)
qed

lemma nsm_round_packets:
  assumes p: "nsm_paths_ok Q" and c: "call_ok call"
  shows "nsm_call s = Some call \<Longrightarrow> list_all packet_ok ps \<Longrightarrow>
    nsm_round Q pid (map nsm_bytes ps) s = Some (after call pid ps s)"
proof (induction ps arbitrary: s)
  case (Cons q ps)
  with nsm_recv_packet [OF p c Cons.prems(1), of q pid] Cons.IH [of "after call pid [q] s"]
    after_append [of call pid ps "[q]" s] show ?case by simp
qed simp

text \<open>The rounds up to the first one that brings an identity, \<open>None\<close> if none does.\<close>

end

fun until_open :: "nsm_packet list list \<Rightarrow> nsm_packet list option" where
  "until_open [] = None"
| "until_open (r # rs) =
     (if collect identity r \<noteq> [] then Some r else map_option (\<lambda>ps. r @ ps) (until_open rs))"

lemma nsm_wait_done: "nsm_id s \<noteq> None \<Longrightarrow> nsm_wait Q pid rs s = Some s"
  by (cases rs) auto

lemma until_open_identity: "until_open rs = Some ps \<Longrightarrow> collect identity ps \<noteq> []"
  by (induction rs arbitrary: ps) (auto split: if_splits)

context osc_lib
begin

lemma nsm_wait_packets:
  assumes p: "nsm_paths_ok Q" and c: "call_ok call"
  shows "nsm_call s = Some call \<Longrightarrow> nsm_id s = None \<Longrightarrow> list_all (list_all packet_ok) rs \<Longrightarrow>
    nsm_wait Q pid (map (map nsm_bytes) rs) s = map_option (\<lambda>ps. after call pid ps s) (until_open rs)"
proof (induction rs arbitrary: s)
  case (Cons r rs)
  let ?s = "after call pid r s"
  have r: "nsm_round Q pid (map nsm_bytes r) s = Some ?s"
    using nsm_round_packets [OF p c Cons.prems(1)] Cons.prems(3) by simp
  show ?case
  proof (cases "collect identity r = []")
    case True
    then have i: "nsm_id ?s = None" using Cons.prems(2) by (simp add: last_opt_def)
    have "nsm_wait Q pid (map (map nsm_bytes) rs) ?s = map_option (\<lambda>ps. after call pid ps ?s) (until_open rs)"
      using Cons.prems i by (intro Cons.IH) simp_all
    with Cons.prems(2) r True show ?thesis by (simp add: option.map_comp o_def after_append)
  next
    case False
    then have "nsm_id ?s \<noteq> None" by (auto simp: last_opt_def)
    then have "nsm_wait Q pid (map (map nsm_bytes) rs) ?s = Some ?s" by (rule nsm_wait_done)
    with False r Cons.prems(2) show ?thesis by simp
  qed
qed simp

end

end
