(* ===== verification/Startup.thy ===== *)
theory Startup
  imports Tlsf_Pools Lua_Modules Nsm
begin

text \<open>
  The life of the daemon (\<open>tjost.c\<close>): \<open>_tjost_init\<close> as the list of its steps, each with the message of its
  \<open>FAIL\<close>, \<open>_tjost_deinit\<close>, and \<open>main\<close> around them. The state is the host together with what the source keeps
  in nullable pointers and in libuv handles. Results of JACK, libuv, Eina and Lua are fields of the record
  \<open>system\<close>.
\<close>

section \<open>State\<close>

text \<open>
  A handle is in the zeroed memory of the static host, initialised, or closed. Closing one that is not
  initialised, or closing it twice, is undefined.
\<close>

datatype uv_handle = Zeroed | Active | Closed

definition uv_close :: "uv_handle \<Rightarrow> uv_handle option" where
  "uv_close a = (if a = Active then Some Closed else None)"

text \<open>The ring of a pipe: NULL, there, or freed with the pointer kept.\<close>

datatype pipe_ring = No_Ring | Ring | Freed_Ring

record 'r daemon =
  d_host :: "(control, 'r) host"
  d_tlsf :: bool
  d_client :: bool
  d_lua :: bool
  d_arr :: bool
  d_rb_msg :: bool
  d_rb_rtmem :: bool
  d_pipe_rx :: pipe_ring
  d_pipe_tx :: pipe_ring
  d_asio :: uv_handle
  d_quit :: uv_handle
  d_msg :: uv_handle
  d_rtmem :: uv_handle
  d_nsm :: nsm
  d_err :: "string list"

text \<open>
  The outside: what \<open>mmap\<close> and \<open>calloc\<close> return and the memory behind, the error codes of the JACK and
  libuv calls in their order, and the interpreter: the host after \<open>lua_newstate\<close> (\<open>None\<close> in the result:
  NULL), after the script, with its error message, and after \<open>lua_close\<close>.
\<close>

record 'r system =
  s_area :: addr
  s_chunk :: addr
  s_memory :: "addr \<Rightarrow> bhdr"
  s_osc :: osc_ops
  s_session :: session
  jack_client_open :: "string \<Rightarrow> bool"
  jack_sets :: "int list"
  jack_ready :: int
  uv_asio :: int
  uv_signals :: "int list"
  uv_asyncs :: "int list"
  eina_list :: bool
  lua_newstate :: "(control, 'r) host \<Rightarrow> (control, 'r) host option option"
  lua_script :: "string list \<Rightarrow> (control, 'r) host \<Rightarrow> (string option \<times> (control, 'r) host) option"
  lua_close :: "(control, 'r) host \<Rightarrow> (control, 'r) host option"
  s_uv_err_name :: "int \<Rightarrow> string"
  signal_stops :: "int list"

section \<open>Pipes\<close>

text \<open>\<open>tjost_pipe_listen_start\<close> only prints the error: it always answers 0.\<close>

definition tjost_pipe_listen_start :: "'r system \<Rightarrow> 'r daemon \<Rightarrow> int \<times> 'r daemon" where
  "tjost_pipe_listen_start Y d =
     (0, if uv_asio Y \<noteq> 0
         then d\<lparr>d_err := d_err d @ [''tjost_pipe_listen_start: '' @ s_uv_err_name Y (uv_asio Y)]\<rparr>
         else d\<lparr>d_asio := Active\<rparr>)"

definition tjost_pipe_listen_stop :: "'r daemon \<Rightarrow> (int \<times> 'r daemon) option" where
  "tjost_pipe_listen_stop d = do { a \<leftarrow> uv_close (d_asio d); Some (0, d\<lparr>d_asio := a\<rparr>) }"

definition tjost_pipe_deinit :: "pipe_ring \<Rightarrow> (int \<times> pipe_ring) option" where
  "tjost_pipe_deinit p = (case p of No_Ring \<Rightarrow> Some (0, No_Ring) | Ring \<Rightarrow> Some (0, Freed_Ring) | Freed_Ring \<Rightarrow> None)"

section \<open>Start-up\<close>

text \<open>A step answers the message it fails with, if it does, and the state.\<close>

type_synonym 'r step = "'r daemon \<Rightarrow> (string option \<times> 'r daemon) option"

fun run_steps :: "'r step list \<Rightarrow> 'r daemon \<Rightarrow> (string option \<times> 'r daemon) option" where
  "run_steps [] d = Some (None, d)"
| "run_steps (s # ss) d =
     do { (e, d1) \<leftarrow> s d; case e of None \<Rightarrow> run_steps ss d1 | Some msg \<Rightarrow> Some (Some msg, d1) }"

definition check_step :: "bool \<Rightarrow> string \<Rightarrow> 'r step" where
  "check_step failed msg d = Some (if failed then Some msg else None, d)"

definition memory_step :: "'r system \<Rightarrow> 'r step" where
  "memory_step Y d =
     do {
       m \<leftarrow> tjost_map_memory_chunk (s_area Y) (s_chunk Y) area_size;
       case m of None \<Rightarrow> Some (Some ''could not allocate RT memory chunk'', d)
       | Some (a, c) \<Rightarrow>
           do { t \<leftarrow> tlsf_create_with_pool (ch_area c) (ch_size c) (s_memory Y);
                let h = d_host d in
                Some (None, d\<lparr>d_tlsf := True,
                  d_host := h\<lparr>tlsf := t, chunk_at := (chunk_at h)(a := c\<lparr>ch_pool := Some (tlsf_get_pool t)\<rparr>),
                    rtmem_chunks := a # rtmem_chunks h, rtmem_sum := of_nat area_size\<rparr>\<rparr>) } }"

definition client_step :: "'r system \<Rightarrow> string \<Rightarrow> 'r step" where
  "client_step Y ident d =
     Some (if jack_client_open Y ident then (None, d\<lparr>d_client := True\<rparr>) else (Some ''could not open client'', d))"

text \<open>The callbacks JACK takes, with \<open>HAS_METADATA_API\<close>.\<close>

definition jack_messages :: "string list" where
  "jack_messages = [''could not set process callback'', ''could not set client_registration callback'',
     ''could not set port_registration callback'', ''could not set port_connect callback'',
     ''could not set graph_order callback'', ''could not set client pretty name'',
     ''could not set property_change callback'']"

definition jack_steps :: "'r system \<Rightarrow> 'r step list" where
  "jack_steps Y = map (\<lambda>(e, msg). check_step (e \<noteq> 0) msg) (zip (jack_sets Y) jack_messages)"

text \<open>A ring buffer created and stored by \<open>store\<close>.\<close>

definition ring_step :: "'r option \<Rightarrow> ('r \<Rightarrow> 'r daemon \<Rightarrow> 'r daemon) \<Rightarrow> string \<Rightarrow> 'r step" where
  "ring_step rb store msg d = Some (case rb of None \<Rightarrow> (Some msg, d) | Some r \<Rightarrow> (None, store r d))"

definition listen_step :: "'r system \<Rightarrow> 'r step" where
  "listen_step Y d =
     (let (e, d1) = tjost_pipe_listen_start Y d
      in Some (if e \<noteq> 0 then Some ''could not initialize listening on uplink RX pipe'' else None, d1))"

definition ring_steps :: "(control, 'r) env \<Rightarrow> 'r system \<Rightarrow> 'r step list" where
  "ring_steps E Y =
     [ring_step (snd (tjost_pipe_init (ring_api E))) (\<lambda>r d. d\<lparr>d_host := (d_host d)\<lparr>pipe_uplink_rx := r\<rparr>, d_pipe_rx := Ring\<rparr>)
        ''could not initialize uplink RX pipe'',
      ring_step (snd (tjost_pipe_init (ring_api E))) (\<lambda>r d. d\<lparr>d_host := (d_host d)\<lparr>pipe_uplink_tx := r\<rparr>, d_pipe_tx := Ring\<rparr>)
        ''could not initialize uplink TX pipe'',
      listen_step Y,
      ring_step (rb_create (ring_api E) 0x10000) (\<lambda>r d. d\<lparr>d_host := (d_host d)\<lparr>rb_msg := r\<rparr>, d_rb_msg := True\<rparr>)
        ''could not initialize ringbuffer'',
      ring_step (rb_create (ring_api E) (48 * 2 + 1)) (\<lambda>r d. d\<lparr>d_host := (d_host d)\<lparr>rb_rtmem := r\<rparr>, d_rb_rtmem := True\<rparr>)
        ''could not initialize ringbuffer'',
      (\<lambda>d. Some (None, d\<lparr>d_arr := eina_list Y\<rparr>))]"

definition uv_error :: "'r system \<Rightarrow> int \<Rightarrow> string option" where
  "uv_error Y e = (if e \<noteq> 0 then Some (''uv error: '' @ s_uv_err_name Y e) else None)"

definition signal_steps :: "'r system \<Rightarrow> 'r step list" where
  "signal_steps Y = map (\<lambda>e d. Some (uv_error Y e, d)) (uv_signals Y)"

definition async_step :: "'r system \<Rightarrow> int \<Rightarrow> ('r daemon \<Rightarrow> 'r daemon) \<Rightarrow> 'r step" where
  "async_step Y e start d = Some (uv_error Y e, if e = 0 then start d else d)"

definition async_steps :: "'r system \<Rightarrow> 'r step list" where
  "async_steps Y =
     map (\<lambda>(e, start). async_step Y e start)
       (zip (uv_asyncs Y) [\<lambda>d. d\<lparr>d_quit := Active\<rparr>, \<lambda>d. d\<lparr>d_msg := Active\<rparr>, \<lambda>d. d\<lparr>d_rtmem := Active\<rparr>])"

text \<open>
  The script's directory becomes the working directory and \<open>argv[1]\<close> its file name. Without an
  argument \<open>strrchr\<close> is called with NULL.
\<close>

definition lua_step :: "'r system \<Rightarrow> string list \<Rightarrow> 'r step" where
  "lua_step Y argv d =
     (case argv of
        prog # script # args \<Rightarrow>
          do { n \<leftarrow> lua_newstate Y (d_host d);
               case n of None \<Rightarrow> Some (Some ''could not initialize Lua'', d)
               | Some h \<Rightarrow>
                   do { (e, h1) \<leftarrow> lua_script Y (prog # file_name script # args) h;
                        Some (map_option (\<lambda>msg. ''error loading file: '' @ msg) e, d\<lparr>d_host := h1, d_lua := True\<rparr>) } }
      | _ \<Rightarrow> None)"

definition init_steps :: "(control, 'r) env \<Rightarrow> 'r system \<Rightarrow> string \<Rightarrow> string list \<Rightarrow> 'r step list" where
  "init_steps E Y ident argv =
     memory_step Y # client_step Y ident # jack_steps Y @ ring_steps E Y @ signal_steps Y @ async_steps Y @
     [lua_step Y argv, check_step (jack_ready Y \<noteq> 0) ''could not activate jack client'']"

text \<open>First the session client, which answers the name of the JACK client or never returns.\<close>

definition tjost_init :: "(control, 'r) env \<Rightarrow> 'r system \<Rightarrow> string list \<Rightarrow> 'r daemon \<Rightarrow> (int \<times> 'r daemon) option" where
  "tjost_init E Y argv d =
     do { (ident, n) \<leftarrow> tjost_nsm_init (s_osc Y) (s_session Y) argv (d_nsm d);
          (e, d1) \<leftarrow> run_steps (init_steps E Y ident argv) (d\<lparr>d_nsm := n\<rparr>);
          Some (case e of None \<Rightarrow> (0, d1) | Some msg \<Rightarrow> (-1, d1\<lparr>d_err := d_err d1 @ [''FAIL: '' @ msg]\<rparr>)) }"

section \<open>Shutdown\<close>

definition tjost_lua_deinit :: "'r system \<Rightarrow> 'r daemon \<Rightarrow> 'r daemon option" where
  "tjost_lua_deinit Y d =
     do { h \<leftarrow> (if d_lua d then lua_close Y (d_host d) else Some (d_host d));
          Some (d\<lparr>d_host := h, d_lua := False\<rparr>) }"

definition stop_errors :: "'r system \<Rightarrow> string list" where
  "stop_errors Y = map (\<lambda>e. ''uv error: '' @ s_uv_err_name Y e) (filter (\<lambda>e. e \<noteq> 0) (signal_stops Y))"

definition tjost_deinit :: "(control, 'r) env \<Rightarrow> 'r system \<Rightarrow> 'r daemon \<Rightarrow> 'r daemon option" where
  "tjost_deinit E Y d0 =
     do {
       d1 \<leftarrow> tjost_lua_deinit Y d0;
       a \<leftarrow> uv_close (d_rtmem d1);
       b \<leftarrow> uv_close (d_msg d1);
       c \<leftarrow> uv_close (d_quit d1);
       let h = d_host d1;
           h1 = clear_events E None (queue h) h;
           d2 = d1\<lparr>d_rtmem := a, d_msg := b, d_quit := c, d_err := d_err d1 @ stop_errors Y, d_host := h1,
                   d_arr := False, d_rb_rtmem := False, d_rb_msg := False\<rparr>
       in do {
         (r, d3) \<leftarrow> tjost_pipe_listen_stop d2;
         (e1, tx) \<leftarrow> tjost_pipe_deinit (d_pipe_tx d3);
         (e2, rx) \<leftarrow> tjost_pipe_deinit (d_pipe_rx d3);
         let d4 = d3\<lparr>d_pipe_tx := tx, d_pipe_rx := rx, d_client := False\<rparr>;
             d5 = (if d_tlsf d4 then d4\<lparr>d_host := tjost_free_memory E (d_host d4), d_tlsf := False\<rparr> else d4)
         in do { n \<leftarrow> tjost_nsm_deinit (d_nsm d5); Some (d5\<lparr>d_nsm := n\<rparr>) } } }"

text \<open>\<open>main\<close>; \<open>loop\<close> is what happens while \<open>uv_run\<close> runs.\<close>

definition tjost_main ::
  "(control, 'r) env \<Rightarrow> 'r system \<Rightarrow> string list \<Rightarrow> ('r daemon \<Rightarrow> 'r daemon option) \<Rightarrow> 'r daemon \<Rightarrow> (int \<times> 'r daemon) option" where
  "tjost_main E Y argv loop d =
     do { (e, d1) \<leftarrow> tjost_init E Y argv d;
          if e \<noteq> 0 then
            do { d2 \<leftarrow> tjost_deinit E Y (d1\<lparr>d_err := d_err d1 @ [''_tjost_init failed'']\<rparr>); Some (-1, d2) }
          else do { d2 \<leftarrow> loop d1; Some (0, d2) } }"

end
