(* ===== verification/Startup_Properties.thy ===== *)
theory Startup_Properties
  imports Startup Lua_Graph Tlsf_Properties
begin

text \<open>
  What start-up establishes and what shutdown gives back: the invariant of the host and the list of its
  memory pools, and the cases in which cleaning up is undefined.
\<close>

section \<open>Pools of the host\<close>

text \<open>Every pool of the heap belongs to exactly one chunk of the host's list.\<close>

definition pools_listed :: "(control, 'r) host \<Rightarrow> bool" where
  "pools_listed h \<longleftrightarrow> (\<exists>bs. map (\<lambda>a. ch_pool (chunk_at h a)) (rtmem_chunks h) = map (\<lambda>b. Some (b + 8)) bs \<and>
     distinct bs \<and> set bs = tlsf_pools (tlsf h))"

definition host_inv :: "(control, circ) host \<Rightarrow> bool" where
  "host_inv h \<longleftrightarrow> host_wf circ_ok tlsf_live tlsf_wf h \<and> used_exact tlsf_live h \<and> pools_listed h"

lemma free_pools:
  assumes "tlsf_wf t" and "tlsf_live t a = Some s"
  shows "tlsf_pools (ta_free tlsf_host_ops t (Some a)) = tlsf_pools t"
proof -
  obtain b where b: "a = b + 16" "tlsf_used t b = Some s" using assms(2) by (rule tlsf_live_SomeD)
  obtain t' where "tlsf_free t (b + 16) = Some t'" "tlsf_pools t' = tlsf_pools t"
    using tlsf_free_ok [OF assms(1) b(2)] by blast
  then show ?thesis by (simp add: tlsf_host_ops_def b(1) ptr_of_def)
qed

lemma clear_events_pools:
  "host_wf circ_ok tlsf_live tlsf_wf h \<Longrightarrow> queue_of h i = q \<Longrightarrow>
   tlsf_pools (tlsf (clear_events tlsf_env i q h)) = tlsf_pools (tlsf h)"
proof (induction q arbitrary: h)
  case (Cons e q)
  let ?h1 = "dequeue i (ev_addr e) h"
  let ?h2 = "tjost_free tlsf_env ?h1 (Some (ev_addr e))"
  have d: "distinct (map ev_addr (e # q))" and o: "owned (queue_of h i) \<subseteq> dom (tlsf_live (tlsf h))"
    using Cons.prems queues_okD(2,3) [of "tlsf_live (tlsf h)" "queue_of h" i] by (simp_all add: host_wf_def)
  have q1: "queue_of ?h1 = (queue_of h)(i := ev_remove (ev_addr e) (queue_of h i))" by (rule queue_of_dequeue)
  have s: "tlsf ?h1 = tlsf h" "rb_msg ?h1 = rb_msg h" "used ?h1 = used h"
    by (simp_all add: dequeue_def split: option.split)
  have own: "ev_addr e \<in> owned (queue_of h i)" using Cons.prems(2) by simp
  note r = tjost_env.release_spec [OF tlsf_tjost_env Cons.prems(1) own q1 s]
  have q2: "queue_of ?h2 i = q" using r(2) Cons.prems(2) ev_remove_head [OF d] by simp
  obtain sz where "tlsf_live (tlsf h) (ev_addr e) = Some sz" using own o by blast
  then have "tlsf_pools (tlsf ?h2) = tlsf_pools (tlsf h)"
    using free_pools [of "tlsf h" "ev_addr e" sz] Cons.prems(1) by (simp add: tjost_free_def s(1) host_wf_def)
  then show ?case using Cons.IH [OF r(1) q2] by simp
qed simp

lemma free_chunks_spec:
  "tlsf_wf (tlsf h) \<Longrightarrow> tlsf_used (tlsf h) = Map.empty \<Longrightarrow>
   map (\<lambda>a. ch_pool (chunk_at h a)) as = map (\<lambda>b. Some (b + 8)) bs \<Longrightarrow> distinct bs \<Longrightarrow>
   set bs = dom (tlsf_free_blocks (tlsf h)) \<Longrightarrow> rtmem_chunks h = as \<Longrightarrow>
   (let h' = free_chunks tlsf_env as h in
    tlsf_wf (tlsf h') \<and> tlsf_used (tlsf h') = Map.empty \<and> tlsf_free_blocks (tlsf h') = Map.empty \<and>
    rtmem_chunks h' = [] \<and> queue_of h' = queue_of h \<and> used h' = used h)"
proof (induction as arbitrary: h bs)
  case Nil
  then have "dom (tlsf_free_blocks (tlsf h)) = {}" by simp
  with Nil show ?case by (simp add: dom_eq_empty_conv)
next
  case (Cons a as)
  then obtain b bs' where bs: "bs = b # bs'" by (cases bs) auto
  then have b: "ch_pool (chunk_at h a) = Some (b + 8)" "b \<in> dom (tlsf_free_blocks (tlsf h))"
    using Cons.prems(3,5) by (simp, metis list.set_intros(1))
  from remove_pool_unused [OF Cons.prems(1,2) b(2)] obtain t' where t': "tlsf_remove_pool (b + 8) (tlsf h) = Some t'"
    "tlsf_wf t'" "tlsf_used t' = Map.empty" "tlsf_free_blocks t' = (tlsf_free_blocks (tlsf h))(b := None)" by blast
  let ?h = "h\<lparr>tlsf := t', rtmem_sum := rtmem_sum h - ch_size (chunk_at h a), rtmem_chunks := as\<rparr>"
  have f: "free_chunks tlsf_env (a # as) h = free_chunks tlsf_env as ?h"
    using t'(1) b(1) Cons.prems(6) by (simp add: tlsf_host_ops_def ptr_of_def)
  have "set bs' = dom (tlsf_free_blocks t')" using Cons.prems(4,5) bs t'(4) by auto
  then show ?case
    using Cons.IH [of ?h bs'] Cons.prems(3,4) t'(2,3) unfolding f by (simp add: bs Let_def queue_of_def)
qed

lemma clear_events_chunks [simp]:
  "chunk_at (clear_events E i q h) = chunk_at h" "rtmem_chunks (clear_events E i q h) = rtmem_chunks h"
  by (induction q arbitrary: h) (simp_all add: tjost_free_def dequeue_def upd_module_def split: option.split)

section \<open>Start-up\<close>

lemma run_steps_append:
  "run_steps (xs @ ys) d =
     do { (e, d1) \<leftarrow> run_steps xs d; case e of None \<Rightarrow> run_steps ys d1 | Some msg \<Rightarrow> Some (Some msg, d1) }"
  by (induction xs arbitrary: d) (auto split: option.split Option.bind_split)

lemma run_steps_None:
  "run_steps (xs @ ys) d = Some (None, d') \<longleftrightarrow> (\<exists>d1. run_steps xs d = Some (None, d1) \<and> run_steps ys d1 = Some (None, d'))"
  by (auto simp: run_steps_append bind_eq_Some_conv split: option.splits)

lemma run_steps_cons:
  "run_steps (s # ss) d = Some (None, d') \<longleftrightarrow> (\<exists>d1. s d = Some (None, d1) \<and> run_steps ss d1 = Some (None, d'))"
  by (auto simp: bind_eq_Some_conv split: option.splits)

lemma run_steps_keeps:
  "(\<And>s d e d1. s \<in> set ss \<Longrightarrow> s d = Some (e, d1) \<Longrightarrow> f d1 = f d) \<Longrightarrow> run_steps ss d = Some (e, d1) \<Longrightarrow> f d1 = f d"
proof (induction ss arbitrary: d e)
  case (Cons s ss)
  from Cons.prems(2) obtain e2 d2 where s: "s d = Some (e2, d2)"
    "(case e2 of None \<Rightarrow> run_steps ss d2 | Some msg \<Rightarrow> Some (Some msg, d2)) = Some (e, d1)"
    by (auto simp: bind_eq_Some_conv)
  have f: "f d2 = f d" using Cons.prems(1) [of s d e2 d2] s(1) by simp
  show ?case
  proof (cases e2)
    case None
    have k: "f d1' = f d'" if "t \<in> set ss" "t d' = Some (e', d1')" for t d' e' d1'
      using Cons.prems(1) [of t d' e' d1'] that by simp
    have "run_steps ss d2 = Some (e, d1)" using s(2) None by simp
    from Cons.IH [OF k this] f show ?thesis by simp
  qed (use s(2) f in simp)
qed simp

text \<open>Steps that only check.\<close>

lemma run_checks:
  "(\<And>s e d1. s \<in> set ss \<Longrightarrow> s d = Some (e, d1) \<Longrightarrow> d1 = d) \<Longrightarrow> run_steps ss d = Some (e, d1) \<Longrightarrow> d1 = d"
proof (induction ss arbitrary: e d1)
  case (Cons s ss)
  from Cons.prems(2) obtain e2 d2 where s: "s d = Some (e2, d2)" "(case e2 of None \<Rightarrow> run_steps ss d2 | Some msg \<Rightarrow> Some (Some msg, d2)) = Some (e, d1)"
    by (auto simp: bind_eq_Some_conv)
  have "d2 = d" using Cons.prems(1) [of s e2 d2] s(1) by simp
  with s(2) Cons.IH [of e d1] Cons.prems(1) show ?case by (auto split: option.splits)
qed simp

lemma jack_steps_check: "run_steps (jack_steps Y) d = Some (e, d1) \<Longrightarrow> d1 = d"
  by (rule run_checks [of "jack_steps Y"]) (auto simp: jack_steps_def check_step_def)

lemma signal_steps_check: "run_steps (signal_steps Y) d = Some (e, d1) \<Longrightarrow> d1 = d"
  by (rule run_checks [of "signal_steps Y"]) (auto simp: signal_steps_def)

lemma jack_steps_zero:
  "length (jack_sets Y) = 7 \<Longrightarrow> run_steps (jack_steps Y) d = Some (None, d1) \<Longrightarrow> \<forall>e\<in>set (jack_sets Y). e = 0"
  by (auto simp: jack_steps_def jack_messages_def length_Suc_conv eval_nat_numeral check_step_def split: if_splits)

lemma signal_steps_zero:
  "run_steps (signal_steps Y) d = Some (None, d1) \<Longrightarrow> \<forall>e\<in>set (uv_signals Y). e = 0"
proof -
  have "run_steps (map (\<lambda>e d. Some (uv_error Y e, d)) es) d = Some (None, d1) \<Longrightarrow> \<forall>e\<in>set es. e = 0" for es
    by (induction es) (auto simp: uv_error_def split: if_splits)
  then show "run_steps (signal_steps Y) d = Some (None, d1) \<Longrightarrow> \<forall>e\<in>set (uv_signals Y). e = 0"
    by (simp add: signal_steps_def)
qed

lemma tlsf_add_pool_null:
  "tlsf_add_pool mem bytes t = Some (p, t') \<Longrightarrow> block_null t' = block_null t"
  by (auto simp: tlsf_add_pool_def Let_def block_insert_def insert_free_block_def block_link_next_def block_set_size_def
      block_set_free_def block_set_used_def block_set_prev_free_def block_set_prev_used_def bind_eq_Some_conv
      split: if_splits prod.splits)

lemma memory_step_pools:
  assumes "8 dvd s_area Y" "0 < s_area Y" "s_area Y + area_size \<le> 2 ^ 32"
    and "tlsf_create_with_pool (s_area Y) (of_nat area_size) (s_memory Y) = Some t"
  shows "tlsf_wf t" "tlsf_used t = Map.empty" "tlsf_pools t = {s_area Y + 6528}" "tlsf_get_pool t = s_area Y + 6536"
proof -
  have u: "unat (of_nat area_size :: size_t) = area_size" by (simp add: area_size_def)
  have n: "6576 \<le> unat (of_nat area_size :: size_t)" "s_area Y + unat (of_nat area_size :: size_t) \<le> 2 ^ 32"
    using assms(3) unfolding u by (simp_all add: area_size_def)
  obtain z where t: "tlsf_wf t" "tlsf_used t = Map.empty" "tlsf_free_blocks t = [s_area Y + 6528 \<mapsto> z]"
    using tlsf_create_with_pool_ok [OF assms(1,2) n, of "s_memory Y"] assms(4) by auto
  show "tlsf_wf t" "tlsf_used t = Map.empty" by (fact t)+
  show "tlsf_pools t = {s_area Y + 6528}" using unused_first [OF t(1,2)] t(3) by auto
  have "block_null t = s_area Y"
    using assms(4) tlsf_add_pool_null
    by (fastforce simp: tlsf_create_with_pool_def tlsf_create_def bind_eq_Some_conv control_construct_def split: if_splits)
  then show "tlsf_get_pool t = s_area Y + 6536" by (simp add: tlsf_get_pool_def tlsf_size_def)
qed

lemma ring_steps_run:
  assumes "run_steps (ring_steps tlsf_env Y) d = Some (None, d')"
  shows "\<exists>rx tx m r. d_host d' = (d_host d)\<lparr>pipe_uplink_rx := rx, pipe_uplink_tx := tx, rb_msg := m, rb_rtmem := r\<rparr> \<and>
      circ_ok m \<and> circ_contents m = [] \<and> circ_contents rx = [] \<and> circ_contents tx = []"
    "d_rb_msg d'" "d_rb_rtmem d'" "d_tlsf d' = d_tlsf d" "d_client d' = d_client d" "d_lua d' = d_lua d"
    "d_asio d' = (if uv_asio Y = 0 then Active else d_asio d)" "d_pipe_rx d' = Ring" "d_pipe_tx d' = Ring"
proof -
  have c: "\<exists>r. rb_create circ_ops n = Some r \<and> circ_ok r \<and> circ_contents r = []" for n
    using circ.create [of n] by (auto simp: circ_ops_def)
  obtain rx where rx: "rb_create circ_ops 65536 = Some rx" "circ_ok rx" "circ_contents rx = []" using c by blast
  obtain rt where rt: "rb_create circ_ops 97 = Some rt" using c by blast
  note run = ring_steps_def ring_step_def tjost_pipe_init_def listen_step_def tjost_pipe_listen_start_def
  have "d_host d' = (d_host d)\<lparr>pipe_uplink_rx := rx, pipe_uplink_tx := rx, rb_msg := rx, rb_rtmem := rt\<rparr>"
    using assms rx(1) rt by (cases "uv_asio Y = 0") (force simp: run)+
  with rx show "\<exists>rx tx m r. d_host d' = (d_host d)\<lparr>pipe_uplink_rx := rx, pipe_uplink_tx := tx, rb_msg := m, rb_rtmem := r\<rparr> \<and>
      circ_ok m \<and> circ_contents m = [] \<and> circ_contents rx = [] \<and> circ_contents tx = []" by blast
  show "d_rb_msg d'" "d_rb_rtmem d'" "d_tlsf d' = d_tlsf d" "d_client d' = d_client d" "d_lua d' = d_lua d"
    "d_asio d' = (if uv_asio Y = 0 then Active else d_asio d)" "d_pipe_rx d' = Ring" "d_pipe_tx d' = Ring"
    using assms rx(1) rt by (cases "uv_asio Y = 0"; force simp: run)+
qed

lemma async_steps_run:
  assumes "length (uv_asyncs Y) = 3" and "run_steps (async_steps Y) d = Some (None, d')"
  shows "d' = d\<lparr>d_quit := Active, d_msg := Active, d_rtmem := Active\<rparr> \<and> (\<forall>e\<in>set (uv_asyncs Y). e = 0)"
  using assms by (auto simp: async_steps_def length_Suc_conv eval_nat_numeral async_step_def uv_error_def split: if_splits)

text \<open>The static host before start-up: no events, nothing allocated.\<close>

definition blank :: "(control, 'r) host \<Rightarrow> bool" where
  "blank h \<longleftrightarrow> (\<forall>i. queue_of h i = []) \<and> used h = 0 \<and> rtmem_chunks h = []"

definition script_contract :: "circ system \<Rightarrow> bool" where
  "script_contract Y \<longleftrightarrow>
     (\<forall>h h1. host_inv h \<longrightarrow> lua_newstate Y h = Some (Some h1) \<longrightarrow> host_inv h1) \<and>
     (\<forall>argv h e h1. host_inv h \<longrightarrow> lua_script Y argv h = Some (e, h1) \<longrightarrow> host_inv h1)"

lemma lua_step_run:
  assumes "lua_step Y argv d = Some (None, d')" and "script_contract Y" and "host_inv (d_host d)"
  shows "\<exists>h. host_inv h \<and> d' = d\<lparr>d_host := h, d_lua := True\<rparr>"
proof -
  from assms(1) obtain prog script args h1 h where "lua_newstate Y (d_host d) = Some (Some h1)"
    "lua_script Y (prog # file_name script # args) h1 = Some (None, h)" "d' = d\<lparr>d_host := h, d_lua := True\<rparr>"
    by (auto simp: lua_step_def bind_eq_Some_conv split: list.splits option.splits)
  with assms(2,3) show ?thesis unfolding script_contract_def by blast
qed

lemma memory_step_run:
  assumes a: "8 dvd s_area Y" "s_area Y + area_size \<le> 2 ^ 32"
    and r: "memory_step Y d = Some (None, d')" and b: "blank (d_host d)"
  shows "\<exists>t. d_host d' = (d_host d)\<lparr>tlsf := t, chunk_at := (chunk_at (d_host d))(s_chunk Y :=
      \<lparr>ch_size = of_nat area_size, ch_area = s_area Y, ch_pool = Some (s_area Y + 6536)\<rparr>),
      rtmem_chunks := [s_chunk Y], rtmem_sum := of_nat area_size\<rparr> \<and>
    tlsf_wf t \<and> tlsf_used t = Map.empty \<and> tlsf_pools t = {s_area Y + 6528}"
    "d_tlsf d'" "d' = d\<lparr>d_tlsf := True, d_host := d_host d'\<rparr>"
proof -
  from r obtain t where t: "0 < s_area Y" "s_chunk Y \<noteq> 0"
    "tlsf_create_with_pool (s_area Y) (of_nat area_size) (s_memory Y) = Some t"
    "d' = d\<lparr>d_tlsf := True, d_host := (d_host d)\<lparr>tlsf := t, chunk_at := (chunk_at (d_host d))(s_chunk Y :=
      \<lparr>ch_size = of_nat area_size, ch_area = s_area Y, ch_pool = Some (tlsf_get_pool t)\<rparr>),
      rtmem_chunks := s_chunk Y # rtmem_chunks (d_host d), rtmem_sum := of_nat area_size\<rparr>\<rparr>"
    by (auto simp: memory_step_def tjost_map_memory_chunk_def bind_eq_Some_conv Let_def split: if_splits)
  note m = memory_step_pools [OF a(1) t(1) a(2) t(3)]
  show "\<exists>t. d_host d' = (d_host d)\<lparr>tlsf := t, chunk_at := (chunk_at (d_host d))(s_chunk Y :=
      \<lparr>ch_size = of_nat area_size, ch_area = s_area Y, ch_pool = Some (s_area Y + 6536)\<rparr>),
      rtmem_chunks := [s_chunk Y], rtmem_sum := of_nat area_size\<rparr> \<and>
    tlsf_wf t \<and> tlsf_used t = Map.empty \<and> tlsf_pools t = {s_area Y + 6528}"
    using m b by (intro exI [of _ t]) (simp add: t(4) blank_def)
  show "d_tlsf d'" "d' = d\<lparr>d_tlsf := True, d_host := d_host d'\<rparr>" by (simp_all add: t(4))
qed

lemma blank_host_inv:
  assumes "\<forall>i. queue_of h i = []" "used h = 0" "tlsf_wf (tlsf h)" "tlsf_used (tlsf h) = Map.empty" "circ_ok (rb_msg h)"
    and "rtmem_chunks h = [c]" "ch_pool (chunk_at h c) = Some (b + 8)" "tlsf_pools (tlsf h) = {b}"
  shows "host_inv h"
proof -
  have l: "tlsf_live (tlsf h) = Map.empty" using assms(4) by (auto simp: tlsf_live_def fun_eq_iff)
  have "pools_listed h" unfolding pools_listed_def using assms(6-8) by (intro exI [of _ "[b]"]) simp
  moreover have "queue_of h = (\<lambda>i. [])" using assms(1) by auto
  ultimately show ?thesis
    using assms(2,3,5) by (simp add: host_inv_def host_wf_def used_exact_def used_ok_def queues_ok_def l)
qed

lemma init_keeps_nsm:
  assumes "run_steps (init_steps E Y ident argv) d = Some (e, d1)"
  shows "d_nsm d1 = d_nsm d"
proof (rule run_steps_keeps [where f = d_nsm, OF _ assms])
  fix s d e d1 assume "s \<in> set (init_steps E Y ident argv)" and s: "s d = Some (e, d1)"
  then consider "s = memory_step Y" | "s = client_step Y ident" | "s \<in> set (ring_steps E Y)"
    | "s \<in> set (jack_steps Y) \<union> set (signal_steps Y)" | "s \<in> set (async_steps Y)" | "s = lua_step Y argv"
    | "s = check_step (jack_ready Y \<noteq> 0) ''could not activate jack client''"
    by (auto simp: init_steps_def)
  then show "d_nsm d1 = d_nsm d"
  proof cases
    case 1
    with s show ?thesis by (auto simp: memory_step_def bind_eq_Some_conv Let_def split: option.splits)
  next
    case 2
    with s show ?thesis by (auto simp: client_step_def split: if_splits)
  next
    case 3
    with s show ?thesis
      by (auto simp: ring_steps_def ring_step_def listen_step_def tjost_pipe_listen_start_def split: option.splits if_splits)
  next
    case 4
    with s show ?thesis by (auto simp: jack_steps_def signal_steps_def check_step_def)
  next
    case 5
    with s show ?thesis by (auto simp: async_steps_def async_step_def dest!: set_zip_rightD split: if_splits)
  next
    case 6
    with s show ?thesis by (auto simp: lua_step_def bind_eq_Some_conv split: list.splits option.splits)
  next
    case 7
    with s show ?thesis by (simp add: check_step_def)
  qed
qed

lemma init_ok:
  assumes "8 dvd s_area Y" and "s_area Y + area_size \<le> 2 ^ 32" and "length (jack_sets Y) = 7"
    and "length (uv_asyncs Y) = 3" and "script_contract Y" and "blank (d_host d)"
    and "tjost_init tlsf_env Y argv d = Some (0, d')"
  shows "host_inv (d_host d') \<and> d_tlsf d' \<and> d_client d' \<and> d_lua d' \<and> d_rb_msg d' \<and> d_rb_rtmem d' \<and>
      d_pipe_rx d' = Ring \<and> d_pipe_tx d' = Ring \<and> d_quit d' = Active \<and> d_msg d' = Active \<and> d_rtmem d' = Active \<and>
      d_asio d' = (if uv_asio Y = 0 then Active else d_asio d) \<and>
      (\<exists>ident. tjost_nsm_init (s_osc Y) (s_session Y) argv (d_nsm d) = Some (ident, d_nsm d') \<and> jack_client_open Y ident) \<and>
      jack_ready Y = 0 \<and> (\<forall>x\<in>set (jack_sets Y @ uv_signals Y @ uv_asyncs Y). x = 0)"
proof -
  obtain ident n where nsm: "tjost_nsm_init (s_osc Y) (s_session Y) argv (d_nsm d) = Some (ident, n)"
    and run: "run_steps (init_steps tlsf_env Y ident argv) (d\<lparr>d_nsm := n\<rparr>) = Some (None, d')"
    using assms(7) by (auto simp: tjost_init_def bind_eq_Some_conv split: option.splits)
  have n: "d_nsm d' = n" using init_keeps_nsm [OF run] by simp
  have b: "blank (d_host (d\<lparr>d_nsm := n\<rparr>))" using assms(6) by simp
  from run obtain d1 d2 d3 d4 d5 d6 d7 where
    r: "memory_step Y (d\<lparr>d_nsm := n\<rparr>) = Some (None, d1)" "client_step Y ident d1 = Some (None, d2)" "run_steps (jack_steps Y) d2 = Some (None, d3)"
      "run_steps (ring_steps tlsf_env Y) d3 = Some (None, d4)" "run_steps (signal_steps Y) d4 = Some (None, d5)"
      "run_steps (async_steps Y) d5 = Some (None, d6)" "lua_step Y argv d6 = Some (None, d7)"
      "check_step (jack_ready Y \<noteq> 0) ''could not activate jack client'' d7 = Some (None, d')"
    unfolding init_steps_def run_steps_cons run_steps_None by auto
  note m = memory_step_run [OF assms(1,2) r(1) b]
  obtain t where t: "d_host d1 = (d_host d)\<lparr>tlsf := t, chunk_at := (chunk_at (d_host d))(s_chunk Y :=
      \<lparr>ch_size = of_nat area_size, ch_area = s_area Y, ch_pool = Some (s_area Y + 6536)\<rparr>),
      rtmem_chunks := [s_chunk Y], rtmem_sum := of_nat area_size\<rparr>"
    "tlsf_wf t" "tlsf_used t = Map.empty" "tlsf_pools t = {s_area Y + 6528}" using m(1) by auto
  have d2: "d2 = d1\<lparr>d_client := True\<rparr>" "jack_client_open Y ident" using r(2) by (auto simp: client_step_def split: if_splits)
  have d3: "d3 = d2" by (rule jack_steps_check [OF r(3)])
  note g = ring_steps_run [OF r(4)]
  have d5: "d5 = d4" by (rule signal_steps_check [OF r(5)])
  note a = async_steps_run [OF assms(4) r(6)]
  obtain rx tx mb rt where h4: "d_host d4 = (d_host d1)\<lparr>pipe_uplink_rx := rx, pipe_uplink_tx := tx, rb_msg := mb, rb_rtmem := rt\<rparr>"
    "circ_ok mb" using g(1) d2 d3 by auto
  have "queue_of (d_host d4) = queue_of (d_host d)" by (simp add: h4 t(1) queue_of_def fun_eq_iff split: option.split)
  then have q: "\<forall>i. queue_of (d_host d4) i = []" using assms(6) by (simp add: blank_def)
  have i: "host_inv (d_host d4)"
    by (rule blank_host_inv [where c = "s_chunk Y" and b = "s_area Y + 6528"])
      (use assms(6) t q in \<open>simp_all add: h4(1,2) blank_def del: queue_of_simps\<close>)
  have "d' = d7" "jack_ready Y = 0" using r(8) by (auto simp: check_step_def split: if_splits)
  moreover have "host_inv (d_host d6)" using i a d5 by simp
  then obtain h where h: "host_inv h" "d7 = d6\<lparr>d_host := h, d_lua := True\<rparr>"
    using lua_step_run [OF r(7) assms(5)] by blast
  moreover have "\<forall>x\<in>set (jack_sets Y @ uv_signals Y @ uv_asyncs Y). x = 0"
    using jack_steps_zero [OF assms(3) r(3)] signal_steps_zero [OF r(5)] a by auto
  moreover have "d_client d4" "d_tlsf d4" using g(4,5) d2(1) d3 m(2) by simp_all
  moreover have "d_asio d4 = (if uv_asio Y = 0 then Active else d_asio d)" using g(7) d2(1) d3 m(3) by (cases d, cases d1) simp
  ultimately show ?thesis
    using g(2,3,8,9) a d2(2) d5 nsm n by simp
qed


text \<open>A machine on which every call succeeds and the script does nothing.\<close>

definition quiet_system :: "circ system" where
  "quiet_system = \<lparr>s_area = 65536, s_chunk = 4096, s_memory = blank_memory, s_osc = osc_ref,
     s_session = \<lparr>ns_url = None, ns_init = 0, ns_pid = 1, ns_rounds = []\<rparr>, jack_client_open = (\<lambda>ident. True),
     jack_sets = [0, 0, 0, 0, 0, 0, 0], jack_ready = 0, uv_asio = 0, uv_signals = [0, 0, 0, 0, 0, 0], uv_asyncs = [0, 0, 0],
     eina_list = True, lua_newstate = (\<lambda>h. Some (Some h)), lua_script = (\<lambda>argv h. Some (None, h)), lua_close = Some,
     s_uv_err_name = (\<lambda>e. ''error''), signal_stops = [0, 0, 0]\<rparr>"

definition static_host :: "(control, circ) host" where
  "static_host = \<lparr>tlsf = control_construct 65536 blank_memory, used = 0, rtmem_sum = 0, rtmem_flag = 0, rtmem_sends = 0,
     rtmem_chunks = [], chunk_at = (\<lambda>a. \<lparr>ch_size = 0, ch_area = 0, ch_pool = None\<rparr>),
     rb_rtmem = \<lparr>c_buf = [0], c_rp = 0, c_wp = 0\<rparr>, rb_msg = \<lparr>c_buf = [0], c_rp = 0, c_wp = 0\<rparr>, msg_sends = 0, queue = [],
     modules = [], uplinks = [], module_at = (\<lambda>m. new_module), pipe_uplink_tx_count = 0,
     pipe_uplink_tx = \<lparr>c_buf = [0], c_rp = 0, c_wp = 0\<rparr>, pipe_uplink_rx = \<lparr>c_buf = [0], c_rp = 0, c_wp = 0\<rparr>,
     tx_flushes = 0, last_frame = 0\<rparr>"

definition static_daemon :: "circ daemon" where
  "static_daemon = \<lparr>d_host = static_host, d_tlsf = False, d_client = False, d_lua = False, d_arr = False, d_rb_msg = False,
     d_rb_rtmem = False, d_pipe_rx = No_Ring, d_pipe_tx = No_Ring, d_asio = Zeroed, d_quit = Zeroed, d_msg = Zeroed, d_rtmem = Zeroed, d_nsm = nsm0, d_err = []\<rparr>"

lemma quiet_system_ok: "8 dvd s_area quiet_system" "s_area quiet_system + area_size \<le> 2 ^ 32" "length (jack_sets quiet_system) = 7"
  "length (uv_asyncs quiet_system) = 3" "script_contract quiet_system" "blank (d_host static_daemon)"
  by (simp_all add: quiet_system_def area_size_def script_contract_def static_daemon_def static_host_def blank_def
      queue_of_def new_module_def split: option.split)

lemma static_startup:
  obtains d where "tjost_init tlsf_env quiet_system [''tjost'', ''dir/a.lua''] static_daemon = Some (0, d)"
    "queue (d_host d) = []" "tlsf_live (tlsf (d_host d)) = Map.empty"
proof -
  obtain t where t: "tlsf_create_with_pool 65536 0x1000000 blank_memory = Some t" "tlsf_used t = Map.empty"
    by (rule start_heap)
  then have l: "tlsf_live t = Map.empty" by (auto simp: tlsf_live_def fun_eq_iff)
  obtain n where n: "tjost_nsm_init osc_ref \<lparr>ns_url = None, ns_init = 0, ns_pid = 1, ns_rounds = []\<rparr>
      [''tjost'', ''dir/a.lua''] nsm0 = Some (''a.lua'', n)"
    by (simp add: tjost_nsm_init_def Let_def file_name_def)
  let ?d = "static_daemon\<lparr>d_nsm := n\<rparr>"
  from t have m: "\<exists>d. memory_step quiet_system ?d = Some (None, d) \<and> tlsf (d_host d) = t \<and> queue (d_host d) = []"
    by (simp add: memory_step_def quiet_system_def area_size_def tjost_map_memory_chunk_def Let_def static_daemon_def static_host_def)
  have c: "\<exists>r. rb_create circ_ops n = Some r" for n by (simp add: circ_ops_def)
  then obtain r1 r2 where r: "rb_create circ_ops 65536 = Some r1" "rb_create circ_ops 97 = Some r2" by blast
  from m obtain d where d: "memory_step quiet_system ?d = Some (None, d)" "tlsf (d_host d) = t" "queue (d_host d) = []"
    by blast
  moreover have "d_nsm static_daemon = nsm0" by (simp add: static_daemon_def)
  ultimately have "\<exists>d. tjost_init tlsf_env quiet_system [''tjost'', ''dir/a.lua''] static_daemon = Some (0, d) \<and>
      queue (d_host d) = [] \<and> tlsf (d_host d) = t"
    by (simp add: tjost_init_def init_steps_def client_step_def jack_steps_def jack_messages_def check_step_def
        ring_steps_def ring_step_def tjost_pipe_init_def r listen_step_def tjost_pipe_listen_start_def signal_steps_def
        async_steps_def async_step_def uv_error_def lua_step_def quiet_system_def n)
  with l show thesis using that by auto
qed


section \<open>Shutdown\<close>

text \<open>C38. Shutdown. Where Lua has given back all memory but the queued events, \<open>_tjost_deinit\<close> on a running
  host closes every handle once, frees both rings and every event and takes away every pool, none of which trips an
  assertion: at the end no block is in use, no pool is left and the counter is 0.\<close>
theorem shutdown_correct:
  assumes "d_lua d" and "d_tlsf d" and "d_rtmem d = Active" and "d_msg d = Active" and "d_quit d = Active"
    and "d_asio d = Active" and "d_pipe_rx d = Ring \<and> d_pipe_tx d = Ring" and "lua_close Y (d_host d) = Some h" and "host_inv h"
    and "dom (tlsf_live (tlsf h)) = owned (queue h)" and "\<not> nsm_freed (d_nsm d)"
  shows "\<exists>d'. tjost_deinit tlsf_env Y d = Some d' \<and> Some (d_nsm d') = tjost_nsm_deinit (d_nsm d) \<and> d_rtmem d' = Closed \<and> d_msg d' = Closed \<and> d_quit d' = Closed \<and>
    d_asio d' = Closed \<and> d_pipe_rx d' = Freed_Ring \<and> d_pipe_tx d' = Freed_Ring \<and> queue (d_host d') = [] \<and> tlsf_live (tlsf (d_host d')) = Map.empty \<and>
    tlsf_free_blocks (tlsf (d_host d')) = Map.empty \<and> used (d_host d') = 0 \<and> rtmem_chunks (d_host d') = []"
proof -
  have ok: "host_wf circ_ok tlsf_live tlsf_wf h" "used_exact tlsf_live h" "pools_listed h"
    using assms(9) by (simp_all add: host_inv_def)
  let ?h1 = "clear_events tlsf_env None (queue h) h"
  note c = tjost_env.clear_events_spec [OF tlsf_tjost_env ok(1), of None "queue h"]
  have q1: "queue_of ?h1 None = []" using c by simp
  have l1: "tlsf_live (tlsf ?h1) = Map.empty" using c assms(10) by (auto simp: restrict_map_def fun_eq_iff domIff)
  have "tlsf_used (tlsf ?h1) b = None" for b using fun_cong [OF l1, of "b + 16"] by simp
  then have u1: "tlsf_used (tlsf ?h1) = Map.empty" by auto
  have w1: "tlsf_wf (tlsf ?h1)" using c by (simp add: host_wf_def)
  have p1: "dom (tlsf_free_blocks (tlsf ?h1)) = tlsf_pools (tlsf h)"
    using unused_first [OF w1 u1] clear_events_pools [OF ok(1), of None "queue h"] by auto
  obtain bs where bs: "map (\<lambda>a. ch_pool (chunk_at ?h1 a)) (rtmem_chunks h) = map (\<lambda>b. Some (b + 8)) bs" "distinct bs"
    "set bs = dom (tlsf_free_blocks (tlsf ?h1))" using ok(3) p1 by (auto simp: pools_listed_def)
  let ?h2 = "tjost_free_memory tlsf_env ?h1"
  have h2: "tlsf_used (tlsf ?h2) = Map.empty" "tlsf_free_blocks (tlsf ?h2) = Map.empty" "rtmem_chunks ?h2 = []"
    "queue_of ?h2 = queue_of ?h1" "used ?h2 = used ?h1"
    using free_chunks_spec [OF w1 u1 bs] by (simp_all add: tjost_free_memory_def Let_def)
  have "used ?h1 = 0" using c ok(2) l1 by (simp add: used_exact_def used_ok_def)
  moreover have "queue ?h2 = []" using h2(4) q1 by (metis queue_of_simps(1))
  moreover have "tlsf_live (tlsf ?h2) = Map.empty" using h2(1) by (auto simp: tlsf_live_def fun_eq_iff)
  moreover obtain n where "tjost_nsm_deinit (d_nsm d) = Some n"
    using nsm_deinit_Some [OF assms(11)] by blast
  ultimately show ?thesis
    using assms(1-8) h2(2,3,5)
    by (simp add: tjost_deinit_def tjost_lua_deinit_def uv_close_def tjost_pipe_listen_stop_def tjost_pipe_deinit_def Let_def)
qed

theorem shutdown_correct_witness:
  "\<exists>d d'. tjost_init tlsf_env quiet_system [''tjost'', ''dir/a.lua''] static_daemon = Some (0, d) \<and>
     tjost_deinit tlsf_env quiet_system d = Some d' \<and> tlsf_free_blocks (tlsf (d_host d')) = Map.empty"
proof -
  obtain d where d: "tjost_init tlsf_env quiet_system [''tjost'', ''dir/a.lua''] static_daemon = Some (0, d)"
    "queue (d_host d) = []" "tlsf_live (tlsf (d_host d)) = Map.empty" by (rule static_startup)
  note i = init_ok [OF quiet_system_ok d(1)]
  have c: "lua_close quiet_system (d_host d) = Some (d_host d)" "uv_asio quiet_system = 0" by (simp_all add: quiet_system_def)
  have "dom (tlsf_live (tlsf (d_host d))) = owned (queue (d_host d))" using d by simp
  moreover have f: "\<not> nsm_freed (d_nsm d)"
    using i nsm_init_local [of "s_session quiet_system"] by (fastforce simp: quiet_system_def static_daemon_def nsm0_def)
  ultimately obtain d' where "tjost_deinit tlsf_env quiet_system d = Some d'" "tlsf_free_blocks (tlsf (d_host d')) = Map.empty"
    using shutdown_correct [of d quiet_system "d_host d"] i c f by auto
  with d(1) show ?thesis by blast
qed

section \<open>Where cleaning up is undefined\<close>

lemma memory_step_keeps: "memory_step Y d = Some (e, d1) \<Longrightarrow> d_rtmem d1 = d_rtmem d \<and> d_asio d1 = d_asio d"
  by (auto simp: memory_step_def bind_eq_Some_conv Let_def split: option.splits)

lemma client_step_keeps: "client_step Y ident d = Some (e, d1) \<Longrightarrow> d_rtmem d1 = d_rtmem d \<and> d_asio d1 = d_asio d"
  by (auto simp: client_step_def split: if_splits)

lemma ring_steps_keep:
  "s \<in> set (ring_steps E Y) \<Longrightarrow> s d = Some (e, d1) \<Longrightarrow> d_rtmem d1 = d_rtmem d \<and> (uv_asio Y \<noteq> 0 \<longrightarrow> d_asio d1 = d_asio d)"
  by (auto simp: ring_steps_def ring_step_def listen_step_def tjost_pipe_listen_start_def split: option.splits if_splits)

lemma check_steps_keep:
  "s \<in> set (jack_steps Y) \<union> set (signal_steps Y) \<Longrightarrow> s d = Some (e, d1) \<Longrightarrow> d1 = d"
  by (auto simp: jack_steps_def signal_steps_def check_step_def)

lemma async_steps_keep: "s \<in> set (async_steps Y) \<Longrightarrow> s d = Some (e, d1) \<Longrightarrow> d_asio d1 = d_asio d"
  by (auto simp: async_steps_def async_step_def dest!: set_zip_rightD split: if_splits)

lemma lua_step_keeps: "lua_step Y argv d = Some (e, d1) \<Longrightarrow> d_asio d1 = d_asio d"
  by (auto simp: lua_step_def bind_eq_Some_conv split: list.splits option.splits)

lemma deinit_handles:
  assumes "tjost_deinit E Y d = Some d'"
  shows "d_rtmem d = Active" "d_asio d = Active"
  using assms by (auto simp: tjost_deinit_def tjost_lua_deinit_def tjost_pipe_listen_stop_def uv_close_def Let_def
      bind_eq_Some_conv split: if_splits)

lemma early_failure:
  assumes "d_rtmem d = Zeroed" and s: "tjost_nsm_init (s_osc Y) (s_session Y) argv (d_nsm d) = Some (ident, n)"
    and r: "run_steps (memory_step Y # client_step Y ident # jack_steps Y @ ring_steps E Y @ signal_steps Y) (d\<lparr>d_nsm := n\<rparr>) =
      Some (Some msg, d1)"
  shows "(\<exists>d2. tjost_init E Y argv d = Some (-1, d2)) \<and> tjost_main E Y argv loop d = None"
proof -
  have "d_rtmem d1 = d_rtmem (d\<lparr>d_nsm := n\<rparr>)"
  proof (rule run_steps_keeps [where f = d_rtmem, OF _ r])
    fix s d e d1 assume "s \<in> set (memory_step Y # client_step Y ident # jack_steps Y @ ring_steps E Y @ signal_steps Y)"
      "s d = Some (e, d1)"
    then show "d_rtmem d1 = d_rtmem d"
      using memory_step_keeps [of Y d e d1] client_step_keeps [of Y ident d e d1] ring_steps_keep [of s E Y d e d1]
        check_steps_keep [of s Y d e d1] by auto
  qed
  then have z: "d_rtmem d1 = Zeroed" using assms(1) by simp
  let ?pre = "memory_step Y # client_step Y ident # jack_steps Y @ ring_steps E Y @ signal_steps Y"
  have "init_steps E Y ident argv = ?pre @ async_steps Y @ [lua_step Y argv, check_step (jack_ready Y \<noteq> 0) ''could not activate jack client'']"
    by (simp add: init_steps_def)
  then have "run_steps (init_steps E Y ident argv) (d\<lparr>d_nsm := n\<rparr>) = Some (Some msg, d1)"
    using r by (simp only: run_steps_append) simp
  then have i: "tjost_init E Y argv d = Some (-1, d1\<lparr>d_err := d_err d1 @ [''FAIL: '' @ msg]\<rparr>)"
    by (simp add: tjost_init_def s)
  have "tjost_deinit E Y d2 = None" if "d_rtmem d2 = Zeroed" for d2
    using deinit_handles(1) [of E Y d2] that by (cases "tjost_deinit E Y d2") auto
  then show ?thesis using z by (simp add: tjost_main_def i)
qed

lemma unlistened:
  assumes "d_asio d = Zeroed" and "uv_asio Y \<noteq> 0" and i: "tjost_init E Y argv d = Some (0, d')"
  shows "tjost_deinit E Y d' = None"
proof -
  obtain ident n where r: "run_steps (init_steps E Y ident argv) (d\<lparr>d_nsm := n\<rparr>) = Some (None, d')"
    using i by (auto simp: tjost_init_def bind_eq_Some_conv split: option.splits)
  have "d_asio d' = d_asio (d\<lparr>d_nsm := n\<rparr>)"
  proof (rule run_steps_keeps [where f = d_asio, OF _ r])
    fix s d e d1 assume "s \<in> set (init_steps E Y ident argv)" and s: "s d = Some (e, d1)"
    then consider "s = memory_step Y" | "s = client_step Y ident" | "s \<in> set (ring_steps E Y)"
      | "s \<in> set (jack_steps Y) \<union> set (signal_steps Y)" | "s \<in> set (async_steps Y)" | "s = lua_step Y argv"
      | "s = check_step (jack_ready Y \<noteq> 0) ''could not activate jack client''"
      by (auto simp: init_steps_def)
    then show "d_asio d1 = d_asio d"
      using s memory_step_keeps [of Y d e d1] client_step_keeps [of Y ident d e d1] ring_steps_keep [of s E Y d e d1]
        check_steps_keep [of s Y d e d1] async_steps_keep [of s Y d e d1] lua_step_keeps [of Y argv d e d1] assms(2)
      by cases (auto simp: check_step_def)
  qed
  then show ?thesis using deinit_handles(2) [of E Y d'] assms(1) by (cases "tjost_deinit E Y d'") auto
qed

text \<open>C39. Failed starts. When \<open>_tjost_init\<close> fails before the asynchronous handles exist (no memory, no JACK
  client, a callback refused, a signal handle refused), \<open>main\<close> calls \<open>_tjost_deinit\<close>, which closes handles
  that were never initialised: undefined. Where the handle of the uplink pipe could not be initialised
  the start succeeds all the same, and shutting down is undefined. Started without a script \<open>main\<close>
  searches a NULL string.\<close>
theorem startup_failure_undefined:
  assumes "d_rtmem d = Zeroed" and "d_asio d = Zeroed"
  shows "(tjost_nsm_init (s_osc Y) (s_session Y) argv (d_nsm d) = Some (ident, n) \<and>
      run_steps (memory_step Y # client_step Y ident # jack_steps Y @ ring_steps tlsf_env Y @ signal_steps Y) (d\<lparr>d_nsm := n\<rparr>) =
        Some (Some msg, d1) \<longrightarrow>
      (\<exists>d2. tjost_init tlsf_env Y argv d = Some (-1, d2)) \<and> tjost_main tlsf_env Y argv loop d = None) \<and>
    (uv_asio Y \<noteq> 0 \<and> tjost_init tlsf_env Y argv d = Some (0, d') \<longrightarrow> tjost_deinit tlsf_env Y d' = None) \<and>
    tjost_main tlsf_env Y [prog] loop d = None"
proof -
  have "tjost_main tlsf_env Y [prog] loop d = None"
    by (simp add: tjost_main_def tjost_init_def tjost_nsm_init_def)
  then show ?thesis using early_failure [OF assms(1)] unlistened [OF assms(2)] by blast
qed

theorem startup_failure_undefined_witness:
  "tjost_main tlsf_env (quiet_system\<lparr>s_area := 0\<rparr>) [''tjost'', ''a.lua''] Some static_daemon = None"
proof -
  let ?Y = "quiet_system\<lparr>s_area := 0\<rparr>"
  have "d_rtmem static_daemon = Zeroed" "d_asio static_daemon = Zeroed" by (simp_all add: static_daemon_def)
  moreover obtain n where "tjost_nsm_init (s_osc ?Y) (s_session ?Y) [''tjost'', ''a.lua''] (d_nsm static_daemon) = Some (''a.lua'', n)"
    by (simp add: tjost_nsm_init_def Let_def file_name_def quiet_system_def)
  moreover have "run_steps (memory_step ?Y # ss) (static_daemon\<lparr>d_nsm := n\<rparr>) =
      Some (Some ''could not allocate RT memory chunk'', static_daemon\<lparr>d_nsm := n\<rparr>)" for ss
    by (simp add: memory_step_def tjost_map_memory_chunk_def)
  ultimately show ?thesis
    using startup_failure_undefined [of static_daemon ?Y] by blast
qed

end
