(* ===== verification/Jack_Notify.thy ===== *)
theory Jack_Notify
  imports Uplink Pipe_Modules Osc
begin

text \<open>
  The event loop side of the uplink (\<open>tjost_uplink.c\<close>): the requests that come out of the transmit pipe
  and act on the JACK graph, the replies to them and the notifications of JACK, which go into the receive
  pipe. What JACK answers is the record \<open>jack\<close>.
\<close>

section \<open>State\<close>

datatype jack_call = Jack_Connect string string | Jack_Disconnect string string

record ('t, 'r) uplink =
  ul_host :: "('t, 'r) host"
  ul_calls :: "jack_call list"
  ul_err :: "string list"

text \<open>Arrays of names end with NULL or are NULL themselves; ports are opaque, \<open>None\<close> is NULL.\<close>

record jack =
  jack_get_ports :: "string list option"
  jack_port_by_name :: "string \<Rightarrow> nat option"
  jack_port_get_all_connections :: "nat option \<Rightarrow> string list option"
  jack_port_by_id :: "32 word \<Rightarrow> nat option"
  jack_port_name :: "nat option \<Rightarrow> string option"

section \<open>Replies\<close>

definition tjost_uplink_rx_push ::
  "('t, 'r) env \<Rightarrow> addr option \<Rightarrow> byte list \<Rightarrow> ('t, 'r) uplink \<Rightarrow> ('t, 'r) uplink" where
  "tjost_uplink_rx_push E m buf u =
     (let (err, r) = tjost_pipe_produce (ring_api E) (junk E) (pipe_uplink_rx (ul_host u)) m 0 buf;
          u1 = u\<lparr>ul_host := (ul_host u)\<lparr>pipe_uplink_rx := r\<rparr>\<rparr>
      in if err \<noteq> 0 then u1\<lparr>ul_err := ul_err u @ [''tjost_uplink_rx_push: tjost_pipe_produce error'']\<rparr> else u1)"

text \<open>The push behind \<open>if(ptr)\<close>.\<close>

definition push_written ::
  "('t, 'r) env \<Rightarrow> addr option \<Rightarrow> byte list option \<Rightarrow> ('t, 'r) uplink \<Rightarrow> ('t, 'r) uplink" where
  "push_written E m w u = (case w of None \<Rightarrow> u | Some buf \<Rightarrow> tjost_uplink_rx_push E m buf u)"

text \<open>
  The format of a reply is written byte by byte through a plain pointer: nothing compares it with the
  end of \<open>buf_rx\<close>.
\<close>

definition fmt_bytes :: "string \<Rightarrow> byte list" where
  "fmt_bytes f =
     (let bs = bytes_of_string (CHR '','' # f) @ [0] in bs @ replicate ((4 - length bs mod 4) mod 4) 0)"

definition write_fmt :: "nat \<Rightarrow> byte list option \<Rightarrow> string \<Rightarrow> byte list option" where
  "write_fmt cap w f =
     do { b \<leftarrow> w; if length b + length (fmt_bytes f) \<le> cap then Some (b @ fmt_bytes f) else None }"

definition put_strings :: "osc_ops \<Rightarrow> string list \<Rightarrow> byte list option \<Rightarrow> byte list option" where
  "put_strings Q names w = fold (\<lambda>s w. osc_set_arg Q TJOST_BUF_SIZE w (Osc_String s)) names w"

definition reply_path :: "osc_ops \<Rightarrow> string \<Rightarrow> byte list option" where
  "reply_path Q path = osc_set_path Q TJOST_BUF_SIZE (Some []) path"

definition uplink_ports ::
  "osc_ops \<Rightarrow> jack \<Rightarrow> ('t, 'r) env \<Rightarrow> addr \<Rightarrow> ('t, 'r) uplink \<Rightarrow> ('t, 'r) uplink option" where
  "uplink_ports Q K E m u =
     (case jack_get_ports K of
        Some ports \<Rightarrow>
          do { b \<leftarrow> write_fmt TJOST_BUF_SIZE (reply_path Q ''/jack/ports'') (map (\<lambda>n. CHR ''s'') ports);
               Some (push_written E (Some m) (put_strings Q ports (Some b)) u) }
      | None \<Rightarrow>
          Some (push_written E (Some m) (osc_set_fmt Q TJOST_BUF_SIZE (reply_path Q ''/jack/ports'') []) u))"

definition uplink_connections ::
  "osc_ops \<Rightarrow> jack \<Rightarrow> ('t, 'r) env \<Rightarrow> addr \<Rightarrow> byte list \<Rightarrow> ('t, 'r) uplink \<Rightarrow> ('t, 'r) uplink option" where
  "uplink_connections Q K E m buf u =
     (let port_name = fst (osc_get_string Q buf);
          port = jack_port_by_name K port_name
      in case jack_port_get_all_connections K port of
        Some connections \<Rightarrow>
          do { b \<leftarrow> write_fmt TJOST_BUF_SIZE (reply_path Q ''/jack/connections'')
                 (CHR ''s'' # map (\<lambda>n. CHR ''s'') connections);
               Some (push_written E (Some m) (put_strings Q (port_name # connections) (Some b)) u) }
      | None \<Rightarrow>
          Some (push_written E (Some m)
            (put_strings Q [port_name] (osc_set_fmt Q TJOST_BUF_SIZE (reply_path Q ''/jack/connections'') ''s'')) u))"

definition uplink_connect :: "osc_ops \<Rightarrow> byte list \<Rightarrow> ('t, 'r) uplink \<Rightarrow> ('t, 'r) uplink" where
  "uplink_connect Q buf u =
     (let (port_a, ptr) = osc_get_string Q buf; (port_b, rest) = osc_get_string Q ptr
      in u\<lparr>ul_calls := ul_calls u @ [Jack_Connect port_a port_b]\<rparr>)"

definition uplink_disconnect :: "osc_ops \<Rightarrow> byte list \<Rightarrow> ('t, 'r) uplink \<Rightarrow> ('t, 'r) uplink" where
  "uplink_disconnect Q buf u =
     (let (port_a, ptr) = osc_get_string Q buf; (port_b, rest) = osc_get_string Q ptr
      in u\<lparr>ul_calls := ul_calls u @ [Jack_Disconnect port_a port_b]\<rparr>)"

section \<open>Requests\<close>

definition uplink_methods :: "(string option \<times> string option) list" where
  "uplink_methods =
     [(Some ''/jack/connect'', Some ''ss''), (Some ''/jack/disconnect'', Some ''ss''),
      (Some ''/jack/ports'', Some ''''), (Some ''/jack/connections'', Some ''s'')]"

text \<open>Every method finds the host through \<open>tev->module\<close>.\<close>

definition uplink_call ::
  "osc_ops \<Rightarrow> jack \<Rightarrow> ('t, 'r) env \<Rightarrow> addr option \<Rightarrow> nat \<Rightarrow> byte list \<Rightarrow> ('t, 'r) uplink \<Rightarrow>
   ('t, 'r) uplink option" where
  "uplink_call Q K E module k buf u =
     (case module of None \<Rightarrow> None
      | Some m \<Rightarrow>
          if k = 0 then Some (uplink_connect Q buf u)
          else if k = 1 then Some (uplink_disconnect Q buf u)
          else if k = 2 then uplink_ports Q K E m u
          else uplink_connections Q K E m buf u)"

fun uplink_calls ::
  "osc_ops \<Rightarrow> jack \<Rightarrow> ('t, 'r) env \<Rightarrow> addr option \<Rightarrow> osc_call list \<Rightarrow> ('t, 'r) uplink \<Rightarrow>
   ('t, 'r) uplink option" where
  "uplink_calls Q K E module [] u = Some u"
| "uplink_calls Q K E module (Call t k path fmt buf # cs) u =
     do { u1 \<leftarrow> uplink_call Q K E module k buf u; uplink_calls Q K E module cs u1 }"
| "uplink_calls Q K E module (c # cs) u = uplink_calls Q K E module cs u"

text \<open>
  \<open>tjost_uplink_tx_drain_alloc\<close> answers its static buffer, as the \<open>_alloc\<close> of the output modules does.
\<close>

definition tjost_uplink_tx_drain_sched ::
  "osc_ops \<Rightarrow> jack \<Rightarrow> ('t, 'r) env \<Rightarrow> tev_hdr \<Rightarrow> unit \<Rightarrow> byte list \<times> ('t, 'r) uplink \<Rightarrow>
   (bool \<times> byte list \<times> ('t, 'r) uplink) option" where
  "tjost_uplink_tx_drain_sched Q K E tev p S =
     do { u \<leftarrow> uplink_calls Q K E (h_module tev)
            (osc_dispatch_method Q (h_time tev) (take (h_size tev) (fst S)) uplink_methods) (snd S);
          Some (False, fst S, u) }"

definition tjost_uplink_tx_drain_alloc ::
  "tev_hdr \<Rightarrow> byte list \<times> ('t, 'r) uplink \<Rightarrow> (unit \<times> byte list \<times> ('t, 'r) uplink) option" where
  "tjost_uplink_tx_drain_alloc = static_alloc"

text \<open>The event loop's callback on the transmit pipe; \<open>b\<close> is \<open>buf_tx\<close>.\<close>

definition uplink_asio ::
  "osc_ops \<Rightarrow> jack \<Rightarrow> ('t, 'r) env \<Rightarrow> byte list \<times> ('t, 'r) uplink \<Rightarrow> (byte list \<times> ('t, 'r) uplink) option" where
  "uplink_asio Q K E S =
     do { (err, r, b, u) \<leftarrow> tjost_pipe_consume (ring_api E) tjost_uplink_tx_drain_alloc static_store
            (tjost_uplink_tx_drain_sched Q K E) (pipe_uplink_tx (ul_host (snd S))) S;
          Some (b, u\<lparr>ul_host := (ul_host u)\<lparr>pipe_uplink_tx := r\<rparr>\<rparr>) }"

section \<open>Notifications\<close>

definition notify ::
  "osc_ops \<Rightarrow> ('t, 'r) env \<Rightarrow> string \<Rightarrow> string \<Rightarrow> osc_arg list \<Rightarrow> ('t, 'r) uplink \<Rightarrow> ('t, 'r) uplink" where
  "notify Q E path fmt args = push_written E None (osc_set_vararg Q TJOST_BUF_SIZE path fmt args)"

definition tjost_client_registration ::
  "osc_ops \<Rightarrow> ('t, 'r) env \<Rightarrow> string \<Rightarrow> int \<Rightarrow> ('t, 'r) uplink \<Rightarrow> ('t, 'r) uplink" where
  "tjost_client_registration Q E name state =
     (if state \<noteq> 0 then notify Q E ''/jack/client/registration'' ''sT'' [Osc_String name]
      else notify Q E ''/jack/client/registration'' ''sF'' [Osc_String name])"

text \<open>A name that is NULL is undefined behaviour in \<open>osc_set_vararg\<close>.\<close>

definition tjost_port_registration ::
  "osc_ops \<Rightarrow> jack \<Rightarrow> ('t, 'r) env \<Rightarrow> 32 word \<Rightarrow> int \<Rightarrow> ('t, 'r) uplink \<Rightarrow> ('t, 'r) uplink option" where
  "tjost_port_registration Q K E port_id state u =
     (case jack_port_by_id K port_id of None \<Rightarrow> Some u
      | Some port \<Rightarrow>
          do { name \<leftarrow> jack_port_name K (Some port);
               Some (if state \<noteq> 0 then notify Q E ''/jack/port/registration'' ''sT'' [Osc_String name] u
                     else notify Q E ''/jack/port/registration'' ''sF'' [Osc_String name] u) })"

definition tjost_port_connect ::
  "osc_ops \<Rightarrow> jack \<Rightarrow> ('t, 'r) env \<Rightarrow> 32 word \<Rightarrow> 32 word \<Rightarrow> int \<Rightarrow> ('t, 'r) uplink \<Rightarrow> ('t, 'r) uplink option" where
  "tjost_port_connect Q K E id_a id_b state u =
     do { name_a \<leftarrow> jack_port_name K (jack_port_by_id K id_a);
          name_b \<leftarrow> jack_port_name K (jack_port_by_id K id_b);
          Some (if state \<noteq> 0 then notify Q E ''/jack/port/connect'' ''ssT'' [Osc_String name_a, Osc_String name_b] u
                else notify Q E ''/jack/port/connect'' ''ssF'' [Osc_String name_a, Osc_String name_b] u) }"

definition tjost_port_rename ::
  "osc_ops \<Rightarrow> ('t, 'r) env \<Rightarrow> 32 word \<Rightarrow> string \<Rightarrow> string \<Rightarrow> ('t, 'r) uplink \<Rightarrow> ('t, 'r) uplink" where
  "tjost_port_rename Q E port old_name new_name =
     notify Q E ''/jack/graph/rename'' ''iss'' [Osc_Int32 port, Osc_String old_name, Osc_String new_name]"

definition tjost_graph_order ::
  "osc_ops \<Rightarrow> ('t, 'r) env \<Rightarrow> ('t, 'r) uplink \<Rightarrow> int \<times> ('t, 'r) uplink" where
  "tjost_graph_order Q E u = (0, notify Q E ''/jack/graph/order'' '''' [] u)"

text \<open>With \<open>HAS_METADATA_API\<close>: the branch of a deleted event type holds only a comment.\<close>

definition tjost_property_change ::
  "64 word \<Rightarrow> string \<Rightarrow> bool \<Rightarrow> ('t, 'r) uplink \<Rightarrow> ('t, 'r) uplink" where
  "tjost_property_change uuid key deleted u = u"

section \<open>What requests mean\<close>

datatype request = Connect string string | Disconnect string string | Ports | Connections string

fun request_args :: "request \<Rightarrow> string list" where
  "request_args (Connect a b) = [a, b]"
| "request_args (Disconnect a b) = [a, b]"
| "request_args Ports = []"
| "request_args (Connections p) = [p]"

fun request_path :: "request \<Rightarrow> string" where
  "request_path (Connect a b) = ''/jack/connect''"
| "request_path (Disconnect a b) = ''/jack/disconnect''"
| "request_path Ports = ''/jack/ports''"
| "request_path (Connections p) = ''/jack/connections''"

definition string_msg :: "string \<Rightarrow> string list \<Rightarrow> byte list" where
  "string_msg path ss = osc_msg path (map (\<lambda>s. CHR ''s'') ss) (map Osc_String ss)"

definition request_bytes :: "request \<Rightarrow> byte list" where
  "request_bytes q = string_msg (request_path q) (request_args q)"

text \<open>The calls of JACK a request makes, and the strings of its reply.\<close>

fun effect :: "request \<Rightarrow> jack_call list" where
  "effect (Connect a b) = [Jack_Connect a b]"
| "effect (Disconnect a b) = [Jack_Disconnect a b]"
| "effect q = []"

fun names_or_none :: "string list option \<Rightarrow> string list" where
  "names_or_none None = []"
| "names_or_none (Some ns) = ns"

fun reply :: "jack \<Rightarrow> request \<Rightarrow> string list option" where
  "reply K Ports = Some (names_or_none (jack_get_ports K))"
| "reply K (Connections p) =
     Some (p # names_or_none (jack_port_get_all_connections K (jack_port_by_name K p)))"
| "reply K q = None"

definition reply_bytes :: "jack \<Rightarrow> request \<Rightarrow> byte list list" where
  "reply_bytes K q = (case reply K q of None \<Rightarrow> [] | Some ss \<Rightarrow> [string_msg (request_path q) ss])"

definition clean :: "string list \<Rightarrow> bool" where
  "clean ss \<longleftrightarrow> list_all (\<lambda>s. CHR 0x00 \<notin> set s) ss"

lemma clean_simps [simp]:
  "clean []" "clean (s # ss) \<longleftrightarrow> CHR 0x00 \<notin> set s \<and> clean ss"
  by (simp_all add: clean_def)

lemma clean_valid: "clean ss \<Longrightarrow> list_all osc_valid (map Osc_String ss)"
  by (simp add: clean_def list_all_length)

lemma fmt_fits_strings [simp]: "fmt_fits (map (\<lambda>s. CHR ''s'') ss) (map Osc_String ss)"
  by (induction ss) (simp_all add: fmt_fits_def no_data_def)

section \<open>Replies are well-formed messages\<close>

lemma fmt_bytes_tags: "fmt_bytes f = osc_tags f"
proof -
  have "4 - n mod 4 = Suc ((4 - Suc n mod 4) mod 4)" for n :: nat
  proof -
    have "n mod 4 = 0 \<or> n mod 4 = 1 \<or> n mod 4 = 2 \<or> n mod 4 = 3"
      using mod_less_divisor [of 4 n] by linarith
    then show ?thesis by (elim disjE) (simp_all add: mod_Suc)
  qed
  from this [of "Suc (length f)"]
  have "replicate (4 - Suc (length f) mod 4) (0 :: byte) =
      0 # replicate ((4 - Suc (Suc (length f)) mod 4) mod 4) 0" by (simp only: replicate_Suc)
  then show ?thesis by (simp add: fmt_bytes_def osc_tags_def osc_str_def Let_def)
qed

lemma write_fmt_put: "write_fmt cap (Some b) f = put cap (Some b) (osc_tags f)"
  by (simp add: write_fmt_def fmt_bytes_tags)

context osc_lib
begin

lemma put_strings_put:
  "clean ss \<Longrightarrow> put_strings Q ss (put TJOST_BUF_SIZE (Some []) bs) =
    put TJOST_BUF_SIZE (Some []) (bs @ concat (map osc_enc (map Osc_String ss)))"
  using set_args [of "map Osc_String ss" TJOST_BUF_SIZE bs]
  by (simp add: put_strings_def clean_valid fold_map o_def del: put_Some)

end

end
