(* ===== verification/Jack_Correct.thy ===== *)
theory Jack_Correct
  imports Jack_Notify
begin

text \<open>
  Requests through the uplink: what the callback of the event loop does with the requests that wait in the
  transmit pipe, and what the receive pipe holds afterwards.
\<close>

section \<open>Pushing\<close>

definition push_frame :: "('t, 'r) env \<Rightarrow> addr option \<Rightarrow> byte list \<Rightarrow> frame" where
  "push_frame E m bs = \<lparr>f_stk = junk E, f_module = m, f_time = 0, f_buf = bs\<rparr>"

lemma push_frame_simps [simp]:
  "f_stk (push_frame E m bs) = junk E" "f_module (push_frame E m bs) = m"
  "f_time (push_frame E m bs) = 0" "f_buf (push_frame E m bs) = bs"
  by (simp_all add: push_frame_def)

lemma valid_push_frame: "valid_ptr m \<Longrightarrow> length bs \<le> TJOST_BUF_SIZE \<Longrightarrow> valid_frame (push_frame E m bs)"
  by (simp add: valid_frame_def TJOST_BUF_SIZE_def)

text \<open>The receive pipe of an uplink holds these frames, the rest of the state is that of \<open>v\<close>.\<close>

definition rx_queued ::
  "('r \<Rightarrow> byte list) \<Rightarrow> ('r \<Rightarrow> nat) \<Rightarrow> ('r \<Rightarrow> bool) \<Rightarrow> nat \<Rightarrow> frame list \<Rightarrow> ('t, 'r) uplink \<Rightarrow> ('t, 'r) uplink \<Rightarrow> bool" where
  "rx_queued contents cap rok c fs v u \<longleftrightarrow>
     (\<exists>r. u = v\<lparr>ul_host := (ul_host v)\<lparr>pipe_uplink_rx := r\<rparr>\<rparr> \<and> rok r \<and> cap r = c \<and> contents r = pipe_bytes fs)"

lemma rx_queuedD:
  "rx_queued contents cap rok c fs v u \<Longrightarrow>
   rok (pipe_uplink_rx (ul_host u)) \<and> cap (pipe_uplink_rx (ul_host u)) = c \<and>
   contents (pipe_uplink_rx (ul_host u)) = pipe_bytes fs"
  by (auto simp: rx_queued_def)

lemma rx_queued_calls:
  "rx_queued contents cap rok c fs v u \<Longrightarrow>
   rx_queued contents cap rok c fs (v\<lparr>ul_calls := ul_calls v @ cs\<rparr>) (u\<lparr>ul_calls := ul_calls u @ cs\<rparr>)"
  by (cases v) (auto simp: rx_queued_def)

lemma rx_queued_tx:
  "rx_queued contents cap rok c fs v u \<Longrightarrow>
   rx_queued contents cap rok c fs (v\<lparr>ul_host := (ul_host v)\<lparr>pipe_uplink_tx := r\<rparr>\<rparr>)
     (u\<lparr>ul_host := (ul_host u)\<lparr>pipe_uplink_tx := r\<rparr>\<rparr>)"
  by (cases "ul_host v") (auto simp: rx_queued_def)

context tjost_env
begin

lemma push_queued:
  assumes u: "rx_queued contents cap rok c fs v u" and m: "valid_ptr m" and b: "length bs \<le> TJOST_BUF_SIZE"
    and room: "length (pipe_bytes (fs @ [push_frame E m bs])) \<le> c"
  shows "rx_queued contents cap rok c (fs @ [push_frame E m bs]) v (tjost_uplink_rx_push E m bs u)"
proof -
  note r = rx_queuedD [OF u]
  let ?f = "push_frame E m bs"
  have "sizeof_event + length (f_buf ?f) \<le> rb_write_space (ring_api E) (pipe_uplink_rx (ul_host u))"
    using r room by (simp add: ring.write_space)
  from ring.produce_ok [OF _ valid_push_frame [OF m b] this] r obtain r' where
    r': "tjost_pipe_produce (ring_api E) (junk E) (pipe_uplink_rx (ul_host u)) m 0 bs = (0, r')"
      "rok r'" "cap r' = c" "contents r' = pipe_bytes fs @ frame_bytes ?f" by auto
  with u show ?thesis
    by (auto simp: rx_queued_def tjost_uplink_rx_push_def Let_def frame_bytes_def)
qed

text \<open>A message that does not fit the pipe is reported and lost.\<close>

lemma push_full:
  assumes "rx_queued contents cap rok c fs v u" and "valid_ptr m" and "length bs \<le> TJOST_BUF_SIZE"
    and "c < length (pipe_bytes (fs @ [push_frame E m bs]))"
  shows "tjost_uplink_rx_push E m bs u = u\<lparr>ul_err := ul_err u @ [''tjost_uplink_rx_push: tjost_pipe_produce error'']\<rparr>"
proof -
  note r = rx_queuedD [OF assms(1)]
  have "rb_write_space (ring_api E) (pipe_uplink_rx (ul_host u)) < sizeof_event + length (f_buf (push_frame E m bs))"
    using r assms(4) ring.bounded [of "pipe_uplink_rx (ul_host u)"] by (simp add: ring.write_space)
  from ring.produce_full [OF valid_push_frame [OF assms(2,3)] this]
  show ?thesis by (simp add: tjost_uplink_rx_push_def Let_def)
qed

section \<open>One request\<close>

lemma strings_reply:
  assumes Q: "osc_lib Q" and c: "clean ss" and len: "length (string_msg path ss) \<le> TJOST_BUF_SIZE"
  shows "do { b \<leftarrow> write_fmt TJOST_BUF_SIZE (reply_path Q path) (map (\<lambda>s. CHR ''s'') ss);
              Some (push_written E m (put_strings Q ss (Some b)) u) } =
      Some (tjost_uplink_rx_push E m (string_msg path ss) u)"
    "push_written E m (put_strings Q ss (osc_set_fmt Q TJOST_BUF_SIZE (reply_path Q path) (map (\<lambda>s. CHR ''s'') ss))) u =
      tjost_uplink_rx_push E m (string_msg path ss) u"
proof -
  let ?f = "map (\<lambda>s. CHR ''s'') ss" and ?h = "osc_str path @ osc_tags (map (\<lambda>s. CHR ''s'') ss)"
  have l: "length (osc_str path) + length (osc_tags ?f) \<le> TJOST_BUF_SIZE"
    using len by (simp add: string_msg_def osc_msg_def)
  then have p: "reply_path Q path = Some (osc_str path)"
    by (simp add: reply_path_def osc_lib.set_path [OF Q])
  have "put_strings Q ss (Some ?h) = Some (string_msg path ss)"
    using osc_lib.put_strings_put [OF Q c, of ?h] len l by (simp add: string_msg_def osc_msg_def)
  with p l show
    "do { b \<leftarrow> write_fmt TJOST_BUF_SIZE (reply_path Q path) ?f; Some (push_written E m (put_strings Q ss (Some b)) u) } =
      Some (tjost_uplink_rx_push E m (string_msg path ss) u)"
    "push_written E m (put_strings Q ss (osc_set_fmt Q TJOST_BUF_SIZE (reply_path Q path) ?f)) u =
      tjost_uplink_rx_push E m (string_msg path ss) u"
    by (simp_all add: write_fmt_put push_written_def osc_lib.set_fmt [OF Q])
qed

end

fun request_index :: "request \<Rightarrow> nat" where
  "request_index (Connect a b) = 0"
| "request_index (Disconnect a b) = 1"
| "request_index Ports = 2"
| "request_index (Connections p) = 3"

lemma method_request:
  "method_for uplink_methods (request_path q) (map (\<lambda>s. CHR ''s'') (request_args q)) = Some (request_index q)"
  by (cases q) (simp_all add: method_for_def uplink_methods_def upt_conv_Cons)

text \<open>A request with what JACK answers to it: no NUL in a name, a reply that fits \<open>buf_rx\<close>.\<close>

definition request_ok :: "jack \<Rightarrow> request \<Rightarrow> bool" where
  "request_ok K q \<longleftrightarrow> clean (request_args q) \<and> length (request_bytes q) \<le> TJOST_BUF_SIZE \<and>
     (case reply K q of None \<Rightarrow> True
      | Some ss \<Rightarrow> clean ss \<and> length (string_msg (request_path q) ss) \<le> TJOST_BUF_SIZE)"

definition request_paths_ok :: "osc_ops \<Rightarrow> bool" where
  "request_paths_ok Q \<longleftrightarrow> (\<forall>q. osc_check_path Q (request_path q))"

definition reply_frames :: "('t, 'r) env \<Rightarrow> jack \<Rightarrow> addr \<Rightarrow> request \<Rightarrow> frame list" where
  "reply_frames E K m q = map (push_frame E (Some m)) (reply_bytes K q)"

context tjost_env
begin

lemma request_call:
  assumes Q: "osc_lib Q" and ok: "request_ok K q" and m: "valid_ptr (Some m)"
    and u: "rx_queued contents cap rok c fs v u"
    and room: "length (pipe_bytes (fs @ reply_frames E K m q)) \<le> c"
  shows "\<exists>u'. uplink_call Q K E (Some m) (request_index q)
      (concat (map osc_enc (map Osc_String (request_args q)))) u = Some u' \<and>
    rx_queued contents cap rok c (fs @ reply_frames E K m q) (v\<lparr>ul_calls := ul_calls v @ effect q\<rparr>) u'"
proof (cases "reply K q")
  case None
  have "fst (osc_get_string Q (osc_str a @ osc_str b)) = a"
    "fst (osc_get_string Q (snd (osc_get_string Q (osc_str a @ osc_str b)))) = b"
    if "clean [a, b]" for a b
    using that osc_lib.get_string [OF Q, of a "osc_str b"] osc_lib.get_string [OF Q, of b "[]"] by simp_all
  note g = this
  have "reply_frames E K m q = []" using None by (simp add: reply_frames_def reply_bytes_def)
  moreover have "uplink_call Q K E (Some m) (request_index q)
      (concat (map osc_enc (map Osc_String (request_args q)))) u = Some (u\<lparr>ul_calls := ul_calls u @ effect q\<rparr>)"
    using None ok g by (cases q)
      (simp_all add: uplink_call_def uplink_connect_def uplink_disconnect_def request_ok_def case_prod_beta)
  ultimately show ?thesis using rx_queued_calls [OF u, of "effect q"] by auto
next
  case (Some ss)
  then have c: "clean ss" and len: "length (string_msg (request_path q) ss) \<le> TJOST_BUF_SIZE"
    using ok by (simp_all add: request_ok_def)
  note r = strings_reply [OF Q c len]
  have e: "effect q = []" using Some by (cases q) simp_all
  have f: "reply_frames E K m q = [push_frame E (Some m) (string_msg (request_path q) ss)]"
    using Some by (simp add: reply_frames_def reply_bytes_def)
  have "uplink_call Q K E (Some m) (request_index q) (concat (map osc_enc (map Osc_String (request_args q)))) u =
      Some (tjost_uplink_rx_push E (Some m) (string_msg (request_path q) ss) u)"
  proof (cases q)
    case Ports
    with Some r show ?thesis
      by (cases "jack_get_ports K") (simp_all add: uplink_call_def uplink_ports_def put_strings_def)
  next
    case (Connections p)
    with ok osc_lib.get_string [OF Q, of p "[]"] have "fst (osc_get_string Q (osc_str p)) = p"
      by (simp add: request_ok_def)
    with Some r Connections show ?thesis
      by (cases "jack_port_get_all_connections K (jack_port_by_name K p)")
        (auto simp: uplink_call_def uplink_connections_def Let_def)
  qed (use Some in simp_all)
  moreover note push_queued [OF u m len] room
  ultimately show ?thesis by (simp add: e f)
qed

lemma request_dispatched:
  assumes Q: "osc_lib Q" "request_paths_ok Q" and ok: "request_ok K q" and m: "valid_ptr (Some m)"
    and u: "rx_queued contents cap rok c fs v u"
    and room: "length (pipe_bytes (fs @ reply_frames E K m q)) \<le> c"
  shows "\<exists>u'. uplink_calls Q K E (Some m) (osc_dispatch_method Q t (request_bytes q) uplink_methods) u = Some u' \<and>
    rx_queued contents cap rok c (fs @ reply_frames E K m q) (v\<lparr>ul_calls := ul_calls v @ effect q\<rparr>) u'"
proof -
  have "osc_dispatch_method Q t (request_bytes q) uplink_methods =
      [Call t (request_index q) (request_path q) (map (\<lambda>s. CHR ''s'') (request_args q))
        (concat (map osc_enc (map Osc_String (request_args q))))]"
    unfolding request_bytes_def string_msg_def
    using Q(2) ok clean_valid [of "request_args q"] method_request [of q]
    by (subst osc_lib.dispatch_msg [OF Q(1)]) (simp_all add: request_paths_ok_def request_ok_def)
  with request_call [OF Q(1) ok m u room] show ?thesis by auto
qed

end

section \<open>All requests that wait\<close>

definition is_request :: "frame \<Rightarrow> addr \<times> request \<Rightarrow> bool" where
  "is_request f mq \<longleftrightarrow> valid_frame f \<and> f_module f = Some (fst mq) \<and> f_buf f = request_bytes (snd mq)"

definition answers :: "('t, 'r) env \<Rightarrow> jack \<Rightarrow> (addr \<times> request) list \<Rightarrow> frame list" where
  "answers E K qs = concat (map (\<lambda>(m, q). reply_frames E K m q) qs)"

definition effects :: "(addr \<times> request) list \<Rightarrow> jack_call list" where
  "effects qs = concat (map (\<lambda>(m, q). effect q) qs)"

lemma answers_simps [simp]:
  "answers E K [] = []" "answers E K ((m, q) # qs) = reply_frames E K m q @ answers E K qs"
  "effects [] = []" "effects ((m, q) # qs) = effect q @ effects qs"
  by (simp_all add: answers_def effects_def)

lemma is_request_valid: "list_all2 is_request txs qs \<Longrightarrow> \<forall>f\<in>set txs. valid_frame f"
  by (induction rule: list_all2_induct) (auto simp: is_request_def)

context tjost_env
begin

lemma deliver_requests:
  assumes Q: "osc_lib Q" "request_paths_ok Q"
  shows "list_all2 is_request txs qs \<Longrightarrow> \<forall>(m, q)\<in>set qs. request_ok K q \<Longrightarrow>
    rx_queued contents cap rok c fs v u \<Longrightarrow> length (pipe_bytes (fs @ answers E K qs)) \<le> c \<Longrightarrow>
    length b = TJOST_BUF_SIZE \<Longrightarrow>
    \<exists>b' u'. deliver_all tjost_uplink_tx_drain_alloc static_store (tjost_uplink_tx_drain_sched Q K E) txs (b, u) =
        Some ([], b', u') \<and> length b' = TJOST_BUF_SIZE \<and>
      rx_queued contents cap rok c (fs @ answers E K qs) (v\<lparr>ul_calls := ul_calls v @ effects qs\<rparr>) u'"
proof (induction arbitrary: fs v u b rule: list_all2_induct)
  case Nil
  then show ?case by simp
next
  case (Cons f txs mq qs)
  obtain m q where mq: "mq = (m, q)" by fastforce
  have f: "valid_frame f" "f_module f = Some m" "f_buf f = request_bytes q"
    using Cons.hyps(1) by (simp_all add: is_request_def mq)
  have q: "request_ok K q" and m: "valid_ptr (Some m)"
    using Cons.prems(1) f by (auto simp: mq valid_frame_def)
  have len: "length (request_bytes q) \<le> length b" using q Cons.prems(4) by (simp add: request_ok_def)
  let ?b = "request_bytes q @ drop (length (request_bytes q)) b"
  have "length (pipe_bytes (fs @ reply_frames E K m q)) \<le> c" using Cons.prems(3) by (simp add: mq)
  from request_dispatched [OF Q q m Cons.prems(2) this, of "f_time f"] obtain u1 where
    u1: "uplink_calls Q K E (Some m) (osc_dispatch_method Q (f_time f) (request_bytes q) uplink_methods) u = Some u1"
      "rx_queued contents cap rok c (fs @ reply_frames E K m q) (v\<lparr>ul_calls := ul_calls v @ effect q\<rparr>) u1" by blast
  have step: "tjost_uplink_tx_drain_sched Q K E (hdr f) () (?b, u) = Some (False, ?b, u1)"
    using u1(1) f by (simp add: tjost_uplink_tx_drain_sched_def hdr_def)
  have "length (pipe_bytes ((fs @ reply_frames E K m q) @ answers E K qs)) \<le> c" "length ?b = TJOST_BUF_SIZE"
    using Cons.prems(3,4) len by (simp_all add: mq)
  from Cons.IH [OF _ u1(2) this] Cons.prems(1) obtain b' u' where
    "deliver_all tjost_uplink_tx_drain_alloc static_store (tjost_uplink_tx_drain_sched Q K E) txs (?b, u1) =
        Some ([], b', u')" "length b' = TJOST_BUF_SIZE"
    "rx_queued contents cap rok c (fs @ answers E K (mq # qs)) (v\<lparr>ul_calls := ul_calls v @ effects (mq # qs)\<rparr>) u'"
    by (auto simp: mq)
  moreover have "tjost_uplink_tx_drain_alloc (hdr f) (b, u) = Some ((), b, u)"
    using len f by (simp add: tjost_uplink_tx_drain_alloc_def static_simps)
  ultimately show ?case using step f by (simp add: static_simps)
qed

lemma host_ok_rx [simp]: "host_ok (h\<lparr>pipe_uplink_rx := r\<rparr>) = host_ok h"
proof -
  have "queue_of (h\<lparr>pipe_uplink_rx := r\<rparr>) = queue_of h"
    by (rule ext) (simp add: queue_of_def split: option.splits)
  then show ?thesis by (simp add: host_wf_def)
qed

lemma host_ok_tx [simp]: "host_ok (h\<lparr>pipe_uplink_tx := r\<rparr>) = host_ok h"
proof -
  have "queue_of (h\<lparr>pipe_uplink_tx := r\<rparr>) = queue_of h"
    by (rule ext) (simp add: queue_of_def split: option.splits)
  then show ?thesis by (simp add: host_wf_def)
qed

lemma view_rx [simp]: "view (h\<lparr>pipe_uplink_rx := r\<rparr>) i = view h i"
  by (simp add: view_def queue_of_def split: option.splits)

lemma view_tx [simp]: "view (h\<lparr>pipe_uplink_tx := r\<rparr>) i = view h i"
  by (simp add: view_def queue_of_def split: option.splits)

text \<open>After the callback, with what the next period makes of the receive pipe.\<close>

lemma rx_drained:
  assumes u: "rx_queued contents cap rok c fs v u" and ok: "host_ok (ul_host v)"
    and fs: "\<forall>f\<in>set fs. valid_frame f"
    and d: "tjost_uplink_rx_drain E (ul_host u) = Some h'"
  shows "host_ok h' \<and> view h' None = rx_view 0 fs (view (ul_host v) None)"
proof -
  from u obtain r where r: "ul_host u = (ul_host v)\<lparr>pipe_uplink_rx := r\<rparr>"
    "rok r" "contents r = pipe_bytes fs" by (auto simp: rx_queued_def)
  from uplink_rx_drain_spec [OF _ _ fs _ d] ok r show ?thesis by simp
qed

end

section \<open>Notifications\<close>

datatype notification = Client_Registration string bool | Port_Registration "32 word" bool |
  Port_Connect "32 word" "32 word" bool | Port_Rename "32 word" string string | Graph_Order

text \<open>The callback JACK calls.\<close>

definition flag :: "bool \<Rightarrow> int" where
  "flag b = (if b then 1 else 0)"

fun jack_notify ::
  "osc_ops \<Rightarrow> jack \<Rightarrow> ('t, 'r) env \<Rightarrow> notification \<Rightarrow> ('t, 'r) uplink \<Rightarrow> ('t, 'r) uplink option" where
  "jack_notify Q K E (Client_Registration n b) u = Some (tjost_client_registration Q E n (flag b) u)"
| "jack_notify Q K E (Port_Registration i b) u = tjost_port_registration Q K E i (flag b) u"
| "jack_notify Q K E (Port_Connect i j b) u = tjost_port_connect Q K E i j (flag b) u"
| "jack_notify Q K E (Port_Rename i a b) u = Some (tjost_port_rename Q E i a b u)"
| "jack_notify Q K E Graph_Order u = Some (snd (tjost_graph_order Q E u))"

fun jack_notifies ::
  "osc_ops \<Rightarrow> jack \<Rightarrow> ('t, 'r) env \<Rightarrow> notification list \<Rightarrow> ('t, 'r) uplink \<Rightarrow> ('t, 'r) uplink option" where
  "jack_notifies Q K E [] u = Some u"
| "jack_notifies Q K E (n # ns) u = do { u1 \<leftarrow> jack_notify Q K E n u; jack_notifies Q K E ns u1 }"

text \<open>What a notification announces: path, tags with the flag, and arguments.\<close>

definition port_name :: "jack \<Rightarrow> 32 word \<Rightarrow> string option" where
  "port_name K i = (case jack_port_by_id K i of None \<Rightarrow> None | Some p \<Rightarrow> jack_port_name K (Some p))"

definition flag_tag :: "bool \<Rightarrow> string" where
  "flag_tag b = (if b then ''T'' else ''F'')"

fun announced :: "jack \<Rightarrow> notification \<Rightarrow> (string \<times> string \<times> osc_arg list) option" where
  "announced K (Client_Registration n b) = Some (''/jack/client/registration'', ''s'' @ flag_tag b, [Osc_String n])"
| "announced K (Port_Registration i b) =
     map_option (\<lambda>n. (''/jack/port/registration'', ''s'' @ flag_tag b, [Osc_String n])) (port_name K i)"
| "announced K (Port_Connect i j b) =
     (case (port_name K i, port_name K j) of
        (Some n, Some k) \<Rightarrow> Some (''/jack/port/connect'', ''ss'' @ flag_tag b, [Osc_String n, Osc_String k])
      | _ \<Rightarrow> None)"
| "announced K (Port_Rename i a b) = Some (''/jack/graph/rename'', ''iss'', [Osc_Int32 i, Osc_String a, Osc_String b])"
| "announced K Graph_Order = Some (''/jack/graph/order'', [], [])"

definition announcement :: "jack \<Rightarrow> notification \<Rightarrow> byte list option" where
  "announcement K n = map_option (\<lambda>(p, f, args). osc_msg p f args) (announced K n)"

text \<open>The ports are known, their names have no NUL, the message fits \<open>buf_rx\<close>.\<close>

definition note_ok :: "jack \<Rightarrow> notification \<Rightarrow> bool" where
  "note_ok K n \<longleftrightarrow> (case announced K n of None \<Rightarrow> False
     | Some (p, f, args) \<Rightarrow> list_all osc_valid args \<and> length (osc_msg p f args) \<le> TJOST_BUF_SIZE)"

definition broadcasts :: "('t, 'r) env \<Rightarrow> jack \<Rightarrow> notification list \<Rightarrow> frame list" where
  "broadcasts E K ns = map (\<lambda>n. push_frame E None (the (announcement K n))) ns"

lemma announced_fits: "announced K n = Some (p, f, args) \<Longrightarrow> fmt_fits f args"
  by (cases n) (auto simp: fmt_fits_def no_data_def flag_tag_def split: option.splits if_splits)

lemma jack_notify_eq:
  assumes "announced K n = Some (p, f, args)"
  shows "jack_notify Q K E n u = Some (notify Q E p f args u)"
  using assms
proof (cases n)
  case (Port_Connect i j b)
  with assms show ?thesis
    by (cases "jack_port_by_id K i"; cases "jack_port_by_id K j")
      (auto simp: tjost_port_connect_def flag_def flag_tag_def port_name_def split: option.splits)
qed (auto simp: tjost_client_registration_def tjost_port_registration_def
      tjost_port_rename_def tjost_graph_order_def flag_def flag_tag_def port_name_def split: option.splits)

context tjost_env
begin

lemma notify_push:
  assumes "osc_lib Q" and "note_ok K n"
  shows "jack_notify Q K E n u = Some (tjost_uplink_rx_push E None (the (announcement K n)) u) \<and>
    length (the (announcement K n)) \<le> TJOST_BUF_SIZE"
proof -
  from assms(2) obtain p f args where a: "announced K n = Some (p, f, args)" "list_all osc_valid args"
    "length (osc_msg p f args) \<le> TJOST_BUF_SIZE" by (auto simp: note_ok_def split: option.splits)
  with osc_lib.set_vararg [OF assms(1) announced_fits [OF a(1)] a(2)] show ?thesis
    by (simp add: jack_notify_eq [OF a(1)] notify_def push_written_def announcement_def)
qed

lemma notifies_queued:
  assumes Q: "osc_lib Q"
  shows "\<forall>n\<in>set ns. note_ok K n \<Longrightarrow> rx_queued contents cap rok c fs v u \<Longrightarrow>
    length (pipe_bytes (fs @ broadcasts E K ns)) \<le> c \<Longrightarrow>
    \<exists>u'. jack_notifies Q K E ns u = Some u' \<and> rx_queued contents cap rok c (fs @ broadcasts E K ns) v u'"
proof (induction ns arbitrary: fs u)
  case Nil
  then show ?case by (simp add: broadcasts_def)
next
  case (Cons n ns)
  let ?f = "push_frame E None (the (announcement K n))"
  have n: "note_ok K n" using Cons.prems(1) by simp
  note p = notify_push [OF Q n, of u]
  have b: "broadcasts E K (n # ns) = ?f # broadcasts E K ns" by (simp add: broadcasts_def)
  have "rx_queued contents cap rok c (fs @ [?f]) v (tjost_uplink_rx_push E None (the (announcement K n)) u)"
    using Cons.prems(3) p by (intro push_queued [OF Cons.prems(2)]) (simp_all add: b valid_ptr_def)
  from Cons.IH [OF _ this] Cons.prems(1,3) p show ?case by (simp add: b)
qed

lemma broadcasts_valid:
  assumes "osc_lib Q" and "\<forall>n\<in>set ns. note_ok K n"
  shows "\<forall>f\<in>set (broadcasts E K ns). valid_frame f"
  using assms(2)
  by (auto simp: broadcasts_def valid_ptr_def intro!: valid_push_frame notify_push [OF assms(1), THEN conjunct2])

end

end
