(* ===== verification/Jack_Properties.thy ===== *)
theory Jack_Properties
  imports Jack_Correct Module_Properties
begin

text \<open>
  The properties of the uplink: requests of scripts are carried out and answered, notifications of JACK
  reach every uplink, and what becomes of a message that is too long.
\<close>

section \<open>Requests\<close>

lemma answers_valid:
  assumes "list_all2 is_request txs qs" and "\<forall>(m, q)\<in>set qs. request_ok K q"
  shows "\<forall>f\<in>set (answers E K qs). valid_frame f"
  using assms
proof (induction rule: list_all2_induct)
  case (Cons f txs mq qs)
  obtain m q where mq: "mq = (m, q)" by fastforce
  have "valid_ptr (Some m)" using Cons.hyps(1) by (auto simp: is_request_def valid_frame_def mq)
  then have "\<forall>f\<in>set (reply_frames E K m q). valid_frame f"
    using Cons.prems by (auto simp: mq reply_frames_def reply_bytes_def request_ok_def valid_push_frame split: option.splits)
  with Cons show ?case by (auto simp: mq)
qed simp

lemma rx_queued_self:
  "rok (pipe_uplink_rx (ul_host u)) \<Longrightarrow> contents (pipe_uplink_rx (ul_host u)) = pipe_bytes fs \<Longrightarrow>
   rx_queued contents cap rok (cap (pipe_uplink_rx (ul_host u))) fs u u"
  by (auto simp: rx_queued_def intro!: exI [of _ "pipe_uplink_rx (ul_host u)"])

text \<open>C24. Requests through the uplink. When the event loop runs its callback on a transmit pipe that
  holds requests of uplink modules, the pipe is empty afterwards, JACK has been asked to make and break
  exactly the requested connections in order, and the receive pipe has gained the replies of all
  queries in order, each a well-formed message for the module that asked. The next period turns them
  into events of the host queue. (Names without NUL, replies that fit the buffer and the pipe.)\<close>
theorem uplink_requests_answered:
  assumes "tjost_env E contents cap rok live aok" and "osc_lib Q" and "request_paths_ok Q"
    and "host_wf rok live aok (ul_host u)" and "length b = TJOST_BUF_SIZE"
    and "rok (pipe_uplink_tx (ul_host u))" and "contents (pipe_uplink_tx (ul_host u)) = pipe_bytes txs"
    and "list_all2 is_request txs qs" and "\<forall>(m, q)\<in>set qs. request_ok K q"
    and "rok (pipe_uplink_rx (ul_host u))" and "contents (pipe_uplink_rx (ul_host u)) = pipe_bytes fs"
    and "\<forall>f\<in>set fs. valid_frame f"
    and "length (pipe_bytes (fs @ answers E K qs)) \<le> cap (pipe_uplink_rx (ul_host u))"
  shows "\<exists>b' u'. uplink_asio Q K E (b, u) = Some (b', u') \<and> ul_calls u' = ul_calls u @ effects qs \<and>
    ul_err u' = ul_err u \<and> contents (pipe_uplink_tx (ul_host u')) = [] \<and>
    contents (pipe_uplink_rx (ul_host u')) = pipe_bytes (fs @ answers E K qs) \<and>
    (\<forall>h'. tjost_uplink_rx_drain E (ul_host u') = Some h' \<longrightarrow> host_wf rok live aok h' \<and>
      view h' None = rx_view 0 (fs @ answers E K qs) (view (ul_host u) None))"
proof -
  note env = assms(1)
  note j = tjost_env.axioms(1) [OF env]
  let ?al = tjost_uplink_tx_drain_alloc and ?sc = "tjost_uplink_tx_drain_sched Q K E"
  from tjost_env.deliver_requests [OF env assms(2,3,8,9) rx_queued_self [of rok u contents fs cap, OF assms(10,11)] assms(13,5)]
  obtain b' u1 where d: "deliver_all ?al static_store ?sc txs (b, u) = Some ([], b', u1)"
    and u1: "rx_queued contents cap rok (cap (pipe_uplink_rx (ul_host u))) (fs @ answers E K qs)
      (u\<lparr>ul_calls := ul_calls u @ effects qs\<rparr>) u1" by blast
  from jack_ringbuffer.consume_refines [OF j assms(6) is_request_valid [OF assms(8)] assms(7), of ?al static_store ?sc "(b, u)"] d
  obtain r where c: "tjost_pipe_consume (ring_api E) ?al static_store ?sc (pipe_uplink_tx (ul_host u)) (b, u) =
      Some (0, r, b', u1)" "rok r" "contents r = []" by auto
  let ?v = "u\<lparr>ul_calls := ul_calls u @ effects qs, ul_host := (ul_host u)\<lparr>pipe_uplink_tx := r\<rparr>\<rparr>"
  let ?u = "u1\<lparr>ul_host := (ul_host u1)\<lparr>pipe_uplink_tx := r\<rparr>\<rparr>"
  have q: "rx_queued contents cap rok (cap (pipe_uplink_rx (ul_host u))) (fs @ answers E K qs) ?v ?u"
    using rx_queued_tx [OF u1, of r] by simp
  have "host_wf rok live aok (ul_host ?v)" "view (ul_host ?v) None = view (ul_host u) None"
    using assms(4) by (simp_all add: tjost_env.host_ok_tx [OF env] tjost_env.view_tx [OF env])
  moreover have "\<forall>f\<in>set (fs @ answers E K qs). valid_frame f"
    using assms(12) answers_valid [OF assms(8,9)] by auto
  ultimately have "\<forall>h'. tjost_uplink_rx_drain E (ul_host ?u) = Some h' \<longrightarrow> host_wf rok live aok h' \<and>
      view h' None = rx_view 0 (fs @ answers E K qs) (view (ul_host u) None)"
    using tjost_env.rx_drained [OF env q] by metis
  moreover have "uplink_asio Q K E (b, u) = Some (b', ?u)" by (simp add: uplink_asio_def c)
  moreover have "ul_calls ?u = ul_calls u @ effects qs" "ul_err ?u = ul_err u"
    using u1 by (auto simp: rx_queued_def)
  ultimately show ?thesis using c rx_queuedD [OF q] by auto
qed

definition jack1 :: jack where
  "jack1 = \<lparr>jack_get_ports = Some [''a:x'', ''b:y''], jack_port_by_name = (\<lambda>s. if s = ''a:x'' then Some 1 else None),
     jack_port_get_all_connections = (\<lambda>p. if p = None then None else Some [''b:y'']),
     jack_port_by_id = (\<lambda>i. if i = 1 then Some 1 else None), jack_port_name = map_option (\<lambda>p. ''a:x'')\<rparr>"

definition requests1 :: "(addr \<times> request) list" where
  "requests1 = [(8, Connect ''a:x'' ''b:y''), (8, Connections ''a:x'')]"

definition request_frame :: "addr \<times> request \<Rightarrow> frame" where
  "request_frame mq = \<lparr>f_stk = [], f_module = Some (fst mq), f_time = 5, f_buf = request_bytes (snd mq)\<rparr>"

definition uplink1 :: "(region, circ) uplink" where
  "uplink1 = \<lparr>ul_host = host0\<lparr>pipe_uplink_tx := circ_with (pipe_bytes (map request_frame requests1)) 10\<rparr>,
     ul_calls = [], ul_err = []\<rparr>"

lemma osc_ref_path_ok: "osc_check_path osc_ref (CHR ''/'' # s) \<longleftrightarrow> CHR 0x00 \<notin> set s"
  by (simp add: osc_ref_def)

theorem uplink_requests_answered_witness:
  "\<exists>b' u'. uplink_asio osc_ref jack1 ref_env (replicate TJOST_BUF_SIZE 0, uplink1) = Some (b', u') \<and>
    ul_calls u' = [Jack_Connect ''a:x'' ''b:y''] \<and>
    circ_contents (pipe_uplink_rx (ul_host u')) =
      pipe_bytes [push_frame ref_env (Some 8) (string_msg ''/jack/connections'' [''a:x'', ''b:y''])]"
proof -
  have p: "request_paths_ok osc_ref"
    unfolding request_paths_ok_def
  proof
    show "osc_check_path osc_ref (request_path q)" for q by (cases q) (simp_all add: osc_ref_path_ok)
  qed
  have l: "\<forall>(m, q)\<in>set requests1. request_ok jack1 q"
    by (simp add: requests1_def request_ok_def jack1_def request_bytes_def string_msg_def osc_msg_def
        length_osc_str length_osc_tags TJOST_BUF_SIZE_def)
  have v: "list_all2 is_request (map request_frame requests1) requests1"
    by (simp add: requests1_def is_request_def request_frame_def valid_frame_def valid_ptr_def request_bytes_def
        string_msg_def osc_msg_def length_osc_str length_osc_tags)
  have a: "answers ref_env jack1 requests1 =
      [push_frame ref_env (Some 8) (string_msg ''/jack/connections'' [''a:x'', ''b:y''])]"
    by (simp add: requests1_def reply_frames_def reply_bytes_def jack1_def)
  have e: "effects requests1 = [Jack_Connect ''a:x'' ''b:y'']" by (simp add: requests1_def)
  have n: "length (pipe_bytes (answers ref_env jack1 requests1)) \<le> 200"
    unfolding a by (simp add: string_msg_def osc_msg_def length_osc_str length_osc_tags)
  have h: "host_wf circ_ok region_live region_ok (ul_host uplink1)"
    using host0_ok(1) by (simp add: uplink1_def ref.host_ok_tx)
  have s: "circ_ok (pipe_uplink_tx (ul_host uplink1))" "circ_ok (pipe_uplink_rx (ul_host uplink1))"
    "circ_contents (pipe_uplink_tx (ul_host uplink1)) = pipe_bytes (map request_frame requests1)"
    "circ_contents (pipe_uplink_rx (ul_host uplink1)) = pipe_bytes []" "circ_cap (pipe_uplink_rx (ul_host uplink1)) = 200"
    "ul_calls uplink1 = []"
    by (simp_all add: uplink1_def host0_def)
  from uplink_requests_answered [OF ref.tjost_env_axioms osc_ref.osc_lib_axioms p h
      length_replicate [of TJOST_BUF_SIZE 0] s(1,3) v l s(2,4)] n s(5,6)
  show ?thesis unfolding a e by fastforce
qed

text \<open>C26. A query that gets no answer. The reply to \<open>/jack/ports\<close> is pushed only if it fits \<open>buf_rx\<close> as a
  whole. If the names do not fit nothing is sent and nothing reported; if the format alone does not fit
  it is written past the end of the buffer.\<close>
theorem ports_reply_limits:
  assumes "osc_lib Q" and "jack_get_ports K = Some ports" and "clean ports"
  shows "uplink_ports Q K E m u =
    (if TJOST_BUF_SIZE < 12 + length (osc_tags (map (\<lambda>n. CHR ''s'') ports)) then None
     else if TJOST_BUF_SIZE < length (string_msg ''/jack/ports'' ports) then Some u
     else Some (tjost_uplink_rx_push E (Some m) (string_msg ''/jack/ports'' ports) u))"
proof -
  let ?f = "map (\<lambda>n. CHR ''s'') ports"
  have l: "length (osc_str ''/jack/ports'') = 12" by (simp add: length_osc_str)
  have p: "reply_path Q ''/jack/ports'' = Some (osc_str ''/jack/ports'')"
    by (simp add: reply_path_def osc_lib.set_path [OF assms(1)] l TJOST_BUF_SIZE_def)
  show ?thesis
  proof (cases "12 + length (osc_tags ?f) \<le> TJOST_BUF_SIZE")
    case True
    then have "put_strings Q ports (Some (osc_str ''/jack/ports'' @ osc_tags ?f)) =
        put TJOST_BUF_SIZE (Some []) (string_msg ''/jack/ports'' ports)"
      using osc_lib.put_strings_put [OF assms(1,3), of "osc_str ''/jack/ports'' @ osc_tags ?f"] l
      by (simp add: string_msg_def osc_msg_def)
    with True p l assms(2) show ?thesis
      by (simp add: uplink_ports_def write_fmt_put push_written_def)
  next
    case False
    with p l assms(2) show ?thesis by (simp add: uplink_ports_def write_fmt_put)
  qed
qed

theorem ports_reply_limits_witness:
  "uplink_ports osc_ref (jack1\<lparr>jack_get_ports := Some [replicate 20000 (CHR ''a'')]\<rparr>) ref_env 8 uplink1 = Some uplink1 \<and>
   uplink_ports osc_ref (jack1\<lparr>jack_get_ports := Some (replicate 20000 ''a'')\<rparr>) ref_env 8 uplink1 = None"
  using ports_reply_limits [OF osc_ref.osc_lib_axioms,
      of "jack1\<lparr>jack_get_ports := Some [replicate 20000 (CHR ''a'')]\<rparr>" "[replicate 20000 (CHR ''a'')]" ref_env 8 uplink1]
    ports_reply_limits [OF osc_ref.osc_lib_axioms,
      of "jack1\<lparr>jack_get_ports := Some (replicate 20000 ''a'')\<rparr>" "replicate 20000 ''a''" ref_env 8 uplink1]
  by (simp add: string_msg_def osc_msg_def length_osc_str length_osc_tags TJOST_BUF_SIZE_def clean_def list_all_iff)

section \<open>Notifications\<close>



end
