(* ===== verification/Session_Properties.thy ===== *)
theory Session_Properties
  imports Nsm
begin

text \<open>The properties of the session client: how it joins a session, and where joining goes wrong.\<close>

definition trimmed :: "string \<Rightarrow> string" where
  "trimmed url = (if last url = CHR ''/'' then butlast url else url)"

text \<open>C27. Joining a session. With a session manager, \<open>tjost_nsm_init\<close> waits until a round of packets brings
  an identity and returns the last one of that round; if none ever comes it does not return. Until
  then each packet has been answered in order by exactly the message the protocol asks for: the
  resolved address by the announcement with the script's file name, opening and saving by their
  confirmations, everything else by nothing. At the end the copies of all identities but the last
  are lost.\<close>
theorem nsm_session_correct:
  assumes "osc_lib Q" and "nsm_paths_ok Q" and "ns_url Y = Some url" and "url \<noteq> []"
    and "call_ok (file_name script)" and "ns_rounds Y = map (map nsm_bytes) rs" and "list_all (list_all packet_ok) rs"
  shows "case until_open rs of
      None \<Rightarrow> tjost_nsm_init Q Y (prog # script # args) nsm0 = None
    | Some ps \<Rightarrow> \<exists>s s'. tjost_nsm_init Q Y (prog # script # args) nsm0 = Some (last (collect identity ps), s) \<and>
        nsm_sent s = collect (answer (file_name script) (ns_pid Y)) ps \<and>
        nsm_url s = Some (trimmed url) \<and> nsm_call s = Some (file_name script) \<and>
        tjost_nsm_deinit s = Some s' \<and> nsm_blocks s' = length (collect identity ps) - 1"
proof -
  let ?call = "file_name script"
  let ?s2 = "nsm0\<lparr>nsm_call := Some ?call, nsm_blocks := 1, nsm_url := Some (trimmed url)\<rparr>"
  let ?s3 = "if ns_init Y \<noteq> 0 then ?s2\<lparr>nsm_err := [''tjost_nsm: could not create UDP Responder'']\<rparr>
    else ?s2\<lparr>nsm_responder := True\<rparr>"
  have s3: "nsm_call ?s3 = Some ?call" "nsm_id ?s3 = None" "nsm_sent ?s3 = []" "nsm_url ?s3 = Some (trimmed url)"
    "nsm_blocks ?s3 = 1" "\<not> nsm_freed ?s3" by (simp_all add: nsm0_def)
  note w = osc_lib.nsm_wait_packets [OF assms(1,2,5) s3(1,2) assms(7), of "ns_pid Y"]
  have i: "tjost_nsm_init Q Y (prog # script # args) nsm0 =
      do { s4 \<leftarrow> nsm_wait Q (ns_pid Y) (map (map nsm_bytes) rs) ?s3; ident \<leftarrow> nsm_id s4; Some (ident, s4) }"
    using assms(3,4,6) by (simp add: tjost_nsm_init_def Let_def trimmed_def nsm0_def)
  show ?thesis
  proof (cases "until_open rs")
    case None
    with i w show ?thesis by simp
  next
    case (Some ps)
    let ?s = "after ?call (ns_pid Y) ps ?s3"
    have ne: "collect identity ps \<noteq> []" by (rule until_open_identity [OF Some])
    then have id: "nsm_id ?s = Some (last (collect identity ps))"
      unfolding after_simps last_opt_def by (simp only: if_False)
    have "tjost_nsm_init Q Y (prog # script # args) nsm0 = Some (last (collect identity ps), ?s)"
      unfolding i w Some using id by (simp only: option.map(2) Option.bind.bind_lunit)
    moreover have "nsm_sent ?s = collect (answer ?call (ns_pid Y)) ps" "nsm_url ?s = Some (trimmed url)"
      "nsm_call ?s = Some ?call" "nsm_blocks ?s = 1 + length (collect identity ps)" "\<not> nsm_freed ?s"
      using s3 by (simp_all add: after_def)
    moreover from this id obtain s' where "tjost_nsm_deinit ?s = Some s'" "nsm_blocks s' = length (collect identity ps) - 1"
      using ne by (simp add: tjost_nsm_deinit_def Let_def)
    ultimately show ?thesis unfolding Some option.case by blast
  qed
qed

lemma osc_ref_nsm_paths: "nsm_paths_ok osc_ref"
  unfolding nsm_paths_ok_def
proof
  show "osc_check_path osc_ref (fst (packet_msg p))" for p by (cases p) (simp_all add: osc_ref_def)
qed

definition session1 :: session where
  "session1 = \<lparr>ns_url = Some ''osc.udp://localhost:7777/'', ns_init = 0, ns_pid = 42,
     ns_rounds = map (map nsm_bytes) [[Resolved], [Announced ''hi''], [Open ''d'' ''n'' ''ab'', Save], [Open ''d'' ''n'' ''cd'']]\<rparr>"

theorem nsm_session_correct_witness:
  "\<exists>s. tjost_nsm_init osc_ref session1 [''tjost'', ''x/a.lua''] nsm0 = Some (''ab'', s) \<and>
    nsm_sent s = [announce_msg ''a.lua'' 42, reply_msg ''/nsm/client/open'' ''opened'', reply_msg ''/nsm/client/save'' ''saved'']"
proof -
  let ?rs = "[[Resolved], [Announced ''hi''], [Open ''d'' ''n'' ''ab'', Save], [Open ''d'' ''n'' ''cd'']]"
  have f: "file_name ''x/a.lua'' = ''a.lua''" by (simp add: file_name_def)
  have "call_ok (file_name ''x/a.lua'')"
    by (simp add: f call_ok_def announce_msg_def osc_msg_def length_osc_str length_osc_tags TJOST_BUF_SIZE_def)
  moreover have "list_all (list_all packet_ok) ?rs" by (simp add: packet_ok_def)
  moreover have "ns_url session1 = Some ''osc.udp://localhost:7777/''" "ns_rounds session1 = map (map nsm_bytes) ?rs"
    "ns_pid session1 = 42" by (simp_all add: session1_def)
  ultimately show ?thesis
    using nsm_session_correct [OF osc_ref.osc_lib_axioms osc_ref_nsm_paths, of session1 "''osc.udp://localhost:7777/''"
        "''x/a.lua''" ?rs "''tjost''" "[]"] by (auto simp: f)
qed

text \<open>C28. Where joining goes wrong. A file name so long that the announcement does not fit the buffer makes
  the program send a message of undefined length as soon as the server is resolved; an empty
  \<open>NSM_URL\<close> is indexed with -1; without a script a NULL string is searched. Without a session manager
  the name of the client is the file name of the script, and its block is never freed.\<close>
theorem nsm_faults:
  assumes "osc_lib Q" and "nsm_paths_ok Q" and "CHR 0x00 \<notin> set (file_name script)"
  shows "(TJOST_BUF_SIZE < length (announce_msg (file_name script) (ns_pid Y)) \<and> ns_url Y = Some url \<and>
      ns_rounds Y = (nsm_bytes Resolved # ps) # rs \<longrightarrow> tjost_nsm_init Q Y (prog # script # args) nsm0 = None) \<and>
    (ns_url Y = Some [] \<longrightarrow> tjost_nsm_init Q Y argv nsm0 = None) \<and>
    tjost_nsm_init Q Y [prog] nsm0 = None \<and>
    (ns_url Y = None \<longrightarrow> (\<exists>s. tjost_nsm_init Q Y (prog # script # args) nsm0 = Some (file_name script, s) \<and>
      tjost_nsm_deinit s = Some s \<and> nsm_blocks s = 1))"
proof -
  have res: "nsm_recv_cb Q pid (nsm_bytes Resolved) s = nsm_resolve Q pid s" for pid s
  proof -
    have "osc_check_path Q (fst (packet_msg Resolved))" using assms(2) unfolding nsm_paths_ok_def by (rule spec)
    then have v: "osc_check_path Q ''/net/resolve''" "fmt_fits [] []" "list_all osc_valid []"
      by (simp_all add: fmt_fits_def)
    from osc_lib.dispatch_msg [OF assms(1) v] osc_lib.check_packet [OF assms(1) v] show ?thesis
      by (cases "nsm_resolve Q pid s")
        (simp_all add: nsm_recv_cb_def nsm_bytes_def method_for_def nsm_methods_def upt_conv_Cons nsm_method_def)
  qed
  have "nsm_resolve Q pid s = None"
    if "TJOST_BUF_SIZE < length (announce_msg (file_name script) pid)" "nsm_call s = Some (file_name script)" for s pid
    using that assms(3) unfolding nsm_resolve_def nsm_send_def announce_msg_def
    by (simp add: osc_lib.set_vararg [OF assms(1)] fmt_fits_def no_data_def)
  then have "tjost_nsm_init Q Y (prog # script # args) nsm0 = None"
    if "TJOST_BUF_SIZE < length (announce_msg (file_name script) (ns_pid Y))" "ns_url Y = Some url"
      "ns_rounds Y = (nsm_bytes Resolved # ps) # rs"
    using that by (simp add: tjost_nsm_init_def Let_def nsm0_def res)
  moreover have "ns_url Y = Some [] \<Longrightarrow> tjost_nsm_init Q Y argv nsm0 = None"
    by (simp add: tjost_nsm_init_def Let_def split: list.split)
  ultimately show ?thesis
    by (simp add: tjost_nsm_init_def Let_def tjost_nsm_deinit_def nsm0_def)
qed

theorem nsm_faults_witness:
  "tjost_nsm_init osc_ref (session1\<lparr>ns_url := Some []\<rparr>) [''tjost'', ''x/a.lua''] nsm0 = None \<and>
   tjost_nsm_init osc_ref session1 [''tjost'', replicate 20000 (CHR ''a'')] nsm0 = None"
proof -
  have f: "file_name (replicate 20000 (CHR ''a'')) = replicate 20000 (CHR ''a'')"
    by (simp add: file_name_def)
  have n: "CHR 0x00 \<notin> set (file_name (replicate 20000 (CHR ''a'')))" unfolding f by simp
  have l: "TJOST_BUF_SIZE < length (announce_msg (file_name (replicate 20000 (CHR ''a''))) (ns_pid session1))"
    unfolding f by (simp add: announce_msg_def osc_msg_def length_osc_str TJOST_BUF_SIZE_def)
  have r: "ns_url session1 = Some ''osc.udp://localhost:7777/''"
    "ns_rounds session1 = (nsm_bytes Resolved # []) # map (map nsm_bytes) [[Announced ''hi''], [Open ''d'' ''n'' ''ab'', Save], [Open ''d'' ''n'' ''cd'']]"
    by (simp_all add: session1_def)
  from nsm_faults [OF osc_ref.osc_lib_axioms osc_ref_nsm_paths n, of session1] l r
    nsm_faults [OF osc_ref.osc_lib_axioms osc_ref_nsm_paths n, of "session1\<lparr>ns_url := Some []\<rparr>"]
  show ?thesis by simp
qed

end
