(* ===== verification/Rtmidi.thy ===== *)
theory Rtmidi
  imports Event_Sinks Event_Sources
begin

text \<open>
  The C interface to the RtMidi library (\<open>rtmidi_c.cpp\<close>): functions that call a method of a C++ object,
  print the message of the exception it throws, if it does, and answer a value that tells. The library is
  outside: a record of its methods, each of which throws with a message (\<open>Inl\<close>) or returns (\<open>Inr\<close>), a
  changed object where it changes it. The classes \<open>RtMidiIn\<close> and \<open>RtMidiOut\<close> are two such records.
\<close>

section \<open>The library\<close>

datatype midi_api = UNSPECIFIED | MACOSX_CORE | LINUX_ALSA | UNIX_JACK | WINDOWS_MM | RTMIDI_DUMMY

record 'd rtmidi =
  rm_new :: "midi_api \<Rightarrow> string \<Rightarrow> string + 'd"
  rm_delete :: "'d \<Rightarrow> string + unit"
  rm_getCurrentApi :: "'d \<Rightarrow> string + midi_api"
  rm_getPortCount :: "'d \<Rightarrow> string + 32 word"
  rm_getPortName :: "'d \<Rightarrow> 32 word \<Rightarrow> string + string"
  rm_openPort :: "'d \<Rightarrow> 32 word \<Rightarrow> string \<Rightarrow> string + 'd"
  rm_openVirtualPort :: "'d \<Rightarrow> string \<Rightarrow> string + 'd"
  rm_closePort :: "'d \<Rightarrow> string + 'd"
  rm_setCallback :: "'d \<Rightarrow> string + 'd"
  rm_cancelCallback :: "'d \<Rightarrow> string + 'd"
  rm_sendMessage :: "'d \<Rightarrow> byte list \<Rightarrow> string + 'd"

section \<open>Catching\<close>

text \<open>\<open>try\<close> and \<open>catch\<close>, with what was printed so far: a method that answers, and one that changes the object.\<close>

definition caught :: "string + 'a \<Rightarrow> ('a \<Rightarrow> 'b) \<Rightarrow> 'b \<Rightarrow> string list \<Rightarrow> 'b \<times> string list" where
  "caught r ok bad log = (case r of Inl e \<Rightarrow> (bad, log @ [e]) | Inr x \<Rightarrow> (ok x, log))"

definition changed :: "string + 'd \<Rightarrow> 'd \<Rightarrow> string list \<Rightarrow> int \<times> 'd \<times> string list" where
  "changed r d log = (case r of Inl e \<Rightarrow> (-1, d, log @ [e]) | Inr d1 \<Rightarrow> (0, d1, log))"

text \<open>
  The enumeration of the interface, by its numbers. A number that is none of them, which the option of a
  script may be, leaves \<open>_api\<close> uninitialised.
\<close>

definition api_of :: "int \<Rightarrow> midi_api option" where
  "api_of n = (if n = 0 then Some UNSPECIFIED else if n = 1 then Some MACOSX_CORE else if n = 2 then Some LINUX_ALSA
     else if n = 3 then Some UNIX_JACK else if n = 4 then Some WINDOWS_MM else if n = 5 then Some RTMIDI_DUMMY else None)"

fun api_number :: "midi_api \<Rightarrow> int" where
  "api_number UNSPECIFIED = 0"
| "api_number MACOSX_CORE = 1"
| "api_number LINUX_ALSA = 2"
| "api_number UNIX_JACK = 3"
| "api_number WINDOWS_MM = 4"
| "api_number RTMIDI_DUMMY = 5"

lemma api_of_number [simp]: "api_of (api_number a) = Some a"
  by (cases a) (simp_all add: api_of_def)

section \<open>Input devices\<close>

text \<open>
  \<open>calloc\<close> is whether the wrapper could be allocated: nothing tests it, so a failure is the write through
  NULL. \<open>None\<close> in the answer is NULL. A name that is NULL is undefined for \<open>std::string\<close>.
\<close>

definition rtmidic_in_new ::
  "'d rtmidi \<Rightarrow> bool \<Rightarrow> int \<Rightarrow> string option \<Rightarrow> string list \<Rightarrow> ('d option \<times> string list) option" where
  "rtmidic_in_new R calloc api client_name log =
     do { a \<leftarrow> api_of api; name \<leftarrow> client_name;
          case rm_new R a name of Inl e \<Rightarrow> Some (None, log @ [e])
          | Inr d \<Rightarrow> if calloc then Some (Some d, log) else None }"

definition rtmidic_in_free :: "'d rtmidi \<Rightarrow> 'd \<Rightarrow> string list \<Rightarrow> int \<times> string list" where
  "rtmidic_in_free R d log = caught (rm_delete R d) (\<lambda>u. 0) (-1) log"

definition rtmidic_in_api_get :: "'d rtmidi \<Rightarrow> 'd \<Rightarrow> string list \<Rightarrow> int \<times> string list" where
  "rtmidic_in_api_get R d log = caught (rm_getCurrentApi R d) api_number 100 log"

definition rtmidic_in_port_count :: "'d rtmidi \<Rightarrow> 'd \<Rightarrow> string list \<Rightarrow> 32 word \<times> string list" where
  "rtmidic_in_port_count R d log = caught (rm_getPortCount R d) (\<lambda>n. n) 0 log"

text \<open>The answer points into a string that is destroyed on return.\<close>

datatype c_string = Null | Dangling string

definition rtmidic_in_port_name :: "'d rtmidi \<Rightarrow> 'd \<Rightarrow> 32 word \<Rightarrow> string list \<Rightarrow> c_string \<times> string list" where
  "rtmidic_in_port_name R d k log = caught (rm_getPortName R d k) Dangling Null log"

definition rtmidic_in_port_open ::
  "'d rtmidi \<Rightarrow> 'd \<Rightarrow> 32 word \<Rightarrow> string option \<Rightarrow> string list \<Rightarrow> (int \<times> 'd \<times> string list) option" where
  "rtmidic_in_port_open R d k port_name log = do { name \<leftarrow> port_name; Some (changed (rm_openPort R d k name) d log) }"

definition rtmidic_in_virtual_port_open ::
  "'d rtmidi \<Rightarrow> 'd \<Rightarrow> string option \<Rightarrow> string list \<Rightarrow> (int \<times> 'd \<times> string list) option" where
  "rtmidic_in_virtual_port_open R d port_name log =
     do { name \<leftarrow> port_name; Some (changed (rm_openVirtualPort R d name) d log) }"

definition rtmidic_in_port_close :: "'d rtmidi \<Rightarrow> 'd \<Rightarrow> string list \<Rightarrow> int \<times> 'd \<times> string list" where
  "rtmidic_in_port_close R d log = changed (rm_closePort R d) d log"

definition rtmidic_in_callback_set :: "'d rtmidi \<Rightarrow> 'd \<Rightarrow> string list \<Rightarrow> int \<times> 'd \<times> string list" where
  "rtmidic_in_callback_set R d log = changed (rm_setCallback R d) d log"

definition rtmidic_in_callback_unset :: "'d rtmidi \<Rightarrow> 'd \<Rightarrow> string list \<Rightarrow> int \<times> 'd \<times> string list" where
  "rtmidic_in_callback_unset R d log = changed (rm_cancelCallback R d) d log"

text \<open>
  \<open>callbackWrapper\<close> copies the message into four bytes of its stack (\<open>stk\<close>), whatever its length, and
  hands these on.
\<close>

definition callbackWrapper :: "byte list \<Rightarrow> byte list \<Rightarrow> byte list option" where
  "callbackWrapper stk message =
     (if 4 < length message then None else Some (overlay (fill_to 4 stk) message))"

definition rtmidi_in_receive ::
  "osc_ops \<Rightarrow> 'r ring_ops \<Rightarrow> byte list \<Rightarrow> addr \<Rightarrow> byte list \<Rightarrow> 'r \<Rightarrow> ('r \<times> string list) option" where
  "rtmidi_in_receive Q J stk dat message r =
     do { msg \<leftarrow> callbackWrapper stk message; rtmidi_in_cb Q J stk dat msg r }"

section \<open>Output devices\<close>

definition rtmidic_out_new ::
  "'d rtmidi \<Rightarrow> bool \<Rightarrow> int \<Rightarrow> string option \<Rightarrow> string list \<Rightarrow> ('d option \<times> string list) option" where
  "rtmidic_out_new R calloc api client_name log =
     do { a \<leftarrow> api_of api; name \<leftarrow> client_name;
          case rm_new R a name of Inl e \<Rightarrow> Some (None, log @ [e])
          | Inr d \<Rightarrow> if calloc then Some (Some d, log) else None }"

definition rtmidic_out_free :: "'d rtmidi \<Rightarrow> 'd \<Rightarrow> string list \<Rightarrow> int \<times> string list" where
  "rtmidic_out_free R d log = caught (rm_delete R d) (\<lambda>u. 0) (-1) log"

definition rtmidic_out_api_get :: "'d rtmidi \<Rightarrow> 'd \<Rightarrow> string list \<Rightarrow> int \<times> string list" where
  "rtmidic_out_api_get R d log = caught (rm_getCurrentApi R d) api_number 100 log"

definition rtmidic_out_port_count :: "'d rtmidi \<Rightarrow> 'd \<Rightarrow> string list \<Rightarrow> 32 word \<times> string list" where
  "rtmidic_out_port_count R d log = caught (rm_getPortCount R d) (\<lambda>n. n) 0 log"

definition rtmidic_out_port_name :: "'d rtmidi \<Rightarrow> 'd \<Rightarrow> 32 word \<Rightarrow> string list \<Rightarrow> c_string \<times> string list" where
  "rtmidic_out_port_name R d k log = caught (rm_getPortName R d k) Dangling Null log"

definition rtmidic_out_port_open ::
  "'d rtmidi \<Rightarrow> 'd \<Rightarrow> 32 word \<Rightarrow> string option \<Rightarrow> string list \<Rightarrow> (int \<times> 'd \<times> string list) option" where
  "rtmidic_out_port_open R d k port_name log = do { name \<leftarrow> port_name; Some (changed (rm_openPort R d k name) d log) }"

definition rtmidic_out_virtual_port_open ::
  "'d rtmidi \<Rightarrow> 'd \<Rightarrow> string option \<Rightarrow> string list \<Rightarrow> (int \<times> 'd \<times> string list) option" where
  "rtmidic_out_virtual_port_open R d port_name log =
     do { name \<leftarrow> port_name; Some (changed (rm_openVirtualPort R d name) d log) }"

definition rtmidic_out_port_close :: "'d rtmidi \<Rightarrow> 'd \<Rightarrow> string list \<Rightarrow> int \<times> 'd \<times> string list" where
  "rtmidic_out_port_close R d log = changed (rm_closePort R d) d log"

text \<open>
  The vector is created with four elements, which are 0, and the message is appended behind them. The
  read behind the end of a message shorter than \<open>len\<close> is undefined.
\<close>

definition rtmidic_out_send_message ::
  "'d rtmidi \<Rightarrow> 'd \<Rightarrow> nat \<Rightarrow> byte list \<Rightarrow> string list \<Rightarrow> (int \<times> 'd \<times> string list) option" where
  "rtmidic_out_send_message R d len message log =
     (if length message < len then None
      else let vec = fold (\<lambda>i vec. vec @ [message ! i]) [0..<len] (replicate 4 0)
           in Some (changed (rm_sendMessage R d vec) d log))"

text \<open>The call in \<open>_midi\<close> of \<open>mod_rtmidi_out.c\<close>, and all of them.\<close>

definition rtmidi_out_send :: "'d rtmidi \<Rightarrow> byte list \<Rightarrow> 'd \<times> string list \<Rightarrow> ('d \<times> string list) option" where
  "rtmidi_out_send R m S =
     do { (r, d, log) \<leftarrow> rtmidic_out_send_message R (fst S) 3 m (snd S);
          Some (d, if r \<noteq> 0 then log @ [''rtmidi_out: encode event failed''] else log) }"

fun rtmidi_out_send_all :: "'d rtmidi \<Rightarrow> byte list list \<Rightarrow> 'd \<times> string list \<Rightarrow> ('d \<times> string list) option" where
  "rtmidi_out_send_all R [] S = Some S"
| "rtmidi_out_send_all R (m # ms) S = do { S1 \<leftarrow> rtmidi_out_send R m S; rtmidi_out_send_all R ms S1 }"

section \<open>What arrives\<close>

lemma push_back_all:
  "fold (\<lambda>i vec. vec @ [m ! i]) [0..<n] v = v @ map (\<lambda>i. m ! i) [0..<n]"
  by (induction n) simp_all

lemma send_message_padded:
  assumes "length message = len"
  shows "rtmidic_out_send_message R d len message log =
    Some (changed (rm_sendMessage R d ([0, 0, 0, 0] @ message)) d log)"
proof -
  have "map (\<lambda>i. message ! i) [0..<len] = message" using assms map_nth [of message] by simp
  moreover have "replicate 4 (0 :: byte) = [0, 0, 0, 0]" by (simp add: eval_nat_numeral)
  ultimately show ?thesis by (simp add: rtmidic_out_send_message_def push_back_all assms Let_def)
qed

text \<open>What the device does with a message, as the module sees it.\<close>

definition device_takes :: "'d rtmidi \<Rightarrow> byte list \<Rightarrow> 'd \<times> string list \<Rightarrow> 'd \<times> string list" where
  "device_takes R v S = (case rm_sendMessage R (fst S) v of
     Inl e \<Rightarrow> (fst S, snd S @ [e, ''rtmidi_out: encode event failed'']) | Inr d \<Rightarrow> (d, snd S))"

lemma send_all_padded:
  "\<forall>m\<in>set ms. length m = 3 \<Longrightarrow>
   rtmidi_out_send_all R ms S = Some (fold (\<lambda>m. device_takes R ([0, 0, 0, 0] @ m)) ms S)"
proof (induction ms arbitrary: S)
  case (Cons m ms)
  then have "rtmidi_out_send R m S = Some (device_takes R ([0, 0, 0, 0] @ m) S)"
    by (simp add: rtmidi_out_send_def send_message_padded changed_def device_takes_def split: sum.split)
  with Cons show ?case by simp
qed simp

text \<open>
  A message of a device: with three or four bytes the first three go into the pipe; with less the rest
  is what the stack held; a longer one, every system exclusive message, overruns the stack.
\<close>

lemma four_bytes: "length M = 4 \<Longrightarrow> \<exists>x y z w. M = [x, y, z, w]"
  by (auto simp: numeral_eq_Suc length_Suc_conv)

lemma receive_message:
  "rtmidi_in_receive Q J stk dat message r =
    (if 4 < length message then None
     else rtmidi_in_cb Q J stk dat (take 3 (message @ drop (length message) (fill_to 4 stk))) r)"
proof (cases "4 < length message")
  case False
  have "rtmidi_in_cb Q J stk dat M r = rtmidi_in_cb Q J stk dat (take 3 M) r" if "length M = 4" for M
    using four_bytes [OF that] by (auto simp: rtmidi_in_cb_def)
  moreover have "length (message @ drop (length message) (fill_to 4 stk)) = 4" using False by simp
  ultimately show ?thesis using False by (simp add: rtmidi_in_receive_def callbackWrapper_def overlay_def)
qed (simp add: rtmidi_in_receive_def callbackWrapper_def)

end
