(* ===== verification/Device_Properties.thy ===== *)
theory Device_Properties
  imports Rtmidi Module_Properties
begin

text \<open>The properties of MIDI devices: what reaches a device, and what its messages do.\<close>

text \<open>C21. MIDI to a device. What \<open>rtmidi_out\<close> makes of a message with \<open>k\<close> MIDI events: the device is handed
  \<open>k\<close> messages of seven bytes, each beginning with four zero bytes; behind them are the first event, the
  third and so on, running past the end of the message into the \<open>k\<close> groups of four bytes that lie there.
  (The vector is created with four elements; a \<open>break\<close> is missing.)\<close>
theorem rtmidi_out_received:
  assumes "osc_lib Q" and "osc_check_path Q ''/midi''" and "length stale = length bs" and "\<forall>M\<in>set stale. length M = 4"
  shows "rtmidi_out_send_all R (rtmidi_out_calls Q (concat stale)
      (osc_dispatch_method Q t (osc_message ''/midi'' (midi_args bs)) any_method)) S =
    Some (fold (\<lambda>M. device_takes R [0, 0, 0, 0, M ! 1, M ! 2, M ! 3])
      (every_other (map osc_enc (midi_args bs) @ stale)) S)"
proof -
  have "method_for any_method ''/midi'' (map osc_tag (midi_args bs)) = Some 0"
    by (simp add: method_for_def any_method_def)
  then have "osc_dispatch_method Q t (osc_message ''/midi'' (midi_args bs)) any_method =
      [Call t 0 ''/midi'' (map osc_tag (midi_args bs)) (concat (map osc_enc (midi_args bs)))]"
    using osc_lib.dispatch [OF assms(1,2) midi_args_valid, of t bs any_method] by simp
  moreover have "seq_midi Q (map osc_tag (midi_args bs)) (concat (map osc_enc (midi_args bs) @ stale)) =
      map (\<lambda>M. [M ! 1, M ! 2, M ! 3]) (every_other (map osc_enc (midi_args bs) @ stale))"
    by (rule seq_midi_skips [OF assms(1,3,4)])
  ultimately have "rtmidi_out_calls Q (concat stale)
      (osc_dispatch_method Q t (osc_message ''/midi'' (midi_args bs)) any_method) =
      map (\<lambda>M. [M ! 1, M ! 2, M ! 3]) (every_other (map osc_enc (midi_args bs) @ stale))"
    by (simp add: rtmidi_midi_def)
  then show ?thesis by (simp add: send_all_padded fold_map o_def)
qed

text \<open>A device that keeps what it is sent.\<close>

definition list_device :: "byte list list rtmidi" where
  "list_device = \<lparr>rm_new = (\<lambda>a n. Inr []), rm_delete = (\<lambda>d. Inr ()), rm_getCurrentApi = (\<lambda>d. Inr LINUX_ALSA),
     rm_getPortCount = (\<lambda>d. Inr 1), rm_getPortName = (\<lambda>d k. Inr ''port''), rm_openPort = (\<lambda>d k n. Inr d),
     rm_openVirtualPort = (\<lambda>d n. Inr d), rm_closePort = Inr, rm_setCallback = Inr, rm_cancelCallback = Inr,
     rm_sendMessage = (\<lambda>d m. Inr (d @ [m]))\<rparr>"

theorem rtmidi_out_received_witness:
  "rtmidi_out_send_all list_device (rtmidi_out_calls osc_ref [0, 1, 2, 3]
      (osc_dispatch_method osc_ref 0 (osc_message ''/midi'' (midi_args [[144, 60, 100]])) any_method)) ([], []) =
    Some ([[0, 0, 0, 0, 144, 60, 100]], [])"
  using rtmidi_out_received [OF osc_ref.osc_lib_axioms, of "[[0, 1, 2, 3]]" "[[144, 60, 100]]" list_device 0 "([], [])"]
  by (simp add: midi_args_def list_device_def device_takes_def osc_ref_def)

text \<open>Messages of a device. A message of more than four bytes, as every system exclusive one, is
  written past the end of the four bytes of the wrapper. One of two bytes (a program change) goes into
  the pipe as three, the third being what the stack held.\<close>
theorem rtmidi_in_message_limits:
  assumes "4 < length sysex"
  shows "rtmidi_in_receive Q J stk dat sysex r = None \<and>
    rtmidi_in_receive Q J stk dat [a, b] r = rtmidi_in_cb Q J stk dat [a, b, fill_to 4 stk ! 2] r"
proof -
  obtain x y z w where s: "fill_to 4 stk = [x, y, z, w]"
    using four_bytes [of "fill_to 4 stk"] by auto
  have "rtmidi_in_receive Q J stk dat sysex r = None"
    using assms receive_message [of Q J stk dat sysex r] by fastforce
  moreover have "rtmidi_in_receive Q J stk dat [a, b] r = rtmidi_in_cb Q J stk dat [a, b, fill_to 4 stk ! 2] r"
    using receive_message [of Q J stk dat "[a, b]" r] by (simp add: s)
  ultimately show ?thesis by simp
qed

theorem rtmidi_in_message_limits_witness:
  "rtmidi_in_receive osc_ref circ_ops [] 20000 [240, 1, 2, 3, 247] (circ_with [] 200) = None"
  using rtmidi_in_message_limits [of "[240, 1, 2, 3, 247]" osc_ref circ_ops "[]" 20000 "circ_with [] 200"] by simp

end
