(* ===== verification/Inlist.thy ===== *)
theory Inlist
  imports Tjost_Prelude
begin

text \<open>
  The intrusive doubly linked lists of \<open>inlist.h\<close>, with pointers: a memory of nodes, in which the head of a
  list also knows its last node. The theory holds the operations, the invariant of the pointers, and the
  refinement of each operation to one on sequences. The header is the repository's copy of the lists of
  Eina that the host works with; the model of the host has them as sequences.
\<close>

section \<open>Nodes and operations\<close>

record inode =
  i_next :: "addr option"
  i_prev :: "addr option"
  i_last :: "addr option"

type_synonym nodes = "addr \<Rightarrow> inode"

definition set_next :: "addr \<Rightarrow> addr option \<Rightarrow> nodes \<Rightarrow> nodes" where
  "set_next a p M = M(a := (M a)\<lparr>i_next := p\<rparr>)"

definition set_prev :: "addr \<Rightarrow> addr option \<Rightarrow> nodes \<Rightarrow> nodes" where
  "set_prev a p M = M(a := (M a)\<lparr>i_prev := p\<rparr>)"

definition set_last :: "addr \<Rightarrow> addr option \<Rightarrow> nodes \<Rightarrow> nodes" where
  "set_last a p M = M(a := (M a)\<lparr>i_last := p\<rparr>)"

lemma set_simps [simp]:
  "i_next (set_next a p M x) = (if x = a then p else i_next (M x))" "i_prev (set_next a p M x) = i_prev (M x)"
  "i_last (set_next a p M x) = i_last (M x)" "i_next (set_prev a p M x) = i_next (M x)"
  "i_prev (set_prev a p M x) = (if x = a then p else i_prev (M x))" "i_last (set_prev a p M x) = i_last (M x)"
  "i_next (set_last a p M x) = i_next (M x)" "i_prev (set_last a p M x) = i_prev (M x)"
  "i_last (set_last a p M x) = (if x = a then p else i_last (M x))"
  by (simp_all add: set_next_def set_prev_def set_last_def)

text \<open>The loop that looks for the last node; it does not end on a ring.\<close>

partial_function (option) last_node :: "nodes \<Rightarrow> addr \<Rightarrow> addr option" where
  "last_node M l = (case i_next (M l) of None \<Rightarrow> Some l | Some k \<Rightarrow> last_node M k)"

definition inlist_append :: "addr option \<Rightarrow> addr option \<Rightarrow> nodes \<Rightarrow> (addr option \<times> nodes) option" where
  "inlist_append lst new_l M =
     (case new_l of None \<Rightarrow> Some (lst, M)
      | Some n \<Rightarrow>
          let M1 = set_next n None M
          in case lst of None \<Rightarrow> Some (Some n, set_last n (Some n) (set_prev n None M1))
             | Some h \<Rightarrow>
                 do { l \<leftarrow> (case i_last (M1 h) of Some l \<Rightarrow> Some l | None \<Rightarrow> last_node M1 h);
                      Some (lst, set_last h (Some n) (set_prev n (Some l) (set_next l (Some n) M1))) })"

definition inlist_prepend :: "addr option \<Rightarrow> addr option \<Rightarrow> nodes \<Rightarrow> addr option \<times> nodes" where
  "inlist_prepend lst new_l M =
     (case new_l of None \<Rightarrow> (lst, M)
      | Some n \<Rightarrow>
          let M1 = set_prev n None M
          in case lst of None \<Rightarrow> (Some n, set_last n (Some n) (set_next n None M1))
             | Some h \<Rightarrow>
                 let M2 = set_prev h (Some n) (set_next n (Some h) M1)
                 in (Some n, set_last h None (set_last n (i_last (M2 h)) M2)))"

text \<open>A node with no neighbour that is not the head is not in the list.\<close>

definition inlist_remove :: "addr option \<Rightarrow> addr option \<Rightarrow> nodes \<Rightarrow> addr option \<times> nodes" where
  "inlist_remove lst itm M =
     (case lst of None \<Rightarrow> (None, M)
      | Some h \<Rightarrow>
          (case itm of None \<Rightarrow> (lst, M)
           | Some a \<Rightarrow>
               if a \<noteq> h \<and> i_prev (M a) = None \<and> i_next (M a) = None then (lst, M)
               else
                 let M1 = (case i_next (M a) of None \<Rightarrow> M | Some k \<Rightarrow> set_prev k (i_prev (M a)) M);
                     (r, M2) = (case i_prev (M1 a) of
                         Some p \<Rightarrow> (lst, set_next p (i_next (M1 a)) M1)
                       | None \<Rightarrow> (i_next (M1 a),
                           case i_next (M1 a) of None \<Rightarrow> M1 | Some k \<Rightarrow> set_last k (i_last (M1 h)) M1));
                     M3 = (if i_last (M2 h) = Some a then set_last h (i_prev (M2 a)) M2 else M2)
                 in (r, set_prev a None (set_next a None M3))))"

text \<open>The loops: \<open>INLIST_FOREACH\<close> as the list of the nodes it visits, and its reverse.\<close>

partial_function (option) inlist_foreach :: "nodes \<Rightarrow> addr option \<Rightarrow> addr list option" where
  "inlist_foreach M l = (case l of None \<Rightarrow> Some [] | Some a \<Rightarrow> do { as \<leftarrow> inlist_foreach M (i_next (M a)); Some (a # as) })"

partial_function (option) inlist_back :: "nodes \<Rightarrow> addr option \<Rightarrow> addr list option" where
  "inlist_back M l = (case l of None \<Rightarrow> Some [] | Some a \<Rightarrow> do { as \<leftarrow> inlist_back M (i_prev (M a)); Some (a # as) })"

definition inlist_reverse_foreach :: "nodes \<Rightarrow> addr option \<Rightarrow> addr list option" where
  "inlist_reverse_foreach M l = (case l of None \<Rightarrow> Some [] | Some a \<Rightarrow> inlist_back M (i_last (M a)))"

text \<open>The count is an \<open>unsigned int\<close>.\<close>

partial_function (option) count_from :: "nodes \<Rightarrow> addr option \<Rightarrow> 32 word \<Rightarrow> 32 word option" where
  "count_from M l i = (case l of None \<Rightarrow> Some i | Some a \<Rightarrow> count_from M (i_next (M a)) (i + 1))"

definition inlist_count :: "nodes \<Rightarrow> addr option \<Rightarrow> 32 word option" where
  "inlist_count M lst = count_from M lst 0"

section \<open>The invariant\<close>

definition first_opt_or :: "'a option \<Rightarrow> 'a list \<Rightarrow> 'a option" where
  "first_opt_or d xs = (case xs of [] \<Rightarrow> d | x # _ \<Rightarrow> Some x)"

definition last_opt_or :: "'a option \<Rightarrow> 'a list \<Rightarrow> 'a option" where
  "last_opt_or d xs = (if xs = [] then d else Some (last xs))"

lemma first_opt_or_simps [simp]: "first_opt_or d [] = d" "first_opt_or d (x # xs) = Some x"
  "first_opt_or d (xs @ ys) = first_opt_or (first_opt_or d ys) xs"
  by (simp_all add: first_opt_or_def split: list.split)

lemma last_opt_or_simps [simp]: "last_opt_or d [] = d" "last_opt_or d (x # xs) = last_opt_or (Some x) xs"
  "last_opt_or d (xs @ ys) = last_opt_or (last_opt_or d xs) ys"
  by (simp_all add: last_opt_or_def)

lemma last_opt_or_Some [simp]: "last_opt_or (Some d) xs \<noteq> None"
  by (simp add: last_opt_or_def)

text \<open>A segment: every node points to its neighbours, the outer ones to \<open>p\<close> and \<open>n\<close>.\<close>

fun seg :: "nodes \<Rightarrow> addr option \<Rightarrow> addr list \<Rightarrow> addr option \<Rightarrow> bool" where
  "seg M p [] n \<longleftrightarrow> True"
| "seg M p (x # xs) n \<longleftrightarrow> i_prev (M x) = p \<and> i_next (M x) = first_opt_or n xs \<and> seg M (Some x) xs n"

lemma seg_append [simp]: "seg M p (xs @ ys) n \<longleftrightarrow> seg M p xs (first_opt_or n ys) \<and> seg M (last_opt_or p xs) ys n"
  by (induction xs arbitrary: p) auto

lemma seg_cong:
  "\<forall>x\<in>set xs. i_next (M x) = i_next (N x) \<and> i_prev (M x) = i_prev (N x) \<Longrightarrow> seg M p xs n = seg N p xs n"
  by (induction xs arbitrary: p) auto

lemma seg_end:
  assumes "seg M p xs n" and "distinct xs"
    and "\<forall>x\<in>set xs. i_prev (N x) = i_prev (M x) \<and> i_next (N x) = (if last_opt_or None xs = Some x then m else i_next (M x))"
  shows "seg N p xs m"
proof (cases xs rule: rev_cases)
  case (snoc zs l)
  have "seg N p zs (Some l) = seg M p zs (Some l)" using assms(2,3) snoc by (intro seg_cong) (auto simp: last_opt_or_def)
  with assms snoc show ?thesis by (simp add: last_opt_or_def)
qed simp

lemma seg_start:
  assumes "seg M p xs n" and "distinct xs"
    and "\<forall>x\<in>set xs. i_next (N x) = i_next (M x) \<and> i_prev (N x) = (if first_opt_or None xs = Some x then q else i_prev (M x))"
  shows "seg N q xs n"
proof (cases xs)
  case (Cons y ys)
  have "seg N (Some y) ys n = seg M (Some y) ys n" using assms(2,3) Cons by (intro seg_cong) auto
  with assms Cons show ?thesis by simp
qed simp

text \<open>\<open>lst\<close> is the head of the list \<open>xs\<close>; it knows the last node, or \<open>last\<close> is NULL where \<open>full\<close> does not hold.\<close>

definition inlist :: "bool \<Rightarrow> nodes \<Rightarrow> addr option \<Rightarrow> addr list \<Rightarrow> bool" where
  "inlist full M lst xs \<longleftrightarrow> distinct xs \<and> lst = first_opt_or None xs \<and> seg M None xs None \<and>
     (\<forall>h. lst = Some h \<longrightarrow> i_last (M h) = last_opt_or None xs \<or> \<not> full \<and> i_last (M h) = None)"

text \<open>A node outside of every list.\<close>

definition unlinked :: "nodes \<Rightarrow> addr \<Rightarrow> bool" where
  "unlinked M a \<longleftrightarrow> i_next (M a) = None \<and> i_prev (M a) = None"

section \<open>The operations keep it\<close>

lemma last_node_seg: "seg M p (x # xs) None \<Longrightarrow> last_node M x = last_opt_or None (x # xs)"
proof (induction xs arbitrary: p x)
  case Nil
  then show ?case by (simp add: last_node.simps)
next
  case (Cons y xs)
  then have "last_node M y = last_opt_or None (y # xs)" by simp
  with Cons.prems show ?case by (subst last_node.simps) simp
qed

lemma inlist_append_correct:
  assumes l: "inlist full M lst xs" and n: "n \<notin> set xs"
  shows "\<exists>M'. inlist_append lst (Some n) M = Some (first_opt_or None (xs @ [n]), M') \<and>
    inlist True M' (first_opt_or None (xs @ [n])) (xs @ [n]) \<and> (\<forall>a. a \<notin> set (n # xs) \<longrightarrow> M' a = M a)"
proof (cases xs)
  case Nil
  with l show ?thesis by (simp add: inlist_append_def inlist_def Let_def set_next_def set_prev_def set_last_def)
next
  case (Cons h ys)
  let ?M1 = "set_next n None M"
  from Cons obtain zs l where zs: "xs = zs @ [l]" by (metis append_butlast_last_id list.distinct(1))
  have lst: "lst = Some h" "distinct xs" "seg M None xs None" using l Cons by (simp_all add: inlist_def)
  have "seg ?M1 None xs None = seg M None xs None" using n by (intro seg_cong) auto
  then have s1: "seg ?M1 None xs None" using lst by simp
  have last: "last_opt_or None xs = Some l" by (simp add: zs)
  have "last_node ?M1 h = Some l" using last_node_seg [of ?M1 None h ys] s1 last Cons by simp
  then have k: "(case i_last (?M1 h) of Some l \<Rightarrow> Some l | None \<Rightarrow> last_node ?M1 h) = Some l"
    using l last lst(1) by (auto simp: inlist_def split: option.split)
  define M' where "M' = set_last h (Some n) (set_prev n (Some l) (set_next l (Some n) ?M1))"
  have "h \<in> set xs" using Cons by simp
  then have nl: "n \<noteq> l" "n \<notin> set zs" "l \<notin> set zs" "h \<noteq> n" using n zs lst(2) by auto
  have "seg M' None zs (Some l) = seg ?M1 None zs (Some l)" using nl by (intro seg_cong) (auto simp: M'_def)
  then have "seg M' None (xs @ [n]) None" using s1 nl by (simp add: zs M'_def)
  moreover from zs have "l \<in> set xs" by simp
  with \<open>h \<in> set xs\<close> have "\<forall>a. a \<notin> set (n # xs) \<longrightarrow> M' a = M a"
    by (auto simp: M'_def set_next_def set_prev_def set_last_def)
  moreover have f: "first_opt_or None (xs @ [n]) = Some h" using Cons by simp
  then have "inlist_append lst (Some n) M = Some (first_opt_or None (xs @ [n]), M')"
    using k lst(1) by (simp add: inlist_append_def Let_def M'_def)
  moreover have "i_last (M' h) = last_opt_or None (xs @ [n])" by (simp add: M'_def last_opt_or_def)
  ultimately show ?thesis using lst n f unfolding inlist_def by (intro exI [of _ M']) auto
qed

lemma inlist_prepend_correct:
  assumes l: "inlist full M lst xs" and n: "n \<notin> set xs"
  shows "\<exists>M'. inlist_prepend lst (Some n) M = (Some n, M') \<and> inlist full M' (Some n) (n # xs) \<and>
    (\<forall>a. a \<notin> set (n # xs) \<longrightarrow> M' a = M a)"
proof (cases xs)
  case Nil
  with l show ?thesis by (simp add: inlist_prepend_def inlist_def Let_def set_next_def set_prev_def set_last_def)
next
  case (Cons h ys)
  have lst: "lst = Some h" "distinct xs" "seg M None xs None" using l Cons by (simp_all add: inlist_def)
  have nl: "n \<noteq> h" "n \<notin> set ys" "h \<notin> set ys" using n Cons lst(2) by auto
  let ?M2 = "set_prev h (Some n) (set_next n (Some h) (set_prev n None M))"
  define M' where "M' = set_last h None (set_last n (i_last (?M2 h)) ?M2)"
  have "seg M' (Some h) ys None = seg M (Some h) ys None" using nl by (intro seg_cong) (auto simp: M'_def)
  then have "seg M' None (n # xs) None" using lst(3) nl Cons by (simp add: M'_def)
  moreover have "\<forall>a. a \<notin> set (n # xs) \<longrightarrow> M' a = M a"
    using Cons by (auto simp: M'_def set_next_def set_prev_def set_last_def)
  moreover have "inlist_prepend lst (Some n) M = (Some n, M')" using lst(1) by (simp add: inlist_prepend_def Let_def M'_def)
  moreover have "i_last (M' n) = last_opt_or None (n # xs) \<or> \<not> full \<and> i_last (M' n) = None"
    using l nl Cons lst(1) by (auto simp: inlist_def M'_def)
  ultimately show ?thesis using lst(2) n by (intro exI [of _ M']) (auto simp: inlist_def)
qed

text \<open>Removing a node of the list takes it out of the sequence and unlinks it.\<close>

lemma inlist_remove_correct:
  assumes l: "inlist full M lst (ys @ a # zs)"
  shows "\<exists>M'. inlist_remove lst (Some a) M = (first_opt_or None (ys @ zs), M') \<and>
    inlist full M' (first_opt_or None (ys @ zs)) (ys @ zs) \<and> unlinked M' a \<and>
    (\<forall>b. b \<notin> set (ys @ a # zs) \<longrightarrow> M' b = M b)"
proof -
  let ?xs = "ys @ a # zs"
  obtain h where h: "lst = Some h" "h \<in> set ?xs" using l by (cases ys) (auto simp: inlist_def)
  have d: "a \<notin> set ys" "a \<notin> set zs" "distinct ys" "distinct zs" "set ys \<inter> set zs = {}"
    using l by (auto simp: inlist_def)
  have s: "seg M None ys (Some a)" "i_prev (M a) = last_opt_or None ys" "i_next (M a) = first_opt_or None zs" "seg M (Some a) zs None"
    using l by (simp_all add: inlist_def)
  have hd: "h = (case ys of [] \<Rightarrow> a | y # _ \<Rightarrow> y)" using l h(1) by (cases ys) (simp_all add: inlist_def)
  have guard: "\<not> (a \<noteq> h \<and> i_prev (M a) = None \<and> i_next (M a) = None)"
    using s(2) hd by (cases ys) (auto simp: last_opt_or_def)
  define r where "r = inlist_remove lst (Some a) M"
  define M' where "M' = snd r"
  have first: "first_opt_or None zs = Some b \<Longrightarrow> b \<in> set zs" and last: "last_opt_or None ys = Some b \<Longrightarrow> b \<in> set ys" for b
    by (cases zs; simp) (auto simp: last_opt_or_def split: if_splits)
  have f: "fst r = first_opt_or None (ys @ zs)"
  proof (cases "i_prev (M a)")
    case None
    then have "ys = []" using s(2) by (simp add: last_opt_or_def split: if_splits)
    then show ?thesis
      using guard s d h hd first by (auto simp: r_def inlist_remove_def Let_def split: option.split)
  next
    case (Some p)
    then obtain y ys' where ys: "ys = y # ys'" using s(2) by (cases ys) auto
    then show ?thesis
      using Some guard s d h hd first by (auto simp: r_def inlist_remove_def Let_def split: option.split)
  qed
  have nx: "i_next (M' b) = (if b = a then None else if last_opt_or None ys = Some b then first_opt_or None zs else i_next (M b))" for b
    using guard s d h(1) by (auto simp: M'_def r_def inlist_remove_def Let_def split: option.split)
  have pv: "i_prev (M' b) = (if b = a then None else if first_opt_or None zs = Some b then last_opt_or None ys else i_prev (M b))" for b
    using guard s d h(1) by (auto simp: M'_def r_def inlist_remove_def Let_def split: option.split)
  have "seg M' None ys (first_opt_or None zs)"
    by (rule seg_end [OF s(1) d(3)]) (use d first in \<open>auto simp: nx pv\<close>)
  moreover have "seg M' (last_opt_or None ys) zs None"
    by (rule seg_start [OF s(4) d(4)]) (use d last in \<open>auto simp: nx pv\<close>)
  ultimately have sg: "seg M' None (ys @ zs) None" by simp
  have ls: "i_last (M' k) = last_opt_or None (ys @ zs) \<or> \<not> full \<and> i_last (M' k) = None"
    if k: "first_opt_or None (ys @ zs) = Some k" for k
  proof (cases ys)
    case Nil
    then obtain zs' where "zs = k # zs'" using k Nil by (cases zs) auto
    with Nil l h hd s d guard show ?thesis
      by (auto simp: inlist_def M'_def r_def inlist_remove_def Let_def last_opt_or_def)
  next
    case (Cons y ys')
    with k hd have "k = h" "h \<noteq> a" using d by auto
    have ih: "i_last (M h) = last_opt_or (Some a) zs \<or> \<not> full \<and> i_last (M h) = None"
      using l h(1) by (simp add: inlist_def)
    have p: "\<exists>p. i_prev (M a) = Some p" using s(2) Cons by (simp add: last_opt_or_def)
    show ?thesis
    proof (cases zs)
      case Nil
      with \<open>k = h\<close> \<open>h \<noteq> a\<close> ih p s(2,3) h(1) show ?thesis
        by (auto simp: M'_def r_def inlist_remove_def Let_def)
    next
      case (Cons z zs')
      then have "last_opt_or (Some a) zs \<noteq> Some a" "last_opt_or None (ys @ zs) = last_opt_or (Some a) zs"
        using d(2) by (auto simp: last_opt_or_def)
      with \<open>k = h\<close> \<open>h \<noteq> a\<close> ih p s(2,3) h(1) Cons show ?thesis
        by (auto simp: M'_def r_def inlist_remove_def Let_def)
    qed
  qed
  have "M' b = M b" if "b \<notin> set ?xs" for b
    using that guard s h first last
    by (auto simp: M'_def r_def inlist_remove_def Let_def set_next_def set_prev_def set_last_def split: option.split)
  moreover have "inlist full M' (first_opt_or None (ys @ zs)) (ys @ zs)"
    using sg ls d by (auto simp: inlist_def)
  moreover have "unlinked M' a" by (simp add: unlinked_def nx pv)
  moreover have "inlist_remove lst (Some a) M = (first_opt_or None (ys @ zs), M')"
    using f by (metis M'_def r_def prod.collapse)
  ultimately show ?thesis by blast
qed

section \<open>The loops\<close>

lemma foreach_seg: "seg M p xs None \<Longrightarrow> inlist_foreach M (first_opt_or None xs) = Some xs"
proof (induction xs arbitrary: p)
  case Nil
  then show ?case by (simp add: inlist_foreach.simps)
next
  case (Cons x xs)
  then have "inlist_foreach M (first_opt_or None xs) = Some xs" using Cons.IH [of "Some x"] by simp
  with Cons.prems show ?case by (subst inlist_foreach.simps) simp
qed

lemma back_seg: "seg M None xs n \<Longrightarrow> inlist_back M (last_opt_or None xs) = Some (rev xs)"
proof (induction xs arbitrary: n rule: rev_induct)
  case Nil
  then show ?case by (simp add: inlist_back.simps)
next
  case (snoc x xs)
  then have "inlist_back M (last_opt_or None xs) = Some (rev xs)" using snoc.IH [of "Some x"] by simp
  with snoc.prems show ?case by (subst inlist_back.simps) simp
qed

lemma count_seg: "seg M p xs None \<Longrightarrow> count_from M (first_opt_or None xs) i = Some (i + of_nat (length xs))"
proof (induction xs arbitrary: p i)
  case Nil
  then show ?case by (simp add: count_from.simps)
next
  case (Cons x xs)
  then have "count_from M (first_opt_or None xs) (i + 1) = Some (i + 1 + of_nat (length xs))"
    using Cons.IH [of "Some x" "i + 1"] by simp
  with Cons.prems show ?case by (subst count_from.simps) (simp add: ac_simps)
qed

text \<open>Backwards works where the head knows the last node.\<close>

lemma inlist_loops:
  assumes "inlist full M lst xs"
  shows "inlist_foreach M lst = Some xs" "inlist_count M lst = Some (of_nat (length xs))"
    "full \<Longrightarrow> inlist_reverse_foreach M lst = Some (rev xs)"
proof -
  have s: "seg M None xs None" "lst = first_opt_or None xs" using assms by (simp_all add: inlist_def)
  show "inlist_foreach M lst = Some xs" "inlist_count M lst = Some (of_nat (length xs))"
    using foreach_seg [OF s(1)] count_seg [OF s(1), of 0] s(2) by (simp_all add: inlist_count_def)
  show "inlist_reverse_foreach M lst = Some (rev xs)" if full
  proof (cases xs)
    case Nil
    with s(2) show ?thesis by (simp add: inlist_reverse_foreach_def)
  next
    case (Cons h ys)
    with s(2) assms that have "i_last (M h) = last_opt_or None xs" by (auto simp: inlist_def)
    with Cons s(2) back_seg [OF s(1)] show ?thesis by (simp add: inlist_reverse_foreach_def)
  qed
qed

section \<open>Sequences of operations\<close>

datatype list_op = Append addr | Prepend addr | Remove addr

fun inlist_op :: "list_op \<Rightarrow> addr option \<times> nodes \<Rightarrow> (addr option \<times> nodes) option" where
  "inlist_op (Append a) (lst, M) = inlist_append lst (Some a) M"
| "inlist_op (Prepend a) (lst, M) = Some (inlist_prepend lst (Some a) M)"
| "inlist_op (Remove a) (lst, M) = Some (inlist_remove lst (Some a) M)"

fun inlist_run :: "list_op list \<Rightarrow> addr option \<times> nodes \<Rightarrow> (addr option \<times> nodes) option" where
  "inlist_run [] S = Some S"
| "inlist_run (x # xs) S = do { S1 \<leftarrow> inlist_op x S; inlist_run xs S1 }"

text \<open>The same on a sequence; a node must not be in the list to be put there, and be in it to be taken away.\<close>

fun seq_op :: "list_op \<Rightarrow> addr list \<Rightarrow> addr list option" where
  "seq_op (Append a) xs = (if a \<in> set xs then None else Some (xs @ [a]))"
| "seq_op (Prepend a) xs = (if a \<in> set xs then None else Some (a # xs))"
| "seq_op (Remove a) xs = (if a \<in> set xs then Some (remove1 a xs) else None)"

fun seq_run :: "list_op list \<Rightarrow> addr list \<Rightarrow> addr list option" where
  "seq_run [] xs = Some xs"
| "seq_run (x # ops) xs = do { ys \<leftarrow> seq_op x xs; seq_run ops ys }"

lemma inlist_op_refines:
  assumes l: "inlist True M lst xs" and x: "seq_op x xs = Some ys"
  shows "\<exists>lst' M'. inlist_op x (lst, M) = Some (lst', M') \<and> inlist True M' lst' ys"
proof (cases x)
  case (Append a)
  with x have "a \<notin> set xs" "ys = xs @ [a]" by (auto split: if_splits)
  with inlist_append_correct [OF l, of a] Append show ?thesis by auto
next
  case (Prepend a)
  with x have "a \<notin> set xs" "ys = a # xs" by (auto split: if_splits)
  with inlist_prepend_correct [OF l, of a] Prepend show ?thesis by auto
next
  case (Remove a)
  with x have "a \<in> set xs" "ys = remove1 a xs" by (auto split: if_splits)
  then obtain us vs where "xs = us @ a # vs" "ys = us @ vs"
    by (metis remove1_append remove1.simps(2) split_list_first)
  with inlist_remove_correct [of True M lst us a vs] l Remove show ?thesis by auto
qed

lemma inlist_run_refines:
  "inlist True M lst xs \<Longrightarrow> seq_run ops xs = Some ys \<Longrightarrow>
   \<exists>lst' M'. inlist_run ops (lst, M) = Some (lst', M') \<and> inlist True M' lst' ys"
proof (induction ops arbitrary: M lst xs)
  case (Cons x ops)
  from Cons.prems(2) obtain zs where z: "seq_op x xs = Some zs" "seq_run ops zs = Some ys"
    by (auto simp: bind_eq_Some_conv)
  from inlist_op_refines [OF Cons.prems(1) z(1)] Cons.IH [OF _ z(2)] show ?case by fastforce
qed simp

text \<open>C40. The intrusive lists. Every sequence of insertions at the end, insertions at the front and removals
  does to the pointers what it does to a sequence of nodes: from the empty list (or any well-formed
  one) each operation returns, the loops visit exactly the nodes of the sequence, forwards and
  backwards, and the count is its length modulo \<open>2 ^ 32\<close>.\<close>
theorem inlist_refines:
  assumes "inlist True M lst xs" and "seq_run ops xs = Some ys"
  shows "\<exists>lst' M'. inlist_run ops (lst, M) = Some (lst', M') \<and> inlist_foreach M' lst' = Some ys \<and>
    inlist_reverse_foreach M' lst' = Some (rev ys) \<and> inlist_count M' lst' = Some (of_nat (length ys))"
  using inlist_run_refines [OF assms] inlist_loops(1,2) inlist_loops(3) [OF _ TrueI] by blast

theorem inlist_refines_witness:
  "\<exists>lst' M'. inlist_run [Append 1, Append 2, Prepend 3, Remove 1] (None, \<lambda>a. \<lparr>i_next = None, i_prev = None, i_last = None\<rparr>) =
      Some (lst', M') \<and> inlist_foreach M' lst' = Some [3, 2] \<and> inlist_reverse_foreach M' lst' = Some [2, 3]"
proof -
  have "inlist True (\<lambda>a. \<lparr>i_next = None, i_prev = None, i_last = None\<rparr>) None []" by (simp add: inlist_def)
  from inlist_refines [OF this, of "[Append 1, Append 2, Prepend 3, Remove 1]" "[3, 2]"] show ?thesis by auto
qed

end
