(* ===== verification/Lua_Setup.thy ===== *)
theory Lua_Setup
  imports Lua_Modules
begin

text \<open>
  The environment of a script (\<open>tjost_lua.c\<close>): the metatables of the objects and the functions behind
  them with their type checks, \<open>print\<close> and \<open>hostname\<close>, and what \<open>tjost_lua_init\<close> and
  \<open>tjost_lua_deregister\<close> do to the globals. The tables the standard libraries leave behind are an argument.
\<close>

section \<open>Functions and tables\<close>

datatype c_function = Plugin | Chain | Blob | Midi | Hostname | Print |
  Call_Output | Call_In_Out | Call_Uplink | Clear_Output | Clear_In_Out | Clear_Uplink |
  Gc_Input | Gc_Output | Gc_In_Out | Gc_Uplink |
  Index_Blob | Newindex_Blob | Len_Blob | Index_Midi | Newindex_Midi | Len_Midi | Library string









section \<open>Methods of modules\<close>









section \<open>Printing\<close>

text \<open>
  The loop of \<open>_print\<close> on the stack, top first: the two topmost values with a tab between them become one.
  \<open>tostr\<close> is the conversion of strings and numbers, \<open>None\<close> for a value that has none: an error of
  \<open>lua_concat\<close>, and NULL for \<open>lua_tostring\<close>.
\<close>

fun concat_top :: "(lua_value \<Rightarrow> string option) \<Rightarrow> lua_value list \<Rightarrow> lua_value list option" where
  "concat_top tostr (v # w # vs) =
     do { b \<leftarrow> tostr v; a \<leftarrow> tostr w; concat_top tostr (Lua_String (a @ [CHR 0x09] @ b) # vs) }"
| "concat_top tostr vs = Some vs"

definition lua_print ::
  "(lua_value \<Rightarrow> string option) \<Rightarrow> ('t, 'r) env \<Rightarrow> lua_value list \<Rightarrow> ('t, 'r) host \<Rightarrow> (bool \<times> ('t, 'r) host) option" where
  "lua_print tostr E vs h =
     (if vs = [] then Some (False, h)
      else case concat_top tostr (rev vs) of None \<Rightarrow> Some (True, h)
           | Some ws \<Rightarrow> do { s \<leftarrow> tostr (hd ws); h1 \<leftarrow> tjost_host_message_push E h s; Some (False, h1) })"

text \<open>The array is never NULL; a name of 256 characters or more is left without its NUL.\<close>

definition lua_hostname :: "string \<Rightarrow> lua_value option" where
  "lua_hostname name = (if length name < 256 then Some (Lua_String name) else None)"

section \<open>Setting up\<close>







section \<open>What a script finds\<close>









text \<open>What \<open>print\<close> prints: the values with tabs between them.\<close>

fun tabbed :: "string list \<Rightarrow> string" where
  "tabbed [] = []"
| "tabbed [s] = s"
| "tabbed (s # ss) = s @ [CHR 0x09] @ tabbed ss"

lemma tabbed_Cons: "ss \<noteq> [] \<Longrightarrow> tabbed (s # ss) = s @ [CHR 0x09] @ tabbed ss"
  by (cases ss) simp_all

lemma concat_top_tabbed:
  assumes t: "\<And>s. tostr (Lua_String s) = Some s"
  shows "tostr v = Some s \<Longrightarrow> list_all2 (\<lambda>w r. tostr w = Some r) ws rs \<Longrightarrow>
    \<exists>x. concat_top tostr (v # ws) = Some [x] \<and> tostr x = Some (tabbed (rev rs @ [s]))"
proof (induction ws arbitrary: v s rs)
  case (Cons w ws)
  then obtain r rs' where rs: "rs = r # rs'" "tostr w = Some r" "list_all2 (\<lambda>w r. tostr w = Some r) ws rs'"
    by (auto simp: list_all2_Cons1)
  have "tabbed (us @ [r @ [CHR 0x09] @ s]) = tabbed (us @ [r, s])" for us
    by (induction us) (simp_all add: tabbed_Cons)
  with Cons.IH [of "Lua_String (r @ [CHR 0x09] @ s)" "r @ [CHR 0x09] @ s" rs'] Cons.prems(1) rs t show ?case by simp
qed simp

lemma lua_print_eq:
  assumes "\<And>s. tostr (Lua_String s) = Some s" and "list_all2 (\<lambda>v s. tostr v = Some s) vs ss" and "vs \<noteq> []"
  shows "lua_print tostr E vs h = map_option (Pair False) (tjost_host_message_push E h (tabbed ss))"
proof -
  have "list_all2 (\<lambda>v s. tostr v = Some s) (rev vs) (rev ss)" using assms(2) by simp
  moreover obtain v ws where v: "rev vs = v # ws" using assms(3) by (cases "rev vs") auto
  ultimately obtain s rs where s: "rev ss = s # rs" "tostr v = Some s" "list_all2 (\<lambda>w r. tostr w = Some r) ws rs"
    by (auto simp: list_all2_Cons1)
  obtain x where x: "concat_top tostr (v # ws) = Some [x]" "tostr x = Some (tabbed (rev rs @ [s]))"
    using concat_top_tabbed [OF assms(1) s(2,3)] by blast
  have "ss = rev rs @ [s]" using s(1) by (metis rev.simps(2) rev_rev_ident)
  with x v assms(3) show ?thesis
    by (cases "tjost_host_message_push E h (tabbed ss)") (simp_all add: lua_print_def)
qed

text \<open>What a script may print: anything of at most 1023 characters; a longer line overruns the buffer of
  \<open>tjost_host_message_push\<close>, and \<open>print(nil)\<close> formats NULL.\<close>

theorem lua_print_limits:
  assumes "\<And>s. tostr (Lua_String s) = Some s" and "list_all2 (\<lambda>v s. tostr v = Some s) vs ss" and "vs \<noteq> []"
    and "tostr v = None"
  shows "lua_print tostr E vs h =
      (if 1023 < length (tabbed ss) then None else map_option (Pair False) (tjost_host_message_push E h (tabbed ss))) \<and>
    lua_print tostr E [v] h = None"
proof -
  have "tjost_host_message_push E h s = None" if "1023 < length s" for s
    using that by (simp add: tjost_host_message_push_def)
  then show ?thesis using lua_print_eq [OF assms(1-3), of E h] assms(4) by (simp add: lua_print_def)
qed

theorem lua_print_limits_witness:
  "lua_print (\<lambda>v. case v of Lua_String s \<Rightarrow> Some s | _ \<Rightarrow> None) E [Lua_String (replicate 2000 (CHR ''a''))] h = None"
proof -
  let ?t = "\<lambda>v. case v of Lua_String s \<Rightarrow> Some s | _ \<Rightarrow> None"
  have "list_all2 (\<lambda>v s. ?t v = Some s) [Lua_String (replicate 2000 (CHR ''a''))] [replicate 2000 (CHR ''a'')]" by simp
  from lua_print_limits [of ?t, OF _ this, of Lua_Nil E h] show ?thesis by simp
qed

section \<open>The environment\<close>




end
