(* ===== verification/Spec2Isabelle.thy ===== *)
theory Spec2Isabelle
  imports Tlsf_Properties Runtime_Properties Module_Properties Recorder_Properties Stream_Properties Lua_Properties
    Startup_Properties Jack_Properties Session_Properties Device_Properties
    Inlist Lua_Setup
begin

text \<open>
  Verification of Tjost, a daemon that lets Lua scripts route Open Sound Control (OSC) messages in real time
  between JACK, MIDI devices, files, the network and the terminal. The development models the C code under
  \<open>src/\<close> and proves what its parts promise one another.

  \<^bold>\<open>How the program works.\<close> Three things run at the same time. The \<^emph>\<open>real-time thread\<close> of JACK calls \<open>_process\<close>
  (\<open>src/tjost.c\<close>) once a period: the inputs put events into the queue of the host, the main loop takes the
  events due in the period and hands each to the children and the Lua function of its module, the outputs
  take the due events of their own queues. Memory in this thread comes from TLSF
  (\<open>src/tlsf-3.0/tlsf.c\<close>), lines for the terminal go into a message ring. The \<^emph>\<open>event loop thread\<close> (libuv) owns
  files, sockets, sequencers, the terminal and the JACK graph; it exchanges events with the real-time thread
  through pipes (\<open>src/tjost_pipe.c\<close>), rings with one producer and one consumer, no locks. \<^emph>\<open>Scripts\<close> build the
  graph of modules at start-up and then answer events inside the real-time thread (\<open>src/tjost_lua.c\<close>).

  \<^bold>\<open>Conventions.\<close> A C function becomes a function of the same name. Integers keep their width (\<open>32 word\<close> frames,
  \<open>64 word\<close> sizes), floats are their bit patterns, buffers are byte lists, structures are records with the
  fields of the source, intrusive lists are lists. Addresses are natural numbers, 0 is NULL. A function into
  \<open>option\<close> answers \<open>None\<close> where the run of the source is undefined (a NULL dereference, a write past a
  buffer, a failed assertion) or does not return; a theorem that it answers \<open>Some\<close> excludes both. Errors the source
  handles are values: return codes, printed lines, events dropped. Code outside the repository is an
  argument of the definitions; what is relied on is a locale, and each locale is interpreted on definitions that
  compute, wherever the repository has the provider on the model of that provider.

  \<^bold>\<open>Outside the repository.\<close>
  \<^item> \<open>jack_ringbuffer\<close> (\<open>Ring_Buffer\<close>): the ring buffers of JACK as the bytes that wait in them; interpreted on a
    circular byte array.
  \<^item> \<open>eina_sorted_list\<close> (\<open>Host_Contract\<close>): sorted insertion of Eina; interpreted on insertion behind the elements
    that are not greater.
  \<^item> \<open>osc_lib\<close> (\<open>Osc\<close>): the functions of the OSC library by OSC 1.0; interpreted on an encoder and decoder.
  \<^item> \<open>lua_api\<close> (\<open>Lua_Bridge\<close>): the checking functions of the Lua API; interpreted on values without conversions.
  \<^item> Records of answers without laws: JACK ports and graph (\<open>osc_port_ops\<close>, \<open>midi_port_ops\<close>, \<open>jack\<close>), RtMidi
    (\<open>rtmidi\<close>), the session server (\<open>session\<close>), what start-up calls (\<open>system\<close>), \<open>sscanf\<close> and \<open>printf\<close> of floats.

  \<^bold>\<open>Inside: interfaces between the parts.\<close>
  \<^item> \<open>rt_allocator\<close>, \<open>rt_pool_allocator\<close> (\<open>Host_Contract\<close>, \<open>Process\<close>): what the host asks of its allocator;
    interpreted on the model of \<open>tlsf.c\<close> in \<open>Tlsf_Provider\<close>.
  \<^item> \<open>tjost_env\<close> (\<open>Host_Lemmas\<close>): ring, allocator and list together, the ground of all lemmas on the host.
  \<^item> \<open>event_handler\<close> (\<open>Event_Loop\<close>): the contract between the event loop and the code of a module; a \<open>sublocale\<close>
    makes the main loop one of its instances.
  \<^item> \<open>process_contract\<close> (\<open>Process\<close>): what \<open>_process\<close> asks of plugins and Lua; interpreted on the repository's
    allocator with the loopback and uplink modules in \<open>Loopback\<close>.
  \<^item> \<open>plugin_library\<close> (\<open>Lua_Graph\<close>): what \<open>plugin\<close> asks of the \<open>add\<close> of a module; interpreted on those of two modules.

  \<^bold>\<open>Theories and sources.\<close>
  \<^item> \<open>Tjost_Prelude\<close>: machine types, memory images, decimal printing.
  \<^item> TLSF (\<open>src/tlsf-3.0/tlsfbits.h\<close>, \<open>src/tlsf-3.0/tlsf.c\<close>). \<open>Tlsf_Bits\<close>: the bit searches and size classes;
    \<open>Tlsf\<close>: blocks, free lists, the interface; \<open>Tlsf_Index\<close>, \<open>Tlsf_Layout\<close>, \<open>Tlsf_Heap\<close>: the two abstractions
    (free lists as a map from classes to lists of blocks; blocks that tile their pools) and the invariant;
    \<open>Tlsf_Correct\<close>: every operation keeps it and changes the used blocks as promised; \<open>Tlsf_Check\<close>: the
    consistency checks; \<open>Tlsf_Pools\<close>: removing pools; \<open>Tlsf_Provider\<close>, \<open>Tlsf_Properties\<close>.
  \<^item> Pipes and rings. \<open>Pipe\<close> (\<open>src/tjost_pipe.c\<close>): frames, producing and consuming, the refinement to a queue of
    events; \<open>Pipe_Concurrency\<close>: every interleaving of the two threads, call by call; \<open>Messages\<close>: the message ring.
  \<^item> The host (\<open>src/tjost.c\<close>, \<open>src/tjost.h\<close>). \<open>Host\<close>: state, memory, scheduling; \<open>Host_Contract\<close>, \<open>Host_Lemmas\<close>: queues
    sorted and owning pairwise different live blocks, the counter \<open>used\<close> exact; \<open>Event_Loop\<close>: the loop that main
    loop and outputs share; \<open>Process\<close>: \<open>_process\<close>; \<open>Startup\<close>: \<open>_tjost_init\<close> step by step, \<open>_tjost_deinit\<close>, \<open>main\<close>;
    \<open>Reference_Env\<close>, \<open>Runtime_Properties\<close>, \<open>Startup_Properties\<close>.
  \<^item> The uplink (\<open>src/tjost_uplink.c\<close>, \<open>src/modules/mod_uplink.c\<close>). \<open>Uplink\<close>: its pipes in the real-time thread;
    \<open>Jack_Notify\<close>: requests to JACK, replies, notifications; \<open>Jack_Correct\<close>, \<open>Jack_Properties\<close>.
  \<^item> The session client (\<open>src/tjost_nsm.c\<close>): \<open>Nsm\<close>, \<open>Session_Properties\<close>; \<open>Startup\<close> begins with it.
  \<^item> Plugin modules (\<open>src/modules/\<close>). \<open>Loopback\<close>; \<open>Control_Voltage\<close>: audio signals and OSC; \<open>Midi\<close>: MIDI ports;
    \<open>Pipe_Modules\<close>: the real-time side of all modules with a pipe, with their MOD_NAMEs and time bases; \<open>Event_Sources\<close>
    and \<open>Event_Sinks\<close>: timer, sequencer, devices, serial line, OSC port, transport; \<open>Rtmidi\<close>: the wrapper
    \<open>rtmidi_c.cpp\<close>; \<open>Net\<close>: sockets; \<open>Send\<close>: typed lines; \<open>Dump\<close>: the printer; \<open>Recorder\<close>: \<open>mod_write.c\<close> and
    \<open>mod_read.c\<close>; \<open>Module_Add\<close>: \<open>add\<close> and \<open>del\<close> of all; \<open>Module_Properties\<close>, \<open>Stream_Properties\<close>,
    \<open>Recorder_Properties\<close>, \<open>Device_Properties\<close>.
  \<^item> Scripts (\<open>src/tjost_lua.c\<close>). \<open>Ieee\<close>: C conversions of numbers; \<open>Lua_Bridge\<close>: events to calls and calls to events;
    \<open>Lua_Modules\<close>: objects, \<open>plugin\<close>, \<open>chain\<close>, the finalizers; \<open>Lua_Setup\<close>: metatables and globals;
    \<open>Lua_Roundtrip\<close>, \<open>Lua_Graph\<close>, \<open>Lua_Properties\<close>.
  \<^item> \<open>Inlist\<close> (\<open>src/inlist/inlist.h\<close>): the intrusive lists on pointers.

  \<^bold>\<open>State.\<close> The record \<open>host\<close> has the fields of \<open>struct _Tjost_Host\<close> the code reads: the allocator's state, counters,
  chunks, rings, the queue, the lists of modules; \<open>module_at\<close> is the memory behind module pointers. An event in a
  queue carries the address of its block, so that freeing it is visible to the allocator; \<open>view\<close> forgets the
  addresses. \<open>host_wf\<close> is the invariant of the host, \<open>tlsf_wf\<close> that of the heap, \<open>used_exact\<close> says that the
  counter is the sum of the live blocks.

  \<^bold>\<open>What is proved.\<close> The allocator hands out disjoint, large enough, aligned blocks on every well-formed heap without
  a failed assertion, and its own checker accepts exactly the sound heaps. Pipes deliver what was produced, in
  order, under every interleaving. The main loop delivers exactly the due events; one whole period keeps the
  invariant. Signals, MIDI, recordings and script messages survive their round trips; typed lines, requests to JACK,
  notifications and session messages are answered as they should be; start-up establishes the invariant and
  shutdown gives everything back. Theorems of the kind \<^emph>\<open>error\<close> state exactly where the code fails: requests TLSF
  mishandles, bytes read past a message, buffers overrun, handles closed that were never opened.

  \<^bold>\<open>Loops and bounds.\<close> Loops over data recurse on it. Loops that need not end are \<open>partial_function (option)\<close>: the consumer
  of a pipe (which does spin, \<open>pipe_consume_spins\<close>), the walk over a pool, the free lists and the pointers of
  \<open>Inlist\<close>; that they end on well-formed data is proved. The wait of the session client runs over the rounds of
  packets that ever come, so waiting for ever is \<open>None\<close>. Chained sends of \<open>net\<close> are pumped with one unit of fuel for
  each waiting frame, which \<open>net_sends_all\<close> shows to be enough. Sizes are those of an LP64 target
  (\<open>sizeof(Tjost_Event)\<close> is 48); TLSF keeps the bounds of its source (blocks of 24 bytes up to 4 GiB).

  \<^bold>\<open>Not modelled.\<close>
  \<^item> The Lua interpreter: its stack, its collector and the running of a script are arguments; so is the loading of
    plugin libraries by Eina.
  \<^item> Weak memory: the steps of \<open>Pipe_Concurrency\<close> are the calls on the ring buffer, each atomic, as JACK documents
    for one reader and one writer. Everywhere else a callback is one step; where the source shares a static
    buffer between threads (\<open>buf_rx\<close> of \<open>tjost_uplink.c\<close>) the race itself is outside the model.
  \<^item> The conversion of network time tags to frames (\<open>_inject_stamp\<close> of \<open>mod_net.c\<close>: arithmetic on doubles with clocks of
    JACK and the system) is an argument; the time stamp \<open>_next\<close> computes is never used. The wall-clock time of a
    sequencer event is left out for the same reason.
  \<^item> Functions that only print or only call a library: \<open>default_walker\<close> of \<open>tlsf.c\<close>, the starting and stopping of
    threads and timers, the signal handlers, the \<open>init\<close> and \<open>shutdown\<close> of the module libraries.
  \<^item> \<open>tjost_unmap_memory_chunk\<close> beyond its effect on the list of chunks (the address space is given back at exit), and
    \<open>INLIST_FOREACH_SAFE\<close> and \<open>INLIST_FREE\<close>, which no file uses.
  \<^item> Compilers other than gcc (the branches of \<open>tlsfbits.h\<close> for them), and targets that are not LP64.
\<close>

end
